(* ===== verification/Prelude.thy ===== *)
theory Prelude
  imports Main "HOL-Library.Word"
begin

text \<open>
  Shared ground of the development: the machine types, the values a fallible Rust function
  can produce, and the shapes of the encoders and decoders every wire type is built from.

  \<^item> \<open>outcome\<close> is what a call of a Rust function returning \<open>Result\<close> can do: return
    \<open>Ok\<close>, return \<open>Err\<close>, or panic. The \<open>?\<close> operator is \<open>and_then\<close>.
  \<^item> An \<open>encoder\<close> models \<open>fn encode(&self, buffer: &mut [u8]) -> Result<&mut [u8], _>\<close>:
    from the contents of the buffer it gives the new contents of the part it used up and
    the untouched rest. The buffer afterwards is the concatenation of both.
  \<^item> A \<open>decoder\<close> models \<open>fn decode(buffer: &[u8]) -> Result<(Self, &[u8]), _>\<close>.
  \<^item> \<open>writes\<close>, \<open>reads\<close> and \<open>progress_dec\<close> are the three facts proved about them, with
    introduction rules for sequential composition (collections \<open>writes_intro\<close>,
    \<open>reads_intro\<close>, \<open>dec_intro\<close>).
\<close>

named_theorems writes_intro "encoders that write exactly a given image"
named_theorems reads_intro "decoders that read back a given image"
named_theorems dec_intro "decoders that never panic and return a suffix of their input"

section \<open>Machine types\<close>

type_synonym u8 = "8 word"
type_synonym u32 = "32 word"
type_synonym u64 = "64 word"
type_synonym bytes = "u8 list"

text \<open>\<open>usize\<close> is modelled by \<^typ>\<open>nat\<close>, for a 64-bit target: \<open>x as usize\<close> of a \<open>u64\<close> is
  \<^term>\<open>unat x\<close>, and \<open>n as u64\<close> of a \<open>usize\<close> is \<open>of_nat n\<close>.\<close>

lemma unat_ucast_u8:
  fixes x :: u64
  assumes "unat x < 256"
  shows "unat (ucast x :: u8) = unat x"
  using assms by (simp add: unsigned_ucast_eq take_bit_nat_eq_self)

lemma unat_of_nat_u64: "n < 2 ^ 64 \<Longrightarrow> unat (of_nat n :: u64) = n"
  by (simp add: unat_of_nat)

section \<open>Results\<close>

datatype ('e, 'a) outcome = Ok 'a | Err 'e | Panic

fun and_then :: "('e, 'a) outcome \<Rightarrow> ('a \<Rightarrow> ('e, 'b) outcome) \<Rightarrow> ('e, 'b) outcome" where
  "and_then (Ok x) f = f x"
| "and_then (Err e) f = Err e"
| "and_then Panic f = Panic"

fun map_err :: "('e \<Rightarrow> 'f) \<Rightarrow> ('e, 'a) outcome \<Rightarrow> ('f, 'a) outcome" where
  "map_err g (Ok x) = Ok x"
| "map_err g (Err e) = Err (g e)"
| "map_err g Panic = Panic"

fun ok_or :: "'e \<Rightarrow> 'a option \<Rightarrow> ('e, 'a) outcome" where
  "ok_or e None = Err e"
| "ok_or e (Some x) = Ok x"

text \<open>\<open>Option::unwrap\<close> and \<open>Option::expect\<close>.\<close>

fun unwrap :: "'a option \<Rightarrow> ('e, 'a) outcome" where
  "unwrap None = Panic"
| "unwrap (Some x) = Ok x"

text \<open>\<open>v[i] = x\<close> on a \<open>Vec\<close>, which panics out of range.\<close>

definition vec_set :: "'a list \<Rightarrow> nat \<Rightarrow> 'a \<Rightarrow> ('e, 'a list) outcome" where
  "vec_set xs i x = (if i < length xs then Ok (xs[i := x]) else Panic)"

text \<open>\<open>v.get(i)\<close> on a \<open>Vec\<close>.\<close>

definition vec_get :: "'a list \<Rightarrow> nat \<Rightarrow> 'a option" where
  "vec_get xs i = (if i < length xs then Some (xs ! i) else None)"

text \<open>\<open>std::task::Poll\<close>.\<close>

datatype 'a poll = Ready 'a | Pending

lemma and_then_eq_Ok:
  "and_then r f = Ok y \<longleftrightarrow> (\<exists>x. r = Ok x \<and> f x = Ok y)"
  by (cases r) auto

lemma and_then_eq_Panic:
  "and_then r f = Panic \<longleftrightarrow> r = Panic \<or> (\<exists>x. r = Ok x \<and> f x = Panic)"
  by (cases r) auto

lemma and_then_assoc: "and_then (and_then r f) g = and_then r (\<lambda>x. and_then (f x) g)"
  by (cases r) auto

lemma map_err_eq_Ok [simp]: "map_err g r = Ok x \<longleftrightarrow> r = Ok x"
  by (cases r) auto

lemma map_err_eq_Panic [simp]: "map_err g r = Panic \<longleftrightarrow> r = Panic"
  by (cases r) auto

lemma ok_or_not_Panic [simp]: "ok_or e x \<noteq> Panic"
  by (cases x) auto

lemma ok_or_eq_Ok [simp]: "ok_or e x = Ok y \<longleftrightarrow> x = Some y"
  by (cases x) auto

lemma unwrap_eq_Ok [simp]: "unwrap x = Ok y \<longleftrightarrow> x = Some y"
  by (cases x) auto

lemma unwrap_eq_Panic [simp]: "unwrap x = Panic \<longleftrightarrow> x = None"
  by (cases x) auto

lemma vec_get_eq_Some: "vec_get xs i = Some y \<longleftrightarrow> i < length xs \<and> xs ! i = y"
  by (auto simp: vec_get_def)

lemma vec_get_update:
  "vec_get (xs[i := v]) j = (if i = j \<and> i < length xs then Some v else vec_get xs j)"
  by (auto simp: vec_get_def nth_list_update)

section \<open>Errors\<close>

datatype error_kind =
  InvalidData | UnexpectedEof | ConnectionAborted | BrokenPipe | PermissionDenied
  | InvalidInput | Other

text \<open>
  An \<open>EncodingError\<close> is one of the libraries' own (\<open>LibEncodingError\<close>), the unknown message
  type of \<open>src/message.rs\<close> line 237, or an \<open>io::Error\<close> turned into text by
  \<open>EncodingError::external\<close> (line 513). An \<open>io::Error\<close> has a kind and a message; the
  formatted messages keep the values they are made from. \<open>FromEncoding\<close> is the conversion
  the \<open>?\<close> operator applies where an \<open>EncodingError\<close> leaves a function that returns
  \<open>io::Result\<close>.
\<close>

datatype encoding_error =
    LibEncodingError string
  | InvalidMessageType u64
  | ExternalError io_error
and io_error =
    IoError error_kind string
  | InvalidMessageLength nat nat nat
  | TooShortMessage bytes
  | EmptyMessage bytes
  | FromEncoding encoding_error
  | LibIoError string

section \<open>Encoders and decoders\<close>

type_synonym encoder = "bytes \<Rightarrow> (encoding_error, bytes \<times> bytes) outcome"
type_synonym 'a decoder = "bytes \<Rightarrow> (encoding_error, 'a \<times> bytes) outcome"

text \<open>\<open>rest = e.encode(rest)?; rest = f.encode(rest)?\<close>\<close>

definition then_enc :: "encoder \<Rightarrow> encoder \<Rightarrow> encoder" where
  "then_enc e f buf =
     and_then (e buf) (\<lambda>(w, rest). and_then (f rest) (\<lambda>(w', rest'). Ok (w @ w', rest')))"

definition skip_enc :: encoder where
  "skip_enc buf = Ok ([], buf)"

text \<open>\<open>let (x, rest) = d(rest)?; f(x, rest)\<close>\<close>

definition bind_dec :: "'a decoder \<Rightarrow> ('a \<Rightarrow> 'b decoder) \<Rightarrow> 'b decoder" where
  "bind_dec d f buf = and_then (d buf) (\<lambda>(x, rest). f x rest)"

definition ret_dec :: "'a \<Rightarrow> 'a decoder" where
  "ret_dec x rest = Ok (x, rest)"

definition fail_dec :: "encoding_error \<Rightarrow> 'a decoder" where
  "fail_dec e rest = Err e"

text \<open>A sum of sizes, each of which may fail: \<open>a()? + b()?\<close>.\<close>

definition add_size ::
  "(encoding_error, nat) outcome \<Rightarrow> (encoding_error, nat) outcome \<Rightarrow> (encoding_error, nat) outcome"
where
  "add_size a b = and_then a (\<lambda>m. and_then b (\<lambda>n. Ok (m + n)))"

lemma add_size_Ok [simp]: "add_size (Ok m) (Ok n) = Ok (m + n)"
  by (simp add: add_size_def)

text \<open>
  \<open>writes e w\<close>: on a buffer with enough room the encoder stores \<open>w\<close> at its front and
  returns the rest; on a shorter buffer it fails with an error.
\<close>

definition writes :: "encoder \<Rightarrow> bytes \<Rightarrow> bool" where
  "writes e w \<longleftrightarrow>
     (\<forall>buf. length w \<le> length buf \<longrightarrow> e buf = Ok (w, drop (length w) buf)) \<and>
     (\<forall>buf. length buf < length w \<longrightarrow> (\<exists>err. e buf = Err err))"

text \<open>\<open>reads d w x\<close>: wherever the image \<open>w\<close> is followed by anything, the decoder gives
  \<open>x\<close> and what follows.\<close>

definition reads :: "'a decoder \<Rightarrow> bytes \<Rightarrow> 'a \<Rightarrow> bool" where
  "reads d w x \<longleftrightarrow> (\<forall>rest. d (w @ rest) = Ok (x, rest))"

text \<open>\<open>suffix_dec\<close>: no input makes the decoder panic, and what it leaves is a suffix of its
  input. \<open>progress_dec\<close>: it also uses at least one byte.\<close>

definition suffix_dec :: "'a decoder \<Rightarrow> bool" where
  "suffix_dec d \<longleftrightarrow>
     (\<forall>b. d b \<noteq> Panic) \<and> (\<forall>b x r. d b = Ok (x, r) \<longrightarrow> (\<exists>p. b = p @ r))"

definition progress_dec :: "'a decoder \<Rightarrow> bool" where
  "progress_dec d \<longleftrightarrow>
     (\<forall>b. d b \<noteq> Panic) \<and> (\<forall>b x r. d b = Ok (x, r) \<longrightarrow> (\<exists>p. p \<noteq> [] \<and> b = p @ r))"

lemma writes_run: "writes e w \<Longrightarrow> length w \<le> length buf \<Longrightarrow> e buf = Ok (w, drop (length w) buf)"
  by (simp add: writes_def)

lemma writes_exact: "writes e w \<Longrightarrow> e (replicate (length w) 0) = Ok (w, [])"
  by (simp add: writes_def)

lemma reads_run: "reads d w x \<Longrightarrow> d (w @ rest) = Ok (x, rest)"
  by (simp add: reads_def)

lemma reads_all: "reads d w x \<Longrightarrow> d w = Ok (x, [])"
  using reads_run [of d w x "[]"] by simp

lemma writes_then_enc [writes_intro]:
  assumes e: "writes e w" and f: "writes f w'"
  shows "writes (then_enc e f) (w @ w')"
  unfolding writes_def
proof (intro conjI allI impI)
  fix buf :: bytes assume "length (w @ w') \<le> length buf"
  then show "then_enc e f buf = Ok (w @ w', drop (length (w @ w')) buf)"
    using writes_run [OF e, of buf] writes_run [OF f, of "drop (length w) buf"]
    by (simp add: then_enc_def add.commute)
next
  fix buf :: bytes assume short: "length buf < length (w @ w')"
  show "\<exists>err. then_enc e f buf = Err err"
  proof (cases "length buf < length w")
    case True
    with e obtain err where "e buf = Err err" by (auto simp: writes_def)
    then show ?thesis by (simp add: then_enc_def)
  next
    case False
    with short have "length (drop (length w) buf) < length w'" by auto
    with f obtain err where "f (drop (length w) buf) = Err err"
      unfolding writes_def by blast
    with False show ?thesis using writes_run [OF e, of buf] by (simp add: then_enc_def)
  qed
qed

lemma writes_skip [writes_intro]: "writes skip_enc []"
  by (simp add: writes_def skip_enc_def)

text \<open>On the zeroed buffers that \<open>to_encoded_bytes\<close> allocates.\<close>

definition writes0 :: "encoder \<Rightarrow> bytes \<Rightarrow> bool" where
  "writes0 e w \<longleftrightarrow>
     (\<forall>n. length w \<le> n \<longrightarrow> e (replicate n 0) = Ok (w, replicate (n - length w) 0))"

lemma writes_writes0: "writes e w \<Longrightarrow> writes0 e w"
  by (simp add: writes_def writes0_def)

lemma writes0_then_enc:
  assumes "writes0 e w" and "writes0 f w'"
  shows "writes0 (then_enc e f) (w @ w')"
  unfolding writes0_def
proof (intro allI impI)
  fix n assume n: "length (w @ w') \<le> n"
  then have "e (replicate n 0) = Ok (w, replicate (n - length w) 0)"
    and "f (replicate (n - length w) 0) = Ok (w', replicate (n - length w - length w') 0)"
    using assms by (simp_all add: writes0_def)
  then show "then_enc e f (replicate n 0) = Ok (w @ w', replicate (n - length (w @ w')) 0)"
    by (simp add: then_enc_def)
qed

lemma writes_if [writes_intro]:
  "writes e w \<Longrightarrow> writes f v \<Longrightarrow> writes (if c then e else f) (if c then w else v)"
  by simp

lemma reads_ret [reads_intro]: "reads (ret_dec x) [] x"
  by (simp add: reads_def ret_dec_def)

lemma reads_bind [reads_intro]:
  "reads d w x \<Longrightarrow> reads (f x) w' y \<Longrightarrow> reads (bind_dec d f) (w @ w') y"
  by (simp add: reads_def bind_dec_def)

lemma reads_bind_ret:
  "reads d w x \<Longrightarrow> reads (bind_dec d (\<lambda>x. ret_dec (f x))) w (f x)"
  by (simp add: reads_def bind_dec_def ret_dec_def)

lemma progress_suffix: "progress_dec d \<Longrightarrow> suffix_dec d"
  unfolding progress_dec_def suffix_dec_def by blast

lemma progress_not_Panic: "progress_dec d \<Longrightarrow> d b \<noteq> Panic"
  by (simp add: progress_dec_def)

lemma progress_shorter: "progress_dec d \<Longrightarrow> d b = Ok (x, r) \<Longrightarrow> length r < length b"
  unfolding progress_dec_def
  by (metis length_append length_greater_0_conv less_add_same_cancel2)

lemma suffix_ret [dec_intro]: "suffix_dec (ret_dec x)"
  by (simp add: suffix_dec_def ret_dec_def)

lemma suffix_fail [dec_intro]: "suffix_dec (fail_dec e)"
  by (simp add: suffix_dec_def fail_dec_def)

lemma suffix_bind [dec_intro]:
  assumes "suffix_dec d" and "\<And>x. suffix_dec (f x)"
  shows "suffix_dec (bind_dec d f)"
  using assms unfolding suffix_dec_def bind_dec_def
  by (fastforce simp: and_then_eq_Ok and_then_eq_Panic)

lemma progress_bind [dec_intro]:
  assumes d: "progress_dec d" and f: "\<And>x. suffix_dec (f x)"
  shows "progress_dec (bind_dec d f)"
  unfolding progress_dec_def
proof (intro conjI allI impI)
  fix b show "bind_dec d f b \<noteq> Panic"
    using d f by (auto simp: bind_dec_def and_then_eq_Panic progress_dec_def suffix_dec_def)
next
  fix b y r assume "bind_dec d f b = Ok (y, r)"
  then obtain x r' where x: "d b = Ok (x, r')" and y: "f x r' = Ok (y, r)"
    by (auto simp: bind_dec_def and_then_eq_Ok)
  from d x obtain p where "p \<noteq> []" "b = p @ r'" unfolding progress_dec_def by blast
  moreover from f y obtain q where "r' = q @ r" unfolding suffix_dec_def by blast
  ultimately show "\<exists>p. p \<noteq> [] \<and> b = p @ r" by (intro exI [of _ "p @ q"]) simp
qed

lemma suffix_if [dec_intro]:
  "suffix_dec d \<Longrightarrow> suffix_dec d' \<Longrightarrow> suffix_dec (if c then d else d')"
  by simp

section \<open>Rust strings\<close>

text \<open>
  A \<open>String\<close> is modelled by its bytes. Which byte sequences are strings is the standard
  library's UTF-8 rule: no overlong form, no surrogate, nothing above U+10FFFF.
\<close>

fun utf8_bytes :: "nat list \<Rightarrow> bool" where
  "utf8_bytes [] = True"
| "utf8_bytes (a # bs) =
     (if a < 128 then utf8_bytes bs
      else (case bs of
        [] \<Rightarrow> False
      | b # cs \<Rightarrow>
          if 194 \<le> a \<and> a \<le> 223 then 128 \<le> b \<and> b \<le> 191 \<and> utf8_bytes cs
          else (case cs of
            [] \<Rightarrow> False
          | c # ds \<Rightarrow>
              if 224 \<le> a \<and> a \<le> 239 then
                (if a = 224 then 160 else 128) \<le> b \<and> b \<le> (if a = 237 then 159 else 191)
                \<and> 128 \<le> c \<and> c \<le> 191 \<and> utf8_bytes ds
              else (case ds of
                [] \<Rightarrow> False
              | d # es \<Rightarrow>
                  240 \<le> a \<and> a \<le> 244 \<and>
                  (if a = 240 then 144 else 128) \<le> b \<and> b \<le> (if a = 244 then 143 else 191)
                  \<and> 128 \<le> c \<and> c \<le> 191 \<and> 128 \<le> d \<and> d \<le> 191 \<and> utf8_bytes es))))"

definition utf8 :: "string \<Rightarrow> bool" where
  "utf8 s = utf8_bytes (map of_char s)"

text \<open>A \<open>Vec\<close> never holds more than \<open>isize::MAX\<close> bytes.\<close>

definition vec_fits :: "'a list \<Rightarrow> bool" where
  "vec_fits xs \<longleftrightarrow> length xs < 2 ^ 63"

end
