(* ===== verification/Compact.thy ===== *)
theory Compact
  imports Prelude
begin

text \<open>
  The interface to the crates \<open>compact_encoding\<close> and \<open>hypercore_schema\<close>, which the program
  calls and whose sources are not part of it. Their functions are the fields of the record
  \<open>compact\<close>, an argument of every definition that uses them; nothing is assumed about a
  field except what \<open>compact_ok\<close> lists. The macros \<open>map_encode!\<close>, \<open>map_decode!\<close> and
  \<open>sum_encoded_size!\<close> apply the trait method to their arguments in order; they appear as
  \<open>then_enc\<close>, \<open>bind_dec\<close> and \<open>add_size\<close>.

  \<open>wire_codec\<close> is the contract of one \<open>CompactEncoding\<close> implementation: \<open>encoded_size\<close> is
  the length of the image, \<open>encode\<close> writes the image, \<open>decode\<close> reads it back in front of any
  rest. The library's implementations satisfy it by hypothesis (\<open>compact_ok\<close>); the theories
  Schema and Messages prove it for the implementations of this program.
\<close>

section \<open>Structures of \<open>hypercore_schema\<close> that the messages carry\<close>

text \<open>The fields are those of the struct expressions in \<open>src/message.rs\<close> and
  \<open>examples/replication.rs\<close>.\<close>

record Node =
  node_index :: u64
  node_hash :: bytes
  node_length :: u64

record RequestBlock =
  rb_index :: u64
  rb_nodes :: u64

record RequestSeek =
  rs_bytes :: u64

record RequestUpgrade =
  ru_start :: u64
  ru_length :: u64

record DataBlock =
  db_index :: u64
  db_nodes :: "Node list"
  db_value :: bytes

record DataHash =
  dh_index :: u64
  dh_nodes :: "Node list"

record DataSeek =
  ds_bytes :: u64
  ds_nodes :: "Node list"

record DataUpgrade =
  du_start :: u64
  du_length :: u64
  du_nodes :: "Node list"
  du_additional_nodes :: "Node list"
  du_signature :: bytes

definition nodes_ok :: "Node list \<Rightarrow> bool" where
  "nodes_ok ns \<longleftrightarrow> vec_fits ns \<and> list_all (\<lambda>n. length (node_hash n) = 32) ns"

definition DataBlock_ok :: "DataBlock \<Rightarrow> bool" where
  "DataBlock_ok b \<longleftrightarrow> nodes_ok (db_nodes b) \<and> vec_fits (db_value b)"

definition DataHash_ok :: "DataHash \<Rightarrow> bool" where
  "DataHash_ok b \<longleftrightarrow> nodes_ok (dh_nodes b)"

definition DataSeek_ok :: "DataSeek \<Rightarrow> bool" where
  "DataSeek_ok b \<longleftrightarrow> nodes_ok (ds_nodes b)"

definition DataUpgrade_ok :: "DataUpgrade \<Rightarrow> bool" where
  "DataUpgrade_ok b \<longleftrightarrow>
     nodes_ok (du_nodes b) \<and> nodes_ok (du_additional_nodes b) \<and> vec_fits (du_signature b)"

section \<open>The library's functions\<close>

text \<open>One implementation of the trait \<open>CompactEncoding\<close>.\<close>

record 'a codec =
  encoded_size :: "'a \<Rightarrow> (encoding_error, nat) outcome"
  encode :: "'a \<Rightarrow> encoder"
  decode :: "'a decoder"

record compact =
  c_u64 :: "u64 codec"
  c_string :: "string codec"
  c_bytes :: "bytes codec"
  c_u32s :: "u32 list codec"
  c_RequestBlock :: "RequestBlock codec"
  c_RequestSeek :: "RequestSeek codec"
  c_RequestUpgrade :: "RequestUpgrade codec"
  c_DataBlock :: "DataBlock codec"
  c_DataHash :: "DataHash codec"
  c_DataSeek :: "DataSeek codec"
  c_DataUpgrade :: "DataUpgrade codec"
  decode_usize :: "nat decoder"
  take_array :: "nat \<Rightarrow> bytes decoder"
  take_array_mut :: "nat \<Rightarrow> bytes decoder"
  write_array :: "bytes \<Rightarrow> encoder"
  write_slice :: "bytes \<Rightarrow> encoder"
  to_encoded_bytes ::
    "(encoding_error, nat) outcome \<Rightarrow> encoder \<Rightarrow> (encoding_error, bytes) outcome"

section \<open>The contract of an implementation of the trait\<close>

text \<open>The bytes a codec stores for a value, read off its own \<open>encode\<close>.\<close>

definition wire_of :: "'a codec \<Rightarrow> 'a \<Rightarrow> bytes" where
  "wire_of c x =
     (case encoded_size c x of
        Ok n \<Rightarrow> (case encode c x (replicate n 0) of Ok (w, _) \<Rightarrow> w | _ \<Rightarrow> [])
      | _ \<Rightarrow> [])"

text \<open>What encoding and decoding one value amounts to: the announced size is exact, a buffer with room
  is filled from the front and otherwise untouched, a shorter one is refused, and the bytes decode to
  the value wherever they stand.\<close>

definition roundtrips ::
  "('a \<Rightarrow> (encoding_error, nat) outcome) \<Rightarrow> ('a \<Rightarrow> encoder) \<Rightarrow> 'a decoder \<Rightarrow> 'a \<Rightarrow> bool"
where
  "roundtrips size_of enc dec x \<longleftrightarrow> (\<exists>w. size_of x = Ok (length w) \<and>
     (\<forall>buf. length w \<le> length buf \<longrightarrow> enc x buf = Ok (w, drop (length w) buf)) \<and>
     (\<forall>buf. length buf < length w \<longrightarrow> (\<exists>e. enc x buf = Err e)) \<and>
     (\<forall>rest. dec (w @ rest) = Ok (x, rest)))"

locale wire_codec =
  fixes valid :: "'a \<Rightarrow> bool"
    and size_of :: "'a \<Rightarrow> (encoding_error, nat) outcome"
    and enc :: "'a \<Rightarrow> encoder"
    and dec :: "'a decoder"
    and image :: "'a \<Rightarrow> bytes"
  assumes size_of_image: "valid x \<Longrightarrow> size_of x = Ok (length (image x))"
    and enc_writes: "valid x \<Longrightarrow> writes (enc x) (image x)"
    and dec_reads: "valid x \<Longrightarrow> reads dec (image x) x"
    and dec_progress: "progress_dec dec"
begin

lemma image_not_Nil:
  assumes "valid x"
  shows "image x \<noteq> []"
proof -
  have "dec (image x @ []) = Ok (x, [])" by (rule reads_run [OF dec_reads [OF assms]])
  then obtain p where "p \<noteq> []" "image x @ [] = p @ []"
    using dec_progress unfolding progress_dec_def by blast
  then show ?thesis by simp
qed

lemma image_length: "valid x \<Longrightarrow> 0 < length (image x)"
  using image_not_Nil by simp

lemma dec_image: "valid x \<Longrightarrow> dec (image x @ rest) = Ok (x, rest)"
  by (rule reads_run [OF dec_reads])

text \<open>No image is a proper prefix of another: a decoder never stops early or late.\<close>

lemma image_prefix_free:
  assumes "valid x" and "valid y" and "image x @ r = image y @ s"
  shows "x = y \<and> r = s"
proof -
  have "Ok (x, r) = dec (image y @ s)"
    by (subst assms(3) [symmetric]) (rule dec_image [OF assms(1), symmetric])
  also have "\<dots> = Ok (y, s)" by (rule dec_image [OF assms(2)])
  finally show ?thesis by simp
qed

lemma image_inj: "valid x \<Longrightarrow> valid y \<Longrightarrow> image x = image y \<Longrightarrow> x = y"
  using image_prefix_free [of x y "[]" "[]"] by simp

lemma value_roundtrips: "valid x \<Longrightarrow> roundtrips size_of enc dec x"
  unfolding roundtrips_def
  by (rule exI [of _ "image x"])
    (use enc_writes in \<open>simp add: size_of_image dec_image writes_def\<close>)

text \<open>A buffer of \<open>encoded_size\<close> bytes is filled exactly and decodes to the value.\<close>

lemma encode_decode:
  assumes "valid x" and "size_of x = Ok n"
  shows "\<exists>w. enc x (replicate n 0) = Ok (w, []) \<and> length w = n \<and> dec w = Ok (x, [])"
proof -
  from assms have "n = length (image x)" by (simp add: size_of_image)
  then show ?thesis
    using writes_exact [OF enc_writes [OF assms(1)]] dec_image [OF assms(1), of "[]"] by simp
qed

end

text \<open>The contract of a library codec, with its own image.\<close>

definition codec_ok :: "('a \<Rightarrow> bool) \<Rightarrow> 'a codec \<Rightarrow> bool" where
  "codec_ok valid c \<longleftrightarrow> wire_codec valid (encoded_size c) (encode c) (decode c) (wire_of c)"

section \<open>What the program relies on\<close>

text \<open>
  \<^item> Unsigned integers have the variable-length format of compact-encoding: values below 253
    are one byte, larger ones start with a byte of at least 253. \<open>decode_usize\<close> reads the
    same format.
  \<^item> \<open>take_array\<close>, \<open>take_array_mut\<close>, \<open>write_array\<close> and \<open>write_slice\<close> split the buffer, and
    fail with an error when it is too short.
  \<^item> \<open>to_encoded_bytes\<close> is \<open>encode\<close> into a zeroed buffer of \<open>encoded_size\<close> bytes.
\<close>

definition uint_format :: "compact \<Rightarrow> bool" where
  "uint_format C \<longleftrightarrow>
     (\<forall>x. x < 253 \<longrightarrow> wire_of (c_u64 C) x = [ucast x]) \<and>
     (\<forall>x. 253 \<le> x \<longrightarrow> (\<exists>b bs. wire_of (c_u64 C) x = b # bs \<and> 253 \<le> b)) \<and>
     (\<forall>x. reads (decode_usize C) (wire_of (c_u64 C) x) (unat x)) \<and>
     progress_dec (decode_usize C)"

definition slice_ops_ok :: "compact \<Rightarrow> bool" where
  "slice_ops_ok C \<longleftrightarrow>
     (\<forall>n b. n \<le> length b \<longrightarrow> take_array C n b = Ok (take n b, drop n b)) \<and>
     (\<forall>n b. length b < n \<longrightarrow> (\<exists>e. take_array C n b = Err e)) \<and>
     (\<forall>n b. n \<le> length b \<longrightarrow> take_array_mut C n b = Ok (take n b, drop n b)) \<and>
     (\<forall>n b. length b < n \<longrightarrow> (\<exists>e. take_array_mut C n b = Err e)) \<and>
     (\<forall>w. writes (write_array C w) w) \<and>
     (\<forall>w. writes (write_slice C w) w)"

definition to_bytes_ok :: "compact \<Rightarrow> bool" where
  "to_bytes_ok C \<longleftrightarrow>
     (\<forall>n e. to_encoded_bytes C (Ok n) e =
        and_then (e (replicate n 0)) (\<lambda>(w, rest). Ok (w @ rest))) \<and>
     (\<forall>err e. to_encoded_bytes C (Err err) e = Err err) \<and>
     (\<forall>e. to_encoded_bytes C Panic e = Panic)"

definition compact_ok :: "compact \<Rightarrow> bool" where
  "compact_ok C \<longleftrightarrow>
     codec_ok (\<lambda>_. True) (c_u64 C) \<and>
     codec_ok (\<lambda>s. utf8 s \<and> vec_fits s) (c_string C) \<and>
     codec_ok vec_fits (c_bytes C) \<and>
     codec_ok vec_fits (c_u32s C) \<and>
     codec_ok (\<lambda>_. True) (c_RequestBlock C) \<and>
     codec_ok (\<lambda>_. True) (c_RequestSeek C) \<and>
     codec_ok (\<lambda>_. True) (c_RequestUpgrade C) \<and>
     codec_ok DataBlock_ok (c_DataBlock C) \<and>
     codec_ok DataHash_ok (c_DataHash C) \<and>
     codec_ok DataSeek_ok (c_DataSeek C) \<and>
     codec_ok DataUpgrade_ok (c_DataUpgrade C) \<and>
     uint_format C \<and> slice_ops_ok C \<and> to_bytes_ok C"

locale compact_lib =
  fixes C :: compact
  assumes lib: "compact_ok C"

sublocale compact_lib \<subseteq>
  U: wire_codec "\<lambda>_. True" "encoded_size (c_u64 C)" "encode (c_u64 C)" "decode (c_u64 C)"
    "wire_of (c_u64 C)"
  using lib by (simp add: compact_ok_def codec_ok_def)

sublocale compact_lib \<subseteq>
  S: wire_codec "\<lambda>s. utf8 s \<and> vec_fits s" "encoded_size (c_string C)" "encode (c_string C)"
    "decode (c_string C)" "wire_of (c_string C)"
  using lib by (simp add: compact_ok_def codec_ok_def)

sublocale compact_lib \<subseteq>
  B: wire_codec vec_fits "encoded_size (c_bytes C)" "encode (c_bytes C)" "decode (c_bytes C)"
    "wire_of (c_bytes C)"
  using lib by (simp add: compact_ok_def codec_ok_def)

sublocale compact_lib \<subseteq>
  W: wire_codec vec_fits "encoded_size (c_u32s C)" "encode (c_u32s C)" "decode (c_u32s C)"
    "wire_of (c_u32s C)"
  using lib by (simp add: compact_ok_def codec_ok_def)

sublocale compact_lib \<subseteq>
  RB: wire_codec "\<lambda>_. True" "encoded_size (c_RequestBlock C)" "encode (c_RequestBlock C)"
    "decode (c_RequestBlock C)" "wire_of (c_RequestBlock C)"
  using lib by (simp add: compact_ok_def codec_ok_def)

sublocale compact_lib \<subseteq>
  RS: wire_codec "\<lambda>_. True" "encoded_size (c_RequestSeek C)" "encode (c_RequestSeek C)"
    "decode (c_RequestSeek C)" "wire_of (c_RequestSeek C)"
  using lib by (simp add: compact_ok_def codec_ok_def)

sublocale compact_lib \<subseteq>
  RU: wire_codec "\<lambda>_. True" "encoded_size (c_RequestUpgrade C)" "encode (c_RequestUpgrade C)"
    "decode (c_RequestUpgrade C)" "wire_of (c_RequestUpgrade C)"
  using lib by (simp add: compact_ok_def codec_ok_def)

sublocale compact_lib \<subseteq>
  DB: wire_codec DataBlock_ok "encoded_size (c_DataBlock C)" "encode (c_DataBlock C)"
    "decode (c_DataBlock C)" "wire_of (c_DataBlock C)"
  using lib by (simp add: compact_ok_def codec_ok_def)

sublocale compact_lib \<subseteq>
  DH: wire_codec DataHash_ok "encoded_size (c_DataHash C)" "encode (c_DataHash C)"
    "decode (c_DataHash C)" "wire_of (c_DataHash C)"
  using lib by (simp add: compact_ok_def codec_ok_def)

sublocale compact_lib \<subseteq>
  DS: wire_codec DataSeek_ok "encoded_size (c_DataSeek C)" "encode (c_DataSeek C)"
    "decode (c_DataSeek C)" "wire_of (c_DataSeek C)"
  using lib by (simp add: compact_ok_def codec_ok_def)

sublocale compact_lib \<subseteq>
  DU: wire_codec DataUpgrade_ok "encoded_size (c_DataUpgrade C)" "encode (c_DataUpgrade C)"
    "decode (c_DataUpgrade C)" "wire_of (c_DataUpgrade C)"
  using lib by (simp add: compact_ok_def codec_ok_def)

context compact_lib
begin

lemmas lib_sizes =
  U.size_of_image S.size_of_image B.size_of_image W.size_of_image RB.size_of_image
  RS.size_of_image RU.size_of_image DB.size_of_image DH.size_of_image DS.size_of_image
  DU.size_of_image

lemmas lib_writes [writes_intro] =
  U.enc_writes S.enc_writes B.enc_writes W.enc_writes RB.enc_writes RS.enc_writes
  RU.enc_writes DB.enc_writes DH.enc_writes DS.enc_writes DU.enc_writes

lemmas lib_reads [reads_intro] =
  U.dec_reads S.dec_reads B.dec_reads W.dec_reads RB.dec_reads RS.dec_reads RU.dec_reads
  DB.dec_reads DH.dec_reads DS.dec_reads DU.dec_reads

lemmas lib_progress [dec_intro] =
  U.dec_progress S.dec_progress B.dec_progress W.dec_progress RB.dec_progress
  RS.dec_progress RU.dec_progress DB.dec_progress DH.dec_progress DS.dec_progress
  DU.dec_progress

lemmas lib_suffix [dec_intro] = lib_progress [THEN progress_suffix]

lemmas lib_dec =
  U.dec_image S.dec_image B.dec_image W.dec_image RB.dec_image RS.dec_image RU.dec_image
  DB.dec_image DH.dec_image DS.dec_image DU.dec_image

lemma write_array_writes [writes_intro]: "writes (write_array C w) w"
  using lib by (simp add: compact_ok_def slice_ops_ok_def)

lemma write_slice_writes [writes_intro]: "writes (write_slice C w) w"
  using lib by (simp add: compact_ok_def slice_ops_ok_def)

lemma take_array_enough: "n \<le> length b \<Longrightarrow> take_array C n b = Ok (take n b, drop n b)"
  using lib by (simp add: compact_ok_def slice_ops_ok_def)

lemma take_array_short: "length b < n \<Longrightarrow> \<exists>e. take_array C n b = Err e"
  using lib by (simp add: compact_ok_def slice_ops_ok_def)

lemma take_array_mut_enough: "n \<le> length b \<Longrightarrow> take_array_mut C n b = Ok (take n b, drop n b)"
  using lib by (simp add: compact_ok_def slice_ops_ok_def)

lemma take_array_mut_short: "length b < n \<Longrightarrow> \<exists>e. take_array_mut C n b = Err e"
  using lib by (simp add: compact_ok_def slice_ops_ok_def)

lemma take_array_reads [reads_intro]: "length w = n \<Longrightarrow> reads (take_array C n) w w"
  by (simp add: reads_def take_array_enough)

lemma take_array_progress [dec_intro]:
  assumes "0 < n"
  shows "progress_dec (take_array C n)"
  unfolding progress_dec_def
proof (intro conjI allI impI)
  fix b show "take_array C n b \<noteq> Panic"
    using take_array_enough [of n b] take_array_short [of b n] by (cases "n \<le> length b") auto
next
  fix b x r assume run: "take_array C n b = Ok (x, r)"
  then have "n \<le> length b" using take_array_short [of b n] by (cases "n \<le> length b") auto
  with run assms show "\<exists>p. p \<noteq> [] \<and> b = p @ r"
    by (intro exI [of _ "take n b"]) (auto simp: take_array_enough)
qed

lemma usize_reads: "reads (decode_usize C) (wire_of (c_u64 C) x) (unat x)"
  using lib by (simp add: compact_ok_def uint_format_def)

lemma usize_progress [dec_intro]: "progress_dec (decode_usize C)"
  using lib by (simp add: compact_ok_def uint_format_def)

lemma wire_u64_small: "x < 253 \<Longrightarrow> wire_of (c_u64 C) x = [ucast x]"
  using lib by (simp add: compact_ok_def uint_format_def)

lemma wire_u64_pos: "0 < length (wire_of (c_u64 C) x)"
  by (rule U.image_length) simp

lemma wire_u64_zero: "wire_of (c_u64 C) 0 = [0]"
  by (simp add: wire_u64_small)

text \<open>Only the value 0 has an image that starts with a zero byte.\<close>

lemma wire_u64_first:
  assumes "x \<noteq> 0"
  obtains b bs where "wire_of (c_u64 C) x = b # bs" "b \<noteq> 0"
proof (cases "x < 253")
  case True
  then have "unat x < 253" by (simp add: word_less_nat_alt)
  moreover from assms have "unat x \<noteq> 0" by (simp add: unat_eq_zero)
  ultimately have "unat (ucast x :: u8) \<noteq> 0"
    by (simp add: unat_ucast_u8)
  then have "(ucast x :: u8) \<noteq> 0" by auto
  with True that show ?thesis by (simp add: wire_u64_small)
next
  case False
  then have "253 \<le> x" by simp
  then obtain b bs where b: "wire_of (c_u64 C) x = b # bs" "253 \<le> b"
    using lib by (auto simp: compact_ok_def uint_format_def)
  from b(2) have "b \<noteq> 0" by auto
  with b(1) show ?thesis by (rule that)
qed

lemma to_bytes_exact:
  assumes "sz = Ok (length w)" and "writes0 e w"
  shows "to_encoded_bytes C sz e = Ok w"
  using lib assms by (simp add: compact_ok_def to_bytes_ok_def writes0_def)

lemma to_bytes_Panic: "to_encoded_bytes C Panic e = Panic"
  using lib by (simp add: compact_ok_def to_bytes_ok_def)

end

end
