(* ===== verification/Reference_Codec.thy ===== *)
theory Reference_Codec
  imports Compact
begin

text \<open>
  A concrete instance of the interface of Compact, in the published format of
  compact-encoding: variable-length integers, length-prefixed vectors and strings, structures
  as their fields in order. It shows that \<open>compact_ok\<close> can be met (\<open>ref_compact_ok\<close>) and lets
  the model run on concrete values. Nothing else depends on it.
\<close>

section \<open>Building blocks\<close>

fun to_le :: "nat \<Rightarrow> nat \<Rightarrow> bytes" where
  "to_le 0 v = []"
| "to_le (Suc n) v = of_nat (v mod 256) # to_le n (v div 256)"

fun from_le :: "bytes \<Rightarrow> nat" where
  "from_le [] = 0"
| "from_le (b # bs) = unat b + 256 * from_le bs"

lemma length_to_le [simp]: "length (to_le n v) = n"
  by (induction n arbitrary: v) simp_all

lemma from_to_le: "v < 256 ^ n \<Longrightarrow> from_le (to_le n v) = v"
proof (induction n arbitrary: v)
  case (Suc n)
  then have "v div 256 < 256 ^ n" by (simp add: less_mult_imp_div_less mult.commute)
  then have "from_le (to_le n (v div 256)) = v div 256" by (rule Suc.IH)
  then show ?case by (simp add: unat_of_nat)
qed simp

definition mk_codec :: "('a \<Rightarrow> bytes) \<Rightarrow> 'a decoder \<Rightarrow> 'a codec" where
  "mk_codec img d =
     \<lparr>encoded_size = (\<lambda>x. Ok (length (img x))),
      encode = (\<lambda>x buf. if length (img x) \<le> length buf then Ok (img x, drop (length (img x)) buf)
        else Err (LibEncodingError ''out of bounds'')),
      decode = d\<rparr>"

lemma wire_of_mk_codec [simp]: "wire_of (mk_codec img d) x = img x"
  by (simp add: wire_of_def mk_codec_def)

lemma mk_codec_ok:
  "(\<And>x. P x \<Longrightarrow> reads d (img x) x) \<Longrightarrow> progress_dec d \<Longrightarrow> codec_ok P (mk_codec img d)"
  unfolding codec_ok_def by unfold_locales (auto simp: mk_codec_def wire_of_def writes_def not_le)

definition ref_take :: "nat \<Rightarrow> bytes decoder" where
  "ref_take n b =
     (if n \<le> length b then Ok (take n b, drop n b) else Err (LibEncodingError ''out of bounds''))"

lemma ref_take_reads: "length w = n \<Longrightarrow> reads (ref_take n) w w"
  by (simp add: reads_def ref_take_def)

lemma ref_take_Ok: "ref_take n b = Ok (x, r) \<Longrightarrow> b = x @ r \<and> length x = n"
  by (auto simp: ref_take_def split: if_splits)

lemma ref_take_suffix: "suffix_dec (ref_take n)"
  unfolding suffix_dec_def
proof (intro conjI allI impI)
  fix b x r assume "ref_take n b = Ok (x, r)"
  then have "b = x @ r" by (simp add: ref_take_Ok)
  then show "\<exists>p. b = p @ r" by blast
qed (simp add: ref_take_def)

lemma ref_take_progress: "0 < n \<Longrightarrow> progress_dec (ref_take n)"
  unfolding progress_dec_def
proof (intro conjI allI impI)
  fix b x r assume "0 < n" "ref_take n b = Ok (x, r)"
  then have "b = x @ r" "x \<noteq> []" by (auto dest: ref_take_Ok)
  then show "\<exists>p. p \<noteq> [] \<and> b = p @ r" by blast
qed (simp add: ref_take_def)

fun list_dec :: "'a decoder \<Rightarrow> nat \<Rightarrow> 'a list decoder" where
  "list_dec d 0 = ret_dec []"
| "list_dec d (Suc n) = bind_dec d (\<lambda>x. bind_dec (list_dec d n) (\<lambda>xs. ret_dec (x # xs)))"

lemma list_dec_reads:
  "(\<And>x. x \<in> set xs \<Longrightarrow> reads d (img x) x) \<Longrightarrow>
   reads (list_dec d (length xs)) (concat (map img xs)) xs"
proof (induction xs)
  case (Cons x xs)
  then have "reads (list_dec d (length xs)) (concat (map img xs)) xs" "reads d (img x) x" by simp_all
  then show ?case by (simp add: reads_def bind_dec_def ret_dec_def)
qed (simp add: reads_ret)

lemma list_dec_suffix: "suffix_dec d \<Longrightarrow> suffix_dec (list_dec d n)"
  by (induction n) (auto intro: dec_intro)

section \<open>Integers\<close>

definition u64_img :: "u64 \<Rightarrow> bytes" where
  "u64_img x =
     (if unat x < 253 then [ucast x]
      else if unat x < 2 ^ 16 then 253 # to_le 2 (unat x)
      else if unat x < 2 ^ 32 then 254 # to_le 4 (unat x)
      else 255 # to_le 8 (unat x))"

definition u64_dec :: "u64 decoder" where
  "u64_dec =
     bind_dec (ref_take 1) (\<lambda>t.
       if unat (hd t) < 253 then ret_dec (of_nat (unat (hd t)))
       else bind_dec (ref_take (if hd t = 253 then 2 else if hd t = 254 then 4 else 8))
         (\<lambda>b. ret_dec (of_nat (from_le b))))"

lemma u64_reads: "reads u64_dec (u64_img x) x"
proof -
  have x: "unat x < 2 ^ 64" using unsigned_less [of x] by simp
  show ?thesis
  proof (cases "unat x < 253")
    case True
    then have "unat (ucast x :: u8) = unat x" by (simp add: unat_ucast_u8)
    then show ?thesis using True
      by (simp add: reads_def u64_dec_def u64_img_def bind_dec_def ref_take_def ret_dec_def)
  next
    case False
    then show ?thesis using x
      by (auto simp: reads_def u64_dec_def u64_img_def bind_dec_def ref_take_def ret_dec_def
          from_to_le)
  qed
qed

lemma u64_progress: "progress_dec u64_dec"
  unfolding u64_dec_def by (intro dec_intro ref_take_progress ref_take_suffix) simp

definition usize_dec :: "nat decoder" where
  "usize_dec = bind_dec u64_dec (\<lambda>x. ret_dec (unat x))"

lemma usize_dec_ok: "reads usize_dec (u64_img x) (unat x)" "progress_dec usize_dec"
  unfolding usize_dec_def
  by (rule reads_bind_ret [OF u64_reads]) (intro dec_intro u64_progress)

section \<open>Vectors and strings\<close>

definition vec_img :: "('a \<Rightarrow> bytes) \<Rightarrow> 'a list \<Rightarrow> bytes" where
  "vec_img img xs = u64_img (of_nat (length xs)) @ concat (map img xs)"

definition vec_dec :: "'a decoder \<Rightarrow> 'a list decoder" where
  "vec_dec d = bind_dec u64_dec (\<lambda>n. list_dec d (unat n))"

lemma vec_reads:
  assumes "vec_fits xs" and "\<And>x. x \<in> set xs \<Longrightarrow> reads d (img x) x"
  shows "reads (vec_dec d) (vec_img img xs) xs"
proof -
  from assms(1) have "unat (of_nat (length xs) :: u64) = length xs"
    by (simp add: vec_fits_def unat_of_nat_u64)
  with list_dec_reads [OF assms(2)] show ?thesis
    unfolding vec_dec_def vec_img_def
    using reads_bind [OF u64_reads, of "\<lambda>n. list_dec d (unat n)" "of_nat (length xs)"] by simp
qed

lemma vec_progress: "suffix_dec d \<Longrightarrow> progress_dec (vec_dec d)"
  unfolding vec_dec_def by (intro dec_intro u64_progress list_dec_suffix)

definition byte_dec :: "u8 decoder" where
  "byte_dec = bind_dec (ref_take 1) (\<lambda>b. ret_dec (hd b))"

lemma byte_dec_ok: "reads byte_dec [b] b" "suffix_dec byte_dec"
  unfolding byte_dec_def
  using reads_bind_ret [OF ref_take_reads [of "[b]" 1], of hd]
  by (simp_all add: suffix_bind suffix_ret ref_take_suffix)

definition string_img :: "string \<Rightarrow> bytes" where
  "string_img s = vec_img (\<lambda>b. [b]) (map (\<lambda>c. of_nat (of_char c)) s)"

definition string_dec :: "string decoder" where
  "string_dec = bind_dec (vec_dec byte_dec) (\<lambda>b.
     let s = map (\<lambda>x. char_of (unat x)) b
     in if utf8 s then ret_dec s else fail_dec (LibEncodingError ''invalid utf-8''))"

lemma char_byte: "char_of (unat (of_nat (of_char c) :: u8)) = c"
  by (simp add: unat_of_nat)

lemma string_reads:
  assumes "utf8 s \<and> vec_fits s"
  shows "reads string_dec (string_img s) s"
proof -
  let ?b = "map (\<lambda>c. of_nat (of_char c)) s :: bytes"
  have "reads (vec_dec byte_dec) (string_img s) ?b"
    using assms unfolding string_img_def
    by (intro vec_reads byte_dec_ok) (simp add: vec_fits_def)
  then show ?thesis
    using assms by (simp add: string_dec_def reads_def bind_dec_def Let_def o_def char_byte ret_dec_def)
qed

lemma string_progress: "progress_dec string_dec"
  unfolding string_dec_def Let_def by (intro dec_intro vec_progress byte_dec_ok)

definition u32_img :: "u32 \<Rightarrow> bytes" where
  "u32_img x = to_le 4 (unat x)"

definition u32_dec :: "u32 decoder" where
  "u32_dec = bind_dec (ref_take 4) (\<lambda>b. ret_dec (of_nat (from_le b)))"

lemma u32_ok: "reads u32_dec (u32_img x) x" "suffix_dec u32_dec"
proof -
  have "unat x < 2 ^ 32" using unsigned_less [of x] by simp
  then show "reads u32_dec (u32_img x) x"
    by (simp add: u32_dec_def u32_img_def reads_def bind_dec_def ref_take_def ret_dec_def
        from_to_le)
  show "suffix_dec u32_dec" unfolding u32_dec_def by (intro dec_intro ref_take_suffix)
qed

section \<open>Structures\<close>

definition node_img :: "Node \<Rightarrow> bytes" where
  "node_img n = u64_img (node_index n) @ u64_img (node_length n) @ node_hash n"

definition node_dec :: "Node decoder" where
  "node_dec = bind_dec u64_dec (\<lambda>i. bind_dec u64_dec (\<lambda>l. bind_dec (ref_take 32) (\<lambda>h.
     ret_dec \<lparr>node_index = i, node_hash = h, node_length = l\<rparr>)))"

lemmas ref_run = reads_def bind_dec_def ret_dec_def u64_reads [THEN reads_run]

lemma node_ok: "length (node_hash n) = 32 \<Longrightarrow> reads node_dec (node_img n) n" "progress_dec node_dec"
  unfolding node_dec_def node_img_def
  by (simp add: ref_run ref_take_def)
    (intro dec_intro u64_progress u64_progress [THEN progress_suffix] ref_take_suffix)

lemma nodes_reads: "nodes_ok ns \<Longrightarrow> vec_dec node_dec (vec_img node_img ns @ rest) = Ok (ns, rest)"
  by (intro reads_run vec_reads node_ok) (auto simp: nodes_ok_def list_all_iff)

lemma bytes_reads: "vec_fits b \<Longrightarrow> vec_dec byte_dec (vec_img (\<lambda>b. [b]) b @ rest) = Ok (b, rest)"
  by (intro reads_run vec_reads byte_dec_ok)

lemmas ref_suffix = u64_progress [THEN progress_suffix] ref_take_suffix
  vec_progress [THEN progress_suffix] byte_dec_ok(2) node_ok(2) [THEN progress_suffix]

definition rb_img :: "RequestBlock \<Rightarrow> bytes" where
  "rb_img b = u64_img (rb_index b) @ u64_img (rb_nodes b)"

definition rb_dec :: "RequestBlock decoder" where
  "rb_dec = bind_dec u64_dec (\<lambda>i. bind_dec u64_dec (\<lambda>n. ret_dec \<lparr>rb_index = i, rb_nodes = n\<rparr>))"

definition rs_dec :: "RequestSeek decoder" where
  "rs_dec = bind_dec u64_dec (\<lambda>b. ret_dec \<lparr>rs_bytes = b\<rparr>)"

definition ru_img :: "RequestUpgrade \<Rightarrow> bytes" where
  "ru_img b = u64_img (ru_start b) @ u64_img (ru_length b)"

definition ru_dec :: "RequestUpgrade decoder" where
  "ru_dec = bind_dec u64_dec (\<lambda>s. bind_dec u64_dec (\<lambda>l. ret_dec \<lparr>ru_start = s, ru_length = l\<rparr>))"

definition db_img :: "DataBlock \<Rightarrow> bytes" where
  "db_img b = u64_img (db_index b) @ vec_img (\<lambda>b. [b]) (db_value b) @ vec_img node_img (db_nodes b)"

definition db_dec :: "DataBlock decoder" where
  "db_dec = bind_dec u64_dec (\<lambda>i. bind_dec (vec_dec byte_dec) (\<lambda>v.
     bind_dec (vec_dec node_dec) (\<lambda>ns. ret_dec \<lparr>db_index = i, db_nodes = ns, db_value = v\<rparr>)))"

definition dh_img :: "DataHash \<Rightarrow> bytes" where
  "dh_img b = u64_img (dh_index b) @ vec_img node_img (dh_nodes b)"

definition dh_dec :: "DataHash decoder" where
  "dh_dec = bind_dec u64_dec (\<lambda>i. bind_dec (vec_dec node_dec) (\<lambda>ns.
     ret_dec \<lparr>dh_index = i, dh_nodes = ns\<rparr>))"

definition ds_img :: "DataSeek \<Rightarrow> bytes" where
  "ds_img b = u64_img (ds_bytes b) @ vec_img node_img (ds_nodes b)"

definition ds_dec :: "DataSeek decoder" where
  "ds_dec = bind_dec u64_dec (\<lambda>i. bind_dec (vec_dec node_dec) (\<lambda>ns.
     ret_dec \<lparr>ds_bytes = i, ds_nodes = ns\<rparr>))"

definition du_img :: "DataUpgrade \<Rightarrow> bytes" where
  "du_img b = u64_img (du_start b) @ u64_img (du_length b) @ vec_img node_img (du_nodes b) @
     vec_img node_img (du_additional_nodes b) @ vec_img (\<lambda>b. [b]) (du_signature b)"

definition du_dec :: "DataUpgrade decoder" where
  "du_dec = bind_dec u64_dec (\<lambda>s. bind_dec u64_dec (\<lambda>l. bind_dec (vec_dec node_dec) (\<lambda>ns.
     bind_dec (vec_dec node_dec) (\<lambda>as. bind_dec (vec_dec byte_dec) (\<lambda>sig.
     ret_dec \<lparr>du_start = s, du_length = l, du_nodes = ns, du_additional_nodes = as,
       du_signature = sig\<rparr>)))))"

lemmas ref_struct_defs = rb_img_def rb_dec_def rs_dec_def ru_img_def ru_dec_def db_img_def
  db_dec_def dh_img_def dh_dec_def ds_img_def ds_dec_def du_img_def du_dec_def

lemma struct_reads:
  "reads rb_dec (rb_img a) a"
  "reads rs_dec (u64_img (rs_bytes b)) b"
  "reads ru_dec (ru_img c) c"
  "DataBlock_ok d \<Longrightarrow> reads db_dec (db_img d) d"
  "DataHash_ok e \<Longrightarrow> reads dh_dec (dh_img e) e"
  "DataSeek_ok f \<Longrightarrow> reads ds_dec (ds_img f) f"
  "DataUpgrade_ok g \<Longrightarrow> reads du_dec (du_img g) g"
  by (simp_all add: ref_struct_defs ref_run nodes_reads bytes_reads DataBlock_ok_def
      DataHash_ok_def DataSeek_ok_def DataUpgrade_ok_def)

lemma struct_progress:
  "progress_dec rb_dec" "progress_dec rs_dec" "progress_dec ru_dec" "progress_dec db_dec"
  "progress_dec dh_dec" "progress_dec ds_dec" "progress_dec du_dec"
  unfolding ref_struct_defs by (intro dec_intro u64_progress ref_suffix)+

section \<open>The instance\<close>

definition ref_write :: "bytes \<Rightarrow> encoder" where
  "ref_write w buf =
     (if length w \<le> length buf then Ok (w, drop (length w) buf)
      else Err (LibEncodingError ''out of bounds''))"

definition ref_to_encoded_bytes ::
  "(encoding_error, nat) outcome \<Rightarrow> encoder \<Rightarrow> (encoding_error, bytes) outcome"
where
  "ref_to_encoded_bytes sz e =
     and_then sz (\<lambda>n. and_then (e (replicate n 0)) (\<lambda>(w, rest). Ok (w @ rest)))"

definition ref_compact :: compact where
  "ref_compact =
     \<lparr>c_u64 = mk_codec u64_img u64_dec,
      c_string = mk_codec string_img string_dec,
      c_bytes = mk_codec (vec_img (\<lambda>b. [b])) (vec_dec byte_dec),
      c_u32s = mk_codec (vec_img u32_img) (vec_dec u32_dec),
      c_RequestBlock = mk_codec rb_img rb_dec,
      c_RequestSeek = mk_codec (\<lambda>b. u64_img (rs_bytes b)) rs_dec,
      c_RequestUpgrade = mk_codec ru_img ru_dec,
      c_DataBlock = mk_codec db_img db_dec,
      c_DataHash = mk_codec dh_img dh_dec,
      c_DataSeek = mk_codec ds_img ds_dec,
      c_DataUpgrade = mk_codec du_img du_dec,
      decode_usize = usize_dec,
      take_array = ref_take,
      take_array_mut = ref_take,
      write_array = ref_write,
      write_slice = ref_write,
      to_encoded_bytes = ref_to_encoded_bytes\<rparr>"

lemma ref_codecs_ok:
  "codec_ok (\<lambda>_. True) (mk_codec u64_img u64_dec)"
  "codec_ok (\<lambda>s. utf8 s \<and> vec_fits s) (mk_codec string_img string_dec)"
  "codec_ok vec_fits (mk_codec (vec_img (\<lambda>b. [b])) (vec_dec byte_dec))"
  "codec_ok vec_fits (mk_codec (vec_img u32_img) (vec_dec u32_dec))"
  by (intro mk_codec_ok u64_reads u64_progress string_reads string_progress vec_reads
      vec_progress byte_dec_ok u32_ok; assumption)+

lemma ref_structs_ok:
  "codec_ok (\<lambda>_. True) (mk_codec rb_img rb_dec)"
  "codec_ok (\<lambda>_. True) (mk_codec (\<lambda>b. u64_img (rs_bytes b)) rs_dec)"
  "codec_ok (\<lambda>_. True) (mk_codec ru_img ru_dec)"
  "codec_ok DataBlock_ok (mk_codec db_img db_dec)"
  "codec_ok DataHash_ok (mk_codec dh_img dh_dec)"
  "codec_ok DataSeek_ok (mk_codec ds_img ds_dec)"
  "codec_ok DataUpgrade_ok (mk_codec du_img du_dec)"
  by (intro mk_codec_ok struct_reads struct_progress; assumption)+

lemma u64_img_format:
  "x < 253 \<Longrightarrow> u64_img x = [ucast x]"
  "253 \<le> x \<Longrightarrow> \<exists>b bs. u64_img x = b # bs \<and> 253 \<le> b"
  by (auto simp: u64_img_def word_less_nat_alt word_le_nat_alt)

lemma ref_uint_format: "uint_format ref_compact"
  using u64_img_format(2) by (simp add: uint_format_def ref_compact_def u64_img_format(1) usize_dec_ok)

lemma ref_slice_ops_ok: "slice_ops_ok ref_compact"
  by (auto simp: slice_ops_ok_def ref_compact_def ref_take_def ref_write_def writes_def)

lemma ref_to_bytes_ok: "to_bytes_ok ref_compact"
  by (simp add: to_bytes_ok_def ref_compact_def ref_to_encoded_bytes_def)

lemma ref_compact_ok: "compact_ok ref_compact"
  using ref_uint_format ref_slice_ops_ok ref_to_bytes_ok ref_codecs_ok ref_structs_ok
  by (simp add: compact_ok_def ref_compact_def)

interpretation ref: compact_lib ref_compact
  by unfold_locales (rule ref_compact_ok)

end
