(* ===== verification/Schema.thy ===== *)
theory Schema
  imports Compact Reference_Codec
begin

unbundle bit_operations_syntax

text \<open>
  \<open>src/schema.rs\<close>: the payload structures of the wire messages and their three
  \<open>CompactEncoding\<close> methods. For every structure \<open>X\<close>: the record \<open>X\<close>, \<open>X_encoded_size\<close>,
  \<open>X_encode\<close>, \<open>X_decode\<close>, the predicate \<open>X_ok\<close> (its vectors fit in memory, its strings are
  UTF-8, its node hashes are 32 bytes), the image \<open>X_wire\<close> that specifies the format, and the
  instance of the contract \<open>wire_codec\<close>. \<open>Open\<close> is the exception: its decoder looks at
  whether anything is left in the frame, so its laws are about a whole frame.
\<close>

section \<open>Optional fields\<close>

definition opt_encoded_size ::
  "('a \<Rightarrow> (encoding_error, nat) outcome) \<Rightarrow> 'a option \<Rightarrow> (encoding_error, nat) outcome"
where
  "opt_encoded_size f opt = (case opt of None \<Rightarrow> Ok 0 | Some thing \<Rightarrow> f thing)"

definition opt_encoded_bytes :: "('a \<Rightarrow> encoder) \<Rightarrow> 'a option \<Rightarrow> encoder" where
  "opt_encoded_bytes f opt = (case opt of Some thing \<Rightarrow> f thing | None \<Rightarrow> skip_enc)"

definition maybe_decode :: "bool \<Rightarrow> 'a decoder \<Rightarrow> 'a option decoder" where
  "maybe_decode cond d =
     (if cond then bind_dec d (\<lambda>result. ret_dec (Some result)) else ret_dec None)"

definition opt_wire :: "('a \<Rightarrow> bytes) \<Rightarrow> 'a option \<Rightarrow> bytes" where
  "opt_wire f opt = (case opt of None \<Rightarrow> [] | Some x \<Rightarrow> f x)"

context wire_codec
begin

lemma opt_size_of: "pred_option valid opt \<Longrightarrow> opt_encoded_size size_of opt = Ok (length (opt_wire image opt))"
  by (cases opt) (simp_all add: opt_encoded_size_def opt_wire_def size_of_image)

lemma opt_writes:
  "pred_option valid opt \<Longrightarrow> writes (opt_encoded_bytes enc opt) (opt_wire image opt)"
  by (cases opt) (simp_all add: opt_encoded_bytes_def opt_wire_def writes_skip enc_writes)

lemma maybe_dec_image:
  "pred_option valid opt \<Longrightarrow> cond = (opt \<noteq> None) \<Longrightarrow>
   maybe_decode cond dec (opt_wire image opt @ rest) = Ok (opt, rest)"
  by (cases opt) (simp_all add: maybe_decode_def opt_wire_def ret_dec_def bind_dec_def dec_image)

end

lemma maybe_decode_suffix [dec_intro]: "progress_dec d \<Longrightarrow> suffix_dec (maybe_decode cond d)"
  unfolding maybe_decode_def by (intro dec_intro progress_suffix)

section \<open>Open\<close>

record Open =
  open_channel :: u64
  open_protocol :: string
  open_discovery_key :: bytes
  open_capability :: "bytes option"

definition Open_encoded_size :: "compact \<Rightarrow> Open \<Rightarrow> (encoding_error, nat) outcome" where
  "Open_encoded_size C m =
     and_then
       (add_size (encoded_size (c_u64 C) (open_channel m))
         (add_size (encoded_size (c_string C) (open_protocol m))
           (encoded_size (c_bytes C) (open_discovery_key m))))
       (\<lambda>out. if open_capability m \<noteq> None then Ok (out + 1 + 32) else Ok out)"

definition Open_encode :: "compact \<Rightarrow> Open \<Rightarrow> encoder" where
  "Open_encode C m =
     then_enc (encode (c_u64 C) (open_channel m))
     (then_enc (encode (c_string C) (open_protocol m))
     (then_enc (encode (c_bytes C) (open_discovery_key m))
       (case open_capability m of
          Some cap \<Rightarrow> then_enc (take_array_mut C 1) (write_slice C cap)
        | None \<Rightarrow> skip_enc)))"

definition Open_decode :: "compact \<Rightarrow> Open decoder" where
  "Open_decode C =
     bind_dec (decode (c_u64 C)) (\<lambda>channel.
     bind_dec (decode (c_string C)) (\<lambda>protocol.
     bind_dec (decode (c_bytes C)) (\<lambda>discovery_key.
     bind_dec
       (\<lambda>rest. if rest \<noteq> [] then
            bind_dec (take_array C 1) (\<lambda>_.
            bind_dec (take_array C 32) (\<lambda>capability. ret_dec (Some capability))) rest
          else ret_dec None rest) (\<lambda>capability.
     ret_dec \<lparr>open_channel = channel, open_protocol = protocol,
       open_discovery_key = discovery_key, open_capability = capability\<rparr>))))"

definition Open_ok :: "Open \<Rightarrow> bool" where
  "Open_ok m \<longleftrightarrow> utf8 (open_protocol m) \<and> vec_fits (open_protocol m) \<and>
     vec_fits (open_discovery_key m) \<and> pred_option (\<lambda>c. length c = 32) (open_capability m)"

text \<open>The flags byte before the capability is skipped, never written: it keeps what the buffer
  held, 0 in the buffers of \<open>to_encoded_bytes\<close>.\<close>

definition Open_wire :: "compact \<Rightarrow> Open \<Rightarrow> bytes" where
  "Open_wire C m =
     wire_of (c_u64 C) (open_channel m) @ wire_of (c_string C) (open_protocol m) @
     wire_of (c_bytes C) (open_discovery_key m) @
     (case open_capability m of None \<Rightarrow> [] | Some cap \<Rightarrow> 0 # cap)"

section \<open>Close\<close>

record Close =
  close_channel :: u64

definition Close_encoded_size :: "compact \<Rightarrow> Close \<Rightarrow> (encoding_error, nat) outcome" where
  "Close_encoded_size C m = encoded_size (c_u64 C) (close_channel m)"

definition Close_encode :: "compact \<Rightarrow> Close \<Rightarrow> encoder" where
  "Close_encode C m = encode (c_u64 C) (close_channel m)"

definition Close_decode :: "compact \<Rightarrow> Close decoder" where
  "Close_decode C =
     bind_dec (decode (c_u64 C)) (\<lambda>channel. ret_dec \<lparr>close_channel = channel\<rparr>)"

definition Close_wire :: "compact \<Rightarrow> Close \<Rightarrow> bytes" where
  "Close_wire C m = wire_of (c_u64 C) (close_channel m)"

section \<open>Synchronize\<close>

record Synchronize =
  sync_fork :: u64
  sync_length :: u64
  sync_remote_length :: u64
  sync_downloading :: bool
  sync_uploading :: bool
  sync_can_upgrade :: bool

definition Synchronize_encoded_size ::
  "compact \<Rightarrow> Synchronize \<Rightarrow> (encoding_error, nat) outcome"
where
  "Synchronize_encoded_size C m =
     add_size (Ok 1)
       (add_size (encoded_size (c_u64 C) (sync_fork m))
         (add_size (encoded_size (c_u64 C) (sync_length m))
           (encoded_size (c_u64 C) (sync_remote_length m))))"

definition sync_flags :: "Synchronize \<Rightarrow> u8" where
  "sync_flags m =
     (if sync_can_upgrade m then 1 else 0) OR (if sync_uploading m then 2 else 0)
     OR (if sync_downloading m then 4 else 0)"

definition Synchronize_encode :: "compact \<Rightarrow> Synchronize \<Rightarrow> encoder" where
  "Synchronize_encode C m =
     then_enc (write_array C [sync_flags m])
     (then_enc (encode (c_u64 C) (sync_fork m))
     (then_enc (encode (c_u64 C) (sync_length m))
       (encode (c_u64 C) (sync_remote_length m))))"

definition Synchronize_decode :: "compact \<Rightarrow> Synchronize decoder" where
  "Synchronize_decode C =
     bind_dec (take_array C 1) (\<lambda>a. let flags = hd a in
     bind_dec (decode (c_u64 C)) (\<lambda>fork.
     bind_dec (decode (c_u64 C)) (\<lambda>length.
     bind_dec (decode (c_u64 C)) (\<lambda>remote_length.
     ret_dec \<lparr>sync_fork = fork, sync_length = length, sync_remote_length = remote_length,
       sync_downloading = (flags AND 4 \<noteq> 0), sync_uploading = (flags AND 2 \<noteq> 0),
       sync_can_upgrade = (flags AND 1 \<noteq> 0)\<rparr>))))"

definition Synchronize_wire :: "compact \<Rightarrow> Synchronize \<Rightarrow> bytes" where
  "Synchronize_wire C m =
     [sync_flags m] @ wire_of (c_u64 C) (sync_fork m) @ wire_of (c_u64 C) (sync_length m) @
     wire_of (c_u64 C) (sync_remote_length m)"

section \<open>Request\<close>

record Request =
  req_id :: u64
  req_fork :: u64
  req_block :: "RequestBlock option"
  req_hash :: "RequestBlock option"
  req_seek :: "RequestSeek option"
  req_upgrade :: "RequestUpgrade option"
  req_manifest :: bool
  req_priority :: u64

definition Request_encoded_size :: "compact \<Rightarrow> Request \<Rightarrow> (encoding_error, nat) outcome" where
  "Request_encoded_size C m =
     add_size (Ok 1)
     (add_size (encoded_size (c_u64 C) (req_id m))
     (add_size (encoded_size (c_u64 C) (req_fork m))
     (add_size (opt_encoded_size (encoded_size (c_RequestBlock C)) (req_block m))
     (add_size (opt_encoded_size (encoded_size (c_RequestBlock C)) (req_hash m))
     (add_size (opt_encoded_size (encoded_size (c_RequestSeek C)) (req_seek m))
     (add_size (opt_encoded_size (encoded_size (c_RequestUpgrade C)) (req_upgrade m))
       (if req_priority m \<noteq> 0 then encoded_size (c_u64 C) (req_priority m) else Ok 0)))))))"

definition req_flags :: "Request \<Rightarrow> u8" where
  "req_flags m =
     (if req_block m \<noteq> None then 1 else 0) OR (if req_hash m \<noteq> None then 2 else 0)
     OR (if req_seek m \<noteq> None then 4 else 0) OR (if req_upgrade m \<noteq> None then 8 else 0)
     OR (if req_manifest m then 16 else 0) OR (if req_priority m \<noteq> 0 then 32 else 0)"

definition Request_encode :: "compact \<Rightarrow> Request \<Rightarrow> encoder" where
  "Request_encode C m =
     then_enc (write_array C [req_flags m])
     (then_enc (encode (c_u64 C) (req_id m))
     (then_enc (encode (c_u64 C) (req_fork m))
     (then_enc (opt_encoded_bytes (encode (c_RequestBlock C)) (req_block m))
     (then_enc (opt_encoded_bytes (encode (c_RequestBlock C)) (req_hash m))
     (then_enc (opt_encoded_bytes (encode (c_RequestSeek C)) (req_seek m))
     (then_enc (opt_encoded_bytes (encode (c_RequestUpgrade C)) (req_upgrade m))
       (if req_priority m \<noteq> 0 then encode (c_u64 C) (req_priority m) else skip_enc)))))))"

definition Request_decode :: "compact \<Rightarrow> Request decoder" where
  "Request_decode C =
     bind_dec (take_array C 1) (\<lambda>a. let flags = hd a in
     bind_dec (decode (c_u64 C)) (\<lambda>i.
     bind_dec (decode (c_u64 C)) (\<lambda>fork.
     bind_dec (maybe_decode (flags AND 1 \<noteq> 0) (decode (c_RequestBlock C))) (\<lambda>block.
     bind_dec (maybe_decode (flags AND 2 \<noteq> 0) (decode (c_RequestBlock C))) (\<lambda>hash.
     bind_dec (maybe_decode (flags AND 4 \<noteq> 0) (decode (c_RequestSeek C))) (\<lambda>seek.
     bind_dec (maybe_decode (flags AND 8 \<noteq> 0) (decode (c_RequestUpgrade C))) (\<lambda>upgrade.
     bind_dec (if flags AND 32 \<noteq> 0 then decode (c_u64 C) else ret_dec 0) (\<lambda>priority.
     ret_dec \<lparr>req_id = i, req_fork = fork, req_block = block, req_hash = hash,
       req_seek = seek, req_upgrade = upgrade, req_manifest = (flags AND 16 \<noteq> 0),
       req_priority = priority\<rparr>))))))))"

definition Request_wire :: "compact \<Rightarrow> Request \<Rightarrow> bytes" where
  "Request_wire C m =
     [req_flags m] @ wire_of (c_u64 C) (req_id m) @ wire_of (c_u64 C) (req_fork m) @
     opt_wire (wire_of (c_RequestBlock C)) (req_block m) @
     opt_wire (wire_of (c_RequestBlock C)) (req_hash m) @
     opt_wire (wire_of (c_RequestSeek C)) (req_seek m) @
     opt_wire (wire_of (c_RequestUpgrade C)) (req_upgrade m) @
     (if req_priority m \<noteq> 0 then wire_of (c_u64 C) (req_priority m) else [])"

section \<open>Cancel, NoData\<close>

record Cancel =
  cancel_request :: u64

definition Cancel_encoded_size :: "compact \<Rightarrow> Cancel \<Rightarrow> (encoding_error, nat) outcome" where
  "Cancel_encoded_size C m = encoded_size (c_u64 C) (cancel_request m)"

definition Cancel_encode :: "compact \<Rightarrow> Cancel \<Rightarrow> encoder" where
  "Cancel_encode C m = encode (c_u64 C) (cancel_request m)"

definition Cancel_decode :: "compact \<Rightarrow> Cancel decoder" where
  "Cancel_decode C =
     bind_dec (decode (c_u64 C)) (\<lambda>request. ret_dec \<lparr>cancel_request = request\<rparr>)"

definition Cancel_wire :: "compact \<Rightarrow> Cancel \<Rightarrow> bytes" where
  "Cancel_wire C m = wire_of (c_u64 C) (cancel_request m)"

record NoData =
  nodata_request :: u64

definition NoData_encoded_size :: "compact \<Rightarrow> NoData \<Rightarrow> (encoding_error, nat) outcome" where
  "NoData_encoded_size C m = encoded_size (c_u64 C) (nodata_request m)"

definition NoData_encode :: "compact \<Rightarrow> NoData \<Rightarrow> encoder" where
  "NoData_encode C m = encode (c_u64 C) (nodata_request m)"

definition NoData_decode :: "compact \<Rightarrow> NoData decoder" where
  "NoData_decode C =
     bind_dec (decode (c_u64 C)) (\<lambda>request. ret_dec \<lparr>nodata_request = request\<rparr>)"

definition NoData_wire :: "compact \<Rightarrow> NoData \<Rightarrow> bytes" where
  "NoData_wire C m = wire_of (c_u64 C) (nodata_request m)"

section \<open>Data\<close>

record Data =
  data_request :: u64
  data_fork :: u64
  data_block :: "DataBlock option"
  data_hash :: "DataHash option"
  data_seek :: "DataSeek option"
  data_upgrade :: "DataUpgrade option"

definition Data_encoded_size :: "compact \<Rightarrow> Data \<Rightarrow> (encoding_error, nat) outcome" where
  "Data_encoded_size C m =
     add_size (Ok 1)
     (add_size (encoded_size (c_u64 C) (data_request m))
     (add_size (encoded_size (c_u64 C) (data_fork m))
     (add_size (opt_encoded_size (encoded_size (c_DataBlock C)) (data_block m))
     (add_size (opt_encoded_size (encoded_size (c_DataHash C)) (data_hash m))
     (add_size (opt_encoded_size (encoded_size (c_DataSeek C)) (data_seek m))
       (opt_encoded_size (encoded_size (c_DataUpgrade C)) (data_upgrade m)))))))"

definition data_flags :: "Data \<Rightarrow> u8" where
  "data_flags m =
     (if data_block m \<noteq> None then 1 else 0) OR (if data_hash m \<noteq> None then 2 else 0)
     OR (if data_seek m \<noteq> None then 4 else 0) OR (if data_upgrade m \<noteq> None then 8 else 0)"

definition Data_encode :: "compact \<Rightarrow> Data \<Rightarrow> encoder" where
  "Data_encode C m =
     then_enc (write_array C [data_flags m])
     (then_enc (encode (c_u64 C) (data_request m))
     (then_enc (encode (c_u64 C) (data_fork m))
     (then_enc (opt_encoded_bytes (encode (c_DataBlock C)) (data_block m))
     (then_enc (opt_encoded_bytes (encode (c_DataHash C)) (data_hash m))
     (then_enc (opt_encoded_bytes (encode (c_DataSeek C)) (data_seek m))
       (opt_encoded_bytes (encode (c_DataUpgrade C)) (data_upgrade m)))))))"

definition Data_decode :: "compact \<Rightarrow> Data decoder" where
  "Data_decode C =
     bind_dec (take_array C 1) (\<lambda>a. let flags = hd a in
     bind_dec (decode (c_u64 C)) (\<lambda>request.
     bind_dec (decode (c_u64 C)) (\<lambda>fork.
     bind_dec (maybe_decode (flags AND 1 \<noteq> 0) (decode (c_DataBlock C))) (\<lambda>block.
     bind_dec (maybe_decode (flags AND 2 \<noteq> 0) (decode (c_DataHash C))) (\<lambda>hash.
     bind_dec (maybe_decode (flags AND 4 \<noteq> 0) (decode (c_DataSeek C))) (\<lambda>seek.
     bind_dec (maybe_decode (flags AND 8 \<noteq> 0) (decode (c_DataUpgrade C))) (\<lambda>upgrade.
     ret_dec \<lparr>data_request = request, data_fork = fork, data_block = block,
       data_hash = hash, data_seek = seek, data_upgrade = upgrade\<rparr>)))))))"

definition Data_ok :: "Data \<Rightarrow> bool" where
  "Data_ok m \<longleftrightarrow>
     pred_option DataBlock_ok (data_block m) \<and> pred_option DataHash_ok (data_hash m) \<and>
     pred_option DataSeek_ok (data_seek m) \<and> pred_option DataUpgrade_ok (data_upgrade m)"

definition Data_wire :: "compact \<Rightarrow> Data \<Rightarrow> bytes" where
  "Data_wire C m =
     [data_flags m] @ wire_of (c_u64 C) (data_request m) @ wire_of (c_u64 C) (data_fork m) @
     opt_wire (wire_of (c_DataBlock C)) (data_block m) @
     opt_wire (wire_of (c_DataHash C)) (data_hash m) @
     opt_wire (wire_of (c_DataSeek C)) (data_seek m) @
     opt_wire (wire_of (c_DataUpgrade C)) (data_upgrade m)"

record Proof =
  proof_fork :: u64
  proof_block :: "DataBlock option"
  proof_hash :: "DataHash option"
  proof_seek :: "DataSeek option"
  proof_upgrade :: "DataUpgrade option"

definition into_proof :: "Data \<Rightarrow> Proof" where
  "into_proof m =
     \<lparr>proof_fork = data_fork m, proof_block = data_block m, proof_hash = data_hash m,
      proof_seek = data_seek m, proof_upgrade = data_upgrade m\<rparr>"

section \<open>Want, Unwant\<close>

record Want =
  want_start :: u64
  want_length :: u64

definition Want_encoded_size :: "compact \<Rightarrow> Want \<Rightarrow> (encoding_error, nat) outcome" where
  "Want_encoded_size C m =
     add_size (encoded_size (c_u64 C) (want_start m)) (encoded_size (c_u64 C) (want_length m))"

definition Want_encode :: "compact \<Rightarrow> Want \<Rightarrow> encoder" where
  "Want_encode C m =
     then_enc (encode (c_u64 C) (want_start m)) (encode (c_u64 C) (want_length m))"

definition Want_decode :: "compact \<Rightarrow> Want decoder" where
  "Want_decode C =
     bind_dec (decode (c_u64 C)) (\<lambda>start.
     bind_dec (decode (c_u64 C)) (\<lambda>length.
     ret_dec \<lparr>want_start = start, want_length = length\<rparr>))"

definition Want_wire :: "compact \<Rightarrow> Want \<Rightarrow> bytes" where
  "Want_wire C m = wire_of (c_u64 C) (want_start m) @ wire_of (c_u64 C) (want_length m)"

record Unwant =
  unwant_start :: u64
  unwant_length :: u64

definition Unwant_encoded_size :: "compact \<Rightarrow> Unwant \<Rightarrow> (encoding_error, nat) outcome" where
  "Unwant_encoded_size C m =
     add_size (encoded_size (c_u64 C) (unwant_start m))
       (encoded_size (c_u64 C) (unwant_length m))"

definition Unwant_encode :: "compact \<Rightarrow> Unwant \<Rightarrow> encoder" where
  "Unwant_encode C m =
     then_enc (encode (c_u64 C) (unwant_start m)) (encode (c_u64 C) (unwant_length m))"

definition Unwant_decode :: "compact \<Rightarrow> Unwant decoder" where
  "Unwant_decode C =
     bind_dec (decode (c_u64 C)) (\<lambda>start.
     bind_dec (decode (c_u64 C)) (\<lambda>length.
     ret_dec \<lparr>unwant_start = start, unwant_length = length\<rparr>))"

definition Unwant_wire :: "compact \<Rightarrow> Unwant \<Rightarrow> bytes" where
  "Unwant_wire C m = wire_of (c_u64 C) (unwant_start m) @ wire_of (c_u64 C) (unwant_length m)"

section \<open>Bitfield\<close>

record Bitfield =
  bitfield_start :: u64
  bitfield_bits :: "u32 list"

definition Bitfield_encoded_size :: "compact \<Rightarrow> Bitfield \<Rightarrow> (encoding_error, nat) outcome" where
  "Bitfield_encoded_size C m =
     add_size (encoded_size (c_u64 C) (bitfield_start m))
       (encoded_size (c_u32s C) (bitfield_bits m))"

definition Bitfield_encode :: "compact \<Rightarrow> Bitfield \<Rightarrow> encoder" where
  "Bitfield_encode C m =
     then_enc (encode (c_u64 C) (bitfield_start m)) (encode (c_u32s C) (bitfield_bits m))"

definition Bitfield_decode :: "compact \<Rightarrow> Bitfield decoder" where
  "Bitfield_decode C =
     bind_dec (decode (c_u64 C)) (\<lambda>start.
     bind_dec (decode (c_u32s C)) (\<lambda>bitfield.
     ret_dec \<lparr>bitfield_start = start, bitfield_bits = bitfield\<rparr>))"

definition Bitfield_ok :: "Bitfield \<Rightarrow> bool" where
  "Bitfield_ok m \<longleftrightarrow> vec_fits (bitfield_bits m)"

definition Bitfield_wire :: "compact \<Rightarrow> Bitfield \<Rightarrow> bytes" where
  "Bitfield_wire C m =
     wire_of (c_u64 C) (bitfield_start m) @ wire_of (c_u32s C) (bitfield_bits m)"

section \<open>Range\<close>

record Range =
  range_drop :: bool
  range_start :: u64
  range_length :: u64

definition Range_encoded_size :: "compact \<Rightarrow> Range \<Rightarrow> (encoding_error, nat) outcome" where
  "Range_encoded_size C m =
     add_size (add_size (Ok 1) (encoded_size (c_u64 C) (range_start m)))
       (if range_length m \<noteq> 1 then encoded_size (c_u64 C) (range_length m) else Ok 0)"

definition range_flags :: "Range \<Rightarrow> u8" where
  "range_flags m =
     (if range_drop m then 1 else 0) OR (if range_length m = 1 then 2 else 0)"

definition Range_encode :: "compact \<Rightarrow> Range \<Rightarrow> encoder" where
  "Range_encode C m =
     then_enc (write_array C [range_flags m])
     (then_enc (encode (c_u64 C) (range_start m))
       (if range_length m \<noteq> 1 then encode (c_u64 C) (range_length m) else skip_enc))"

definition Range_decode :: "compact \<Rightarrow> Range decoder" where
  "Range_decode C =
     bind_dec (take_array C 1) (\<lambda>a. let flags = hd a in
     bind_dec (decode (c_u64 C)) (\<lambda>start.
     bind_dec (if flags AND 2 \<noteq> 0 then ret_dec 1 else decode (c_u64 C)) (\<lambda>length.
     ret_dec \<lparr>range_drop = (flags AND 1 \<noteq> 0), range_start = start,
       range_length = length\<rparr>)))"

definition Range_wire :: "compact \<Rightarrow> Range \<Rightarrow> bytes" where
  "Range_wire C m =
     [range_flags m] @ wire_of (c_u64 C) (range_start m) @
     (if range_length m \<noteq> 1 then wire_of (c_u64 C) (range_length m) else [])"

section \<open>Extension\<close>

record Extension =
  ext_name :: string
  ext_message :: bytes

definition Extension_encoded_size ::
  "compact \<Rightarrow> Extension \<Rightarrow> (encoding_error, nat) outcome"
where
  "Extension_encoded_size C m =
     add_size (encoded_size (c_string C) (ext_name m)) (encoded_size (c_bytes C) (ext_message m))"

definition Extension_encode :: "compact \<Rightarrow> Extension \<Rightarrow> encoder" where
  "Extension_encode C m =
     then_enc (encode (c_string C) (ext_name m)) (encode (c_bytes C) (ext_message m))"

definition Extension_decode :: "compact \<Rightarrow> Extension decoder" where
  "Extension_decode C =
     bind_dec (decode (c_string C)) (\<lambda>name.
     bind_dec (decode (c_bytes C)) (\<lambda>message.
     ret_dec \<lparr>ext_name = name, ext_message = message\<rparr>))"

definition Extension_ok :: "Extension \<Rightarrow> bool" where
  "Extension_ok m \<longleftrightarrow> utf8 (ext_name m) \<and> vec_fits (ext_name m) \<and> vec_fits (ext_message m)"

definition Extension_wire :: "compact \<Rightarrow> Extension \<Rightarrow> bytes" where
  "Extension_wire C m = wire_of (c_string C) (ext_name m) @ wire_of (c_bytes C) (ext_message m)"

section \<open>The contract for every structure\<close>

lemmas schema_defs =
  Close_encoded_size_def Close_encode_def Close_decode_def Close_wire_def
  Synchronize_encoded_size_def Synchronize_encode_def Synchronize_decode_def
  Synchronize_wire_def
  Request_encoded_size_def Request_encode_def Request_decode_def Request_wire_def
  Cancel_encoded_size_def Cancel_encode_def Cancel_decode_def Cancel_wire_def
  NoData_encoded_size_def NoData_encode_def NoData_decode_def NoData_wire_def
  Data_encoded_size_def Data_encode_def Data_decode_def Data_wire_def
  Want_encoded_size_def Want_encode_def Want_decode_def Want_wire_def
  Unwant_encoded_size_def Unwant_encode_def Unwant_decode_def Unwant_wire_def
  Bitfield_encoded_size_def Bitfield_encode_def Bitfield_decode_def Bitfield_wire_def
  Range_encoded_size_def Range_encode_def Range_decode_def Range_wire_def
  Extension_encoded_size_def Extension_encode_def Extension_decode_def Extension_wire_def

text \<open>Each flag of a flags byte is read back as it was set.\<close>

lemma sync_flags_bits:
  "sync_flags m AND 1 \<noteq> 0 \<longleftrightarrow> sync_can_upgrade m"
  "sync_flags m AND 2 \<noteq> 0 \<longleftrightarrow> sync_uploading m"
  "sync_flags m AND 4 \<noteq> 0 \<longleftrightarrow> sync_downloading m"
  by (simp_all add: sync_flags_def)

lemma req_flags_bits:
  "req_flags m AND 1 \<noteq> 0 \<longleftrightarrow> req_block m \<noteq> None"
  "req_flags m AND 2 \<noteq> 0 \<longleftrightarrow> req_hash m \<noteq> None"
  "req_flags m AND 4 \<noteq> 0 \<longleftrightarrow> req_seek m \<noteq> None"
  "req_flags m AND 8 \<noteq> 0 \<longleftrightarrow> req_upgrade m \<noteq> None"
  "req_flags m AND 16 \<noteq> 0 \<longleftrightarrow> req_manifest m"
  "req_flags m AND 32 \<noteq> 0 \<longleftrightarrow> req_priority m \<noteq> 0"
  by (simp_all add: req_flags_def)

lemma data_flags_bits:
  "data_flags m AND 1 \<noteq> 0 \<longleftrightarrow> data_block m \<noteq> None"
  "data_flags m AND 2 \<noteq> 0 \<longleftrightarrow> data_hash m \<noteq> None"
  "data_flags m AND 4 \<noteq> 0 \<longleftrightarrow> data_seek m \<noteq> None"
  "data_flags m AND 8 \<noteq> 0 \<longleftrightarrow> data_upgrade m \<noteq> None"
  by (simp_all add: data_flags_def)

lemma range_flags_bits:
  "range_flags m AND 1 \<noteq> 0 \<longleftrightarrow> range_drop m"
  "range_flags m AND 2 \<noteq> 0 \<longleftrightarrow> range_length m = 1"
  by (simp_all add: range_flags_def)

context compact_lib
begin

lemmas opt_sizes = RB.opt_size_of RS.opt_size_of RU.opt_size_of DB.opt_size_of DH.opt_size_of
  DS.opt_size_of DU.opt_size_of

lemmas opt_lib_writes [writes_intro] = RB.opt_writes RS.opt_writes RU.opt_writes DB.opt_writes
  DH.opt_writes DS.opt_writes DU.opt_writes

lemmas dec_run = reads_def bind_dec_def ret_dec_def Let_def take_array_enough lib_dec
  RB.maybe_dec_image RS.maybe_dec_image RU.maybe_dec_image DB.maybe_dec_image
  DH.maybe_dec_image DS.maybe_dec_image DU.maybe_dec_image

end

sublocale compact_lib \<subseteq>
  Close: wire_codec "\<lambda>_. True" "Close_encoded_size C" "Close_encode C" "Close_decode C" "Close_wire C"
proof
  fix m :: Close
  show "Close_encoded_size C m = Ok (length (Close_wire C m))"
    by (simp add: schema_defs lib_sizes opt_sizes option.pred_True)
  show "writes (Close_encode C m) (Close_wire C m)"
    unfolding schema_defs by ((intro writes_intro)?; simp add: option.pred_True)
  show "reads (Close_decode C) (Close_wire C m) m"
    by (simp add: schema_defs dec_run option.pred_True)
next
  show "progress_dec (Close_decode C)"
    unfolding schema_defs Let_def by ((intro dec_intro)?; simp)
qed

sublocale compact_lib \<subseteq>
  Synchronize: wire_codec "\<lambda>_. True" "Synchronize_encoded_size C" "Synchronize_encode C" "Synchronize_decode C" "Synchronize_wire C"
proof
  fix m :: Synchronize
  show "Synchronize_encoded_size C m = Ok (length (Synchronize_wire C m))"
    by (simp add: schema_defs lib_sizes opt_sizes option.pred_True)
  show "writes (Synchronize_encode C m) (Synchronize_wire C m)"
    unfolding schema_defs by ((intro writes_intro)?; simp add: option.pred_True)
  show "reads (Synchronize_decode C) (Synchronize_wire C m) m"
    by (simp add: schema_defs dec_run option.pred_True sync_flags_bits)
next
  show "progress_dec (Synchronize_decode C)"
    unfolding schema_defs Let_def by ((intro dec_intro)?; simp)
qed

sublocale compact_lib \<subseteq>
  Request: wire_codec "\<lambda>_. True" "Request_encoded_size C" "Request_encode C" "Request_decode C" "Request_wire C"
proof
  fix m :: Request
  show "Request_encoded_size C m = Ok (length (Request_wire C m))"
    by (simp add: schema_defs lib_sizes opt_sizes option.pred_True)
  show "writes (Request_encode C m) (Request_wire C m)"
    unfolding schema_defs by ((intro writes_intro)?; simp add: option.pred_True)
  show "reads (Request_decode C) (Request_wire C m) m"
    by (simp add: schema_defs dec_run option.pred_True req_flags_bits)
next
  show "progress_dec (Request_decode C)"
    unfolding schema_defs Let_def by ((intro dec_intro)?; simp)
qed

sublocale compact_lib \<subseteq>
  Cancel: wire_codec "\<lambda>_. True" "Cancel_encoded_size C" "Cancel_encode C" "Cancel_decode C" "Cancel_wire C"
proof
  fix m :: Cancel
  show "Cancel_encoded_size C m = Ok (length (Cancel_wire C m))"
    by (simp add: schema_defs lib_sizes opt_sizes option.pred_True)
  show "writes (Cancel_encode C m) (Cancel_wire C m)"
    unfolding schema_defs by ((intro writes_intro)?; simp add: option.pred_True)
  show "reads (Cancel_decode C) (Cancel_wire C m) m"
    by (simp add: schema_defs dec_run option.pred_True)
next
  show "progress_dec (Cancel_decode C)"
    unfolding schema_defs Let_def by ((intro dec_intro)?; simp)
qed

sublocale compact_lib \<subseteq>
  NoData: wire_codec "\<lambda>_. True" "NoData_encoded_size C" "NoData_encode C" "NoData_decode C" "NoData_wire C"
proof
  fix m :: NoData
  show "NoData_encoded_size C m = Ok (length (NoData_wire C m))"
    by (simp add: schema_defs lib_sizes opt_sizes option.pred_True)
  show "writes (NoData_encode C m) (NoData_wire C m)"
    unfolding schema_defs by ((intro writes_intro)?; simp add: option.pred_True)
  show "reads (NoData_decode C) (NoData_wire C m) m"
    by (simp add: schema_defs dec_run option.pred_True)
next
  show "progress_dec (NoData_decode C)"
    unfolding schema_defs Let_def by ((intro dec_intro)?; simp)
qed

sublocale compact_lib \<subseteq>
  Data: wire_codec "Data_ok" "Data_encoded_size C" "Data_encode C" "Data_decode C" "Data_wire C"
proof
  fix m :: Data
  assume ok: "Data_ok m"
  show "Data_encoded_size C m = Ok (length (Data_wire C m))"
    using ok by (simp add: schema_defs Data_ok_def lib_sizes opt_sizes option.pred_True)
  show "writes (Data_encode C m) (Data_wire C m)"
    using ok unfolding schema_defs Data_ok_def by ((intro writes_intro)?; simp add: option.pred_True)
  show "reads (Data_decode C) (Data_wire C m) m"
    using ok by (simp add: schema_defs Data_ok_def dec_run option.pred_True data_flags_bits)
next
  show "progress_dec (Data_decode C)"
    unfolding schema_defs Let_def by ((intro dec_intro)?; simp)
qed

sublocale compact_lib \<subseteq>
  Want: wire_codec "\<lambda>_. True" "Want_encoded_size C" "Want_encode C" "Want_decode C" "Want_wire C"
proof
  fix m :: Want
  show "Want_encoded_size C m = Ok (length (Want_wire C m))"
    by (simp add: schema_defs lib_sizes opt_sizes option.pred_True)
  show "writes (Want_encode C m) (Want_wire C m)"
    unfolding schema_defs by ((intro writes_intro)?; simp add: option.pred_True)
  show "reads (Want_decode C) (Want_wire C m) m"
    by (simp add: schema_defs dec_run option.pred_True)
next
  show "progress_dec (Want_decode C)"
    unfolding schema_defs Let_def by ((intro dec_intro)?; simp)
qed

sublocale compact_lib \<subseteq>
  Unwant: wire_codec "\<lambda>_. True" "Unwant_encoded_size C" "Unwant_encode C" "Unwant_decode C" "Unwant_wire C"
proof
  fix m :: Unwant
  show "Unwant_encoded_size C m = Ok (length (Unwant_wire C m))"
    by (simp add: schema_defs lib_sizes opt_sizes option.pred_True)
  show "writes (Unwant_encode C m) (Unwant_wire C m)"
    unfolding schema_defs by ((intro writes_intro)?; simp add: option.pred_True)
  show "reads (Unwant_decode C) (Unwant_wire C m) m"
    by (simp add: schema_defs dec_run option.pred_True)
next
  show "progress_dec (Unwant_decode C)"
    unfolding schema_defs Let_def by ((intro dec_intro)?; simp)
qed

sublocale compact_lib \<subseteq>
  Bitfield: wire_codec "Bitfield_ok" "Bitfield_encoded_size C" "Bitfield_encode C" "Bitfield_decode C" "Bitfield_wire C"
proof
  fix m :: Bitfield
  assume ok: "Bitfield_ok m"
  show "Bitfield_encoded_size C m = Ok (length (Bitfield_wire C m))"
    using ok by (simp add: schema_defs Bitfield_ok_def lib_sizes opt_sizes option.pred_True)
  show "writes (Bitfield_encode C m) (Bitfield_wire C m)"
    using ok unfolding schema_defs Bitfield_ok_def by ((intro writes_intro)?; simp add: option.pred_True)
  show "reads (Bitfield_decode C) (Bitfield_wire C m) m"
    using ok by (simp add: schema_defs Bitfield_ok_def dec_run option.pred_True)
next
  show "progress_dec (Bitfield_decode C)"
    unfolding schema_defs Let_def by ((intro dec_intro)?; simp)
qed

sublocale compact_lib \<subseteq>
  Range: wire_codec "\<lambda>_. True" "Range_encoded_size C" "Range_encode C" "Range_decode C" "Range_wire C"
proof
  fix m :: Range
  show "Range_encoded_size C m = Ok (length (Range_wire C m))"
    by (simp add: schema_defs lib_sizes opt_sizes option.pred_True)
  show "writes (Range_encode C m) (Range_wire C m)"
    unfolding schema_defs by ((intro writes_intro)?; simp add: option.pred_True)
  show "reads (Range_decode C) (Range_wire C m) m"
    by (simp add: schema_defs dec_run option.pred_True range_flags_bits)
next
  show "progress_dec (Range_decode C)"
    unfolding schema_defs Let_def by ((intro dec_intro)?; simp)
qed

sublocale compact_lib \<subseteq>
  Extension: wire_codec "Extension_ok" "Extension_encoded_size C" "Extension_encode C" "Extension_decode C" "Extension_wire C"
proof
  fix m :: Extension
  assume ok: "Extension_ok m"
  show "Extension_encoded_size C m = Ok (length (Extension_wire C m))"
    using ok by (simp add: schema_defs Extension_ok_def lib_sizes opt_sizes option.pred_True)
  show "writes (Extension_encode C m) (Extension_wire C m)"
    using ok unfolding schema_defs Extension_ok_def by ((intro writes_intro)?; simp add: option.pred_True)
  show "reads (Extension_decode C) (Extension_wire C m) m"
    using ok by (simp add: schema_defs Extension_ok_def dec_run option.pred_True)
next
  show "progress_dec (Extension_decode C)"
    unfolding schema_defs Let_def by ((intro dec_intro)?; simp)
qed

context compact_lib
begin

lemma Open_size: "Open_ok m \<Longrightarrow> Open_encoded_size C m = Ok (length (Open_wire C m))"
  by (cases "open_capability m")
    (simp_all add: Open_encoded_size_def Open_wire_def Open_ok_def lib_sizes)

lemma skip_flags_writes0: "writes0 (take_array_mut C 1) [0]"
  by (simp add: writes0_def take_array_mut_enough)

lemma Open_writes0:
  assumes "Open_ok m"
  shows "writes0 (Open_encode C m) (Open_wire C m)"
proof -
  have cap: "writes0 (case open_capability m of
      Some cap \<Rightarrow> then_enc (take_array_mut C 1) (write_slice C cap) | None \<Rightarrow> skip_enc)
    (case open_capability m of None \<Rightarrow> [] | Some cap \<Rightarrow> 0 # cap)"
    using writes0_then_enc [OF skip_flags_writes0 writes_writes0 [OF write_slice_writes]]
    by (cases "open_capability m") (simp_all add: writes_writes0 writes_skip)
  show ?thesis
    using assms unfolding Open_encode_def Open_wire_def Open_ok_def
    by (intro writes0_then_enc cap; intro writes_writes0 lib_writes) simp_all
qed

lemma Open_decode_frame:
  assumes "Open_ok m"
  shows "Open_decode C (Open_wire C m) = Ok (m, [])"
  using assms
  by (cases "open_capability m")
    (simp_all add: Open_decode_def Open_wire_def Open_ok_def dec_run
      lib_dec(1) lib_dec(2) lib_dec(3) lib_dec(3) [where rest = "[]", simplified])

lemma Open_progress: "progress_dec (Open_decode C)"
proof -
  have cap: "suffix_dec (\<lambda>rest. if rest \<noteq> [] then
            bind_dec (take_array C 1) (\<lambda>_.
            bind_dec (take_array C 32) (\<lambda>capability. ret_dec (Some capability))) rest
          else ret_dec None rest)" (is "suffix_dec (\<lambda>rest. if _ then ?d rest else _)")
  proof -
    have "suffix_dec ?d" by (intro dec_intro progress_suffix) simp_all
    then show ?thesis by (simp add: suffix_dec_def ret_dec_def)
  qed
  show ?thesis unfolding Open_decode_def by (intro dec_intro cap)
qed

end

end
