(* ===== verification/Messages.thy ===== *)
theory Messages
  imports Schema
begin

text \<open>
  \<open>src/message.rs\<close>: the enum \<open>Message\<close>, messages on a channel, and the encoding of a vector
  of channel messages as one frame. A frame is one of
  \<^item> \<open>[0, 1]\<close> and an \<open>Open\<close> payload, \<open>[0, 3]\<close> and a \<open>Close\<close> payload;
  \<^item> a channel number and one message;
  \<^item> \<open>[0, 0]\<close>, a channel number and a batch of length-prefixed messages.
  The two \<open>while\<close> loops of the decoder are \<open>decode_batch\<close> and \<open>vec_decode_loop\<close>, partial
  functions whose \<open>None\<close> is "does not return".
\<close>

section \<open>The enum \<open>Message\<close>\<close>

datatype message =
    Open Open
  | Close Close
  | Synchronize Synchronize
  | Request Request
  | Cancel Cancel
  | Data Data
  | NoData NoData
  | Want Want
  | Unwant Unwant
  | Bitfield Bitfield
  | Range_msg Range
  | Extension Extension
  | LocalSignal string bytes

text \<open>\<open>Message::typ\<close>: \<open>Open\<close>, \<open>Close\<close> and \<open>LocalSignal\<close> have no type (\<open>unimplemented!\<close>).\<close>

fun Message_typ :: "message \<Rightarrow> (encoding_error, u64) outcome" where
  "Message_typ (Synchronize _) = Ok 0"
| "Message_typ (Request _) = Ok 1"
| "Message_typ (Cancel _) = Ok 2"
| "Message_typ (Data _) = Ok 3"
| "Message_typ (NoData _) = Ok 4"
| "Message_typ (Want _) = Ok 5"
| "Message_typ (Unwant _) = Ok 6"
| "Message_typ (Bitfield _) = Ok 7"
| "Message_typ (Range_msg _) = Ok 8"
| "Message_typ (Extension _) = Ok 9"
| "Message_typ _ = Panic"

fun is_open_or_close :: "message \<Rightarrow> bool" where
  "is_open_or_close (Open _) = True"
| "is_open_or_close (Close _) = True"
| "is_open_or_close _ = False"

fun Message_payload_size :: "compact \<Rightarrow> message \<Rightarrow> (encoding_error, nat) outcome" where
  "Message_payload_size C (LocalSignal _ _) = Ok 0"
| "Message_payload_size C (Open x) = Open_encoded_size C x"
| "Message_payload_size C (Close x) = Close_encoded_size C x"
| "Message_payload_size C (Synchronize x) = Synchronize_encoded_size C x"
| "Message_payload_size C (Request x) = Request_encoded_size C x"
| "Message_payload_size C (Cancel x) = Cancel_encoded_size C x"
| "Message_payload_size C (Data x) = Data_encoded_size C x"
| "Message_payload_size C (NoData x) = NoData_encoded_size C x"
| "Message_payload_size C (Want x) = Want_encoded_size C x"
| "Message_payload_size C (Unwant x) = Unwant_encoded_size C x"
| "Message_payload_size C (Bitfield x) = Bitfield_encoded_size C x"
| "Message_payload_size C (Range_msg x) = Range_encoded_size C x"
| "Message_payload_size C (Extension x) = Extension_encoded_size C x"

definition Message_encoded_size :: "compact \<Rightarrow> message \<Rightarrow> (encoding_error, nat) outcome" where
  "Message_encoded_size C m =
     add_size
       (if is_open_or_close m then Ok 0 else and_then (Message_typ m) (encoded_size (c_u64 C)))
       (Message_payload_size C m)"

fun Message_payload_encode :: "compact \<Rightarrow> message \<Rightarrow> encoder" where
  "Message_payload_encode C (Open x) = Open_encode C x"
| "Message_payload_encode C (Close x) = Close_encode C x"
| "Message_payload_encode C (Synchronize x) = Synchronize_encode C x"
| "Message_payload_encode C (Request x) = Request_encode C x"
| "Message_payload_encode C (Cancel x) = Cancel_encode C x"
| "Message_payload_encode C (Data x) = Data_encode C x"
| "Message_payload_encode C (NoData x) = NoData_encode C x"
| "Message_payload_encode C (Want x) = Want_encode C x"
| "Message_payload_encode C (Unwant x) = Unwant_encode C x"
| "Message_payload_encode C (Bitfield x) = Bitfield_encode C x"
| "Message_payload_encode C (Range_msg x) = Range_encode C x"
| "Message_payload_encode C (Extension x) = Extension_encode C x"
| "Message_payload_encode C (LocalSignal _ _) = (\<lambda>_. Panic)"

definition Message_encode :: "compact \<Rightarrow> message \<Rightarrow> encoder" where
  "Message_encode C m =
     then_enc
       (if is_open_or_close m then skip_enc
        else (\<lambda>buffer. and_then (Message_typ m) (\<lambda>t. encode (c_u64 C) t buffer)))
       (Message_payload_encode C m)"

definition Message_decode :: "compact \<Rightarrow> message decoder" where
  "Message_decode C =
     bind_dec (decode (c_u64 C)) (\<lambda>t.
       if t = 0 then bind_dec (Synchronize_decode C) (\<lambda>x. ret_dec (Synchronize x))
       else if t = 1 then bind_dec (Request_decode C) (\<lambda>x. ret_dec (Request x))
       else if t = 2 then bind_dec (Cancel_decode C) (\<lambda>x. ret_dec (Cancel x))
       else if t = 3 then bind_dec (Data_decode C) (\<lambda>x. ret_dec (Data x))
       else if t = 4 then bind_dec (NoData_decode C) (\<lambda>x. ret_dec (NoData x))
       else if t = 5 then bind_dec (Want_decode C) (\<lambda>x. ret_dec (Want x))
       else if t = 6 then bind_dec (Unwant_decode C) (\<lambda>x. ret_dec (Unwant x))
       else if t = 7 then bind_dec (Bitfield_decode C) (\<lambda>x. ret_dec (Bitfield x))
       else if t = 8 then bind_dec (Range_decode C) (\<lambda>x. ret_dec (Range_msg x))
       else if t = 9 then bind_dec (Extension_decode C) (\<lambda>x. ret_dec (Extension x))
       else fail_dec (InvalidMessageType t))"

fun Message_name :: "message \<Rightarrow> string" where
  "Message_name (Open _) = ''Open''"
| "Message_name (Close _) = ''Close''"
| "Message_name (Synchronize _) = ''Synchronize''"
| "Message_name (Request _) = ''Request''"
| "Message_name (Cancel _) = ''Cancel''"
| "Message_name (Data _) = ''Data''"
| "Message_name (NoData _) = ''NoData''"
| "Message_name (Want _) = ''Want''"
| "Message_name (Unwant _) = ''Unwant''"
| "Message_name (Bitfield _) = ''Bitfield''"
| "Message_name (Range_msg _) = ''Range''"
| "Message_name (Extension _) = ''Extension''"
| "Message_name (LocalSignal _ _) = ''LocalSignal''"

text \<open>The messages that travel with a type, with payloads the Rust types can hold.\<close>

fun typed_ok :: "message \<Rightarrow> bool" where
  "typed_ok (Open _) = False"
| "typed_ok (Close _) = False"
| "typed_ok (LocalSignal _ _) = False"
| "typed_ok (Data x) = Data_ok x"
| "typed_ok (Bitfield x) = Bitfield_ok x"
| "typed_ok (Extension x) = Extension_ok x"
| "typed_ok _ = True"

fun Message_wire :: "compact \<Rightarrow> message \<Rightarrow> bytes" where
  "Message_wire C (Open x) = Open_wire C x"
| "Message_wire C (Close x) = Close_wire C x"
| "Message_wire C (Synchronize x) = wire_of (c_u64 C) 0 @ Synchronize_wire C x"
| "Message_wire C (Request x) = wire_of (c_u64 C) 1 @ Request_wire C x"
| "Message_wire C (Cancel x) = wire_of (c_u64 C) 2 @ Cancel_wire C x"
| "Message_wire C (Data x) = wire_of (c_u64 C) 3 @ Data_wire C x"
| "Message_wire C (NoData x) = wire_of (c_u64 C) 4 @ NoData_wire C x"
| "Message_wire C (Want x) = wire_of (c_u64 C) 5 @ Want_wire C x"
| "Message_wire C (Unwant x) = wire_of (c_u64 C) 6 @ Unwant_wire C x"
| "Message_wire C (Bitfield x) = wire_of (c_u64 C) 7 @ Bitfield_wire C x"
| "Message_wire C (Range_msg x) = wire_of (c_u64 C) 8 @ Range_wire C x"
| "Message_wire C (Extension x) = wire_of (c_u64 C) 9 @ Extension_wire C x"
| "Message_wire C (LocalSignal _ _) = []"

section \<open>\<open>ChannelMessage\<close>\<close>

record ChannelMessage =
  channel :: u64
  message :: message

definition ChannelMessage_new :: "u64 \<Rightarrow> message \<Rightarrow> ChannelMessage" where
  "ChannelMessage_new ch m = \<lparr>channel = ch, message = m\<rparr>"

definition into_split :: "ChannelMessage \<Rightarrow> u64 \<times> message" where
  "into_split cm = (channel cm, message cm)"

definition decode_open_message ::
  "compact \<Rightarrow> bytes \<Rightarrow> (io_error, ChannelMessage \<times> nat) outcome"
where
  "decode_open_message C buf =
     (if length buf \<le> 5 then Err (IoError UnexpectedEof ''received too short Open message'')
      else and_then (map_err FromEncoding (Open_decode C buf)) (\<lambda>(open_msg, rest).
        Ok (\<lparr>channel = open_channel open_msg, message = Open open_msg\<rparr>,
            length buf - length rest)))"

definition decode_close_message ::
  "compact \<Rightarrow> bytes \<Rightarrow> (io_error, ChannelMessage \<times> nat) outcome"
where
  "decode_close_message C buf =
     (if buf = [] then Err (IoError UnexpectedEof ''received too short Close message'')
      else and_then (map_err FromEncoding (Close_decode C buf)) (\<lambda>(close, rest).
        Ok (\<lparr>channel = close_channel close, message = Close close\<rparr>,
            length buf - length rest)))"

definition decode_from_channel_and_message :: "compact \<Rightarrow> ChannelMessage decoder" where
  "decode_from_channel_and_message C =
     bind_dec (decode (c_u64 C)) (\<lambda>ch.
     bind_dec (Message_decode C) (\<lambda>m. ret_dec \<lparr>channel = ch, message = m\<rparr>))"

definition decode_with_channel ::
  "compact \<Rightarrow> bytes \<Rightarrow> u64 \<Rightarrow> (io_error, ChannelMessage \<times> bytes) outcome"
where
  "decode_with_channel C buf ch =
     (if length buf \<le> 1 then Err (EmptyMessage buf)
      else and_then (map_err FromEncoding (Message_decode C buf)) (\<lambda>(m, rest).
        Ok (\<lparr>channel = ch, message = m\<rparr>, rest)))"

definition ChannelMessage_encoded_size ::
  "compact \<Rightarrow> ChannelMessage \<Rightarrow> (encoding_error, nat) outcome"
where
  "ChannelMessage_encoded_size C cm =
     add_size
       (if is_open_or_close (message cm) then Ok 0 else encoded_size (c_u64 C) (channel cm))
       (Message_encoded_size C (message cm))"

definition ChannelMessage_encode :: "compact \<Rightarrow> ChannelMessage \<Rightarrow> encoder" where
  "ChannelMessage_encode C cm =
     then_enc
       (if is_open_or_close (message cm) then skip_enc else encode (c_u64 C) (channel cm))
       (Message_encode C (message cm))"

definition ChannelMessage_decode :: "compact \<Rightarrow> ChannelMessage decoder" where
  "ChannelMessage_decode C = decode_from_channel_and_message C"

definition ChannelMessage_wire :: "compact \<Rightarrow> ChannelMessage \<Rightarrow> bytes" where
  "ChannelMessage_wire C cm = wire_of (c_u64 C) (channel cm) @ Message_wire C (message cm)"

section \<open>Frames\<close>

definition OPEN_MESSAGE_PREFIX :: bytes where "OPEN_MESSAGE_PREFIX = [0, 1]"
definition CLOSE_MESSAGE_PREFIX :: bytes where "CLOSE_MESSAGE_PREFIX = [0, 3]"
definition MULTI_MESSAGE_PREFIX :: bytes where "MULTI_MESSAGE_PREFIX = [0, 0]"
definition CHANNEL_CHANGE_SEPERATOR :: bytes where "CHANNEL_CHANGE_SEPERATOR = [0]"

text \<open>One turn of the batch loop: the message, the channel of the next one, the rest.\<close>

definition decode_batch_step ::
  "compact \<Rightarrow> nat \<Rightarrow> u64 \<Rightarrow> bytes \<Rightarrow> (io_error, ChannelMessage \<times> u64 \<times> bytes) outcome"
where
  "decode_batch_step C og_len current_channel buf =
     and_then (map_err FromEncoding (decode_usize C buf)) (\<lambda>(channel_message_length, buf).
     if channel_message_length > length buf
     then Err (InvalidMessageLength channel_message_length (length buf) og_len)
     else and_then (decode_with_channel C buf current_channel) (\<lambda>(channel_message, buf).
       if buf \<noteq> [] \<and> hd buf = 0
       then and_then (map_err FromEncoding (decode (c_u64 C) buf)) (\<lambda>(current_channel, buf).
         Ok (channel_message, current_channel, buf))
       else Ok (channel_message, current_channel, buf)))"

partial_function (option) decode_batch ::
  "compact \<Rightarrow> nat \<Rightarrow> u64 \<Rightarrow> bytes \<Rightarrow> ChannelMessage list
   \<Rightarrow> (io_error, ChannelMessage list \<times> bytes) outcome option"
where
  "decode_batch C og_len current_channel buf messages =
     (if buf = [] then Some (Ok (messages, buf))
      else (case decode_batch_step C og_len current_channel buf of
          Ok (channel_message, current_channel, buf) \<Rightarrow>
            decode_batch C og_len current_channel buf (messages @ [channel_message])
        | Err e \<Rightarrow> Some (Err e)
        | Panic \<Rightarrow> Some Panic))"

declare decode_batch.simps [code]

definition decode_unframed_channel_messages ::
  "compact \<Rightarrow> bytes \<Rightarrow> (io_error, ChannelMessage list \<times> nat) outcome option"
where
  "decode_unframed_channel_messages C buf =
     (let og_len = length buf in
      if og_len \<ge> 3 \<and> buf ! 0 = 0 then
        if buf ! 1 = 0 then
          (case and_then (map_err FromEncoding (take_array C 2 buf)) (\<lambda>(_, buf).
                  map_err FromEncoding (decode (c_u64 C) buf)) of
             Ok (current_channel, buf) \<Rightarrow>
               map_option (\<lambda>r. and_then r (\<lambda>(messages, buf).
                   Ok (messages, og_len - length buf)))
                 (decode_batch C og_len current_channel buf [])
           | Err e \<Rightarrow> Some (Err e)
           | Panic \<Rightarrow> Some Panic)
        else if buf ! 1 = 1 then
          Some (and_then (decode_open_message C (drop 2 buf)) (\<lambda>(channel_message, length).
            Ok ([channel_message], length + 2)))
        else if buf ! 1 = 3 then
          Some (and_then (decode_close_message C (drop 2 buf)) (\<lambda>(channel_message, length).
            Ok ([channel_message], length + 2)))
        else Some (Err (IoError InvalidData ''received invalid special message''))
      else if length buf \<ge> 2 then
        Some (and_then (map_err FromEncoding (decode_from_channel_and_message C buf))
          (\<lambda>(channel_message, buf). Ok ([channel_message], og_len - length buf)))
      else Some (Err (TooShortMessage buf)))"

fun batch_size ::
  "compact \<Rightarrow> u64 \<Rightarrow> ChannelMessage list \<Rightarrow> (encoding_error, nat) outcome"
where
  "batch_size C current_channel [] = Ok 0"
| "batch_size C current_channel (m # ms) =
     add_size
       (add_size
         (if channel m \<noteq> current_channel
          then add_size (Ok (length CHANNEL_CHANGE_SEPERATOR)) (encoded_size (c_u64 C) (channel m))
          else Ok 0)
         (and_then (Message_encoded_size C (message m)) (\<lambda>message_length.
           add_size (Ok message_length) (encoded_size (c_u64 C) (of_nat message_length)))))
       (batch_size C (channel m) ms)"

definition vec_channel_messages_encoded_size ::
  "compact \<Rightarrow> ChannelMessage list \<Rightarrow> (encoding_error, nat) outcome"
where
  "vec_channel_messages_encoded_size C messages =
     (case messages of
        [] \<Rightarrow> Ok 0
      | [msg] \<Rightarrow>
          if is_open_or_close (message msg)
          then add_size (Ok 2) (ChannelMessage_encoded_size C msg)
          else ChannelMessage_encoded_size C msg
      | msg # _ \<Rightarrow>
          add_size (add_size (Ok (length MULTI_MESSAGE_PREFIX)) (encoded_size (c_u64 C) (channel msg)))
            (batch_size C (channel msg) messages))"

fun batch_encode :: "compact \<Rightarrow> u64 \<Rightarrow> ChannelMessage list \<Rightarrow> encoder" where
  "batch_encode C current_channel [] = skip_enc"
| "batch_encode C current_channel (msg # msgs) =
     then_enc
       (if channel msg \<noteq> current_channel
        then then_enc (write_array C CHANNEL_CHANGE_SEPERATOR) (encode (c_u64 C) (channel msg))
        else skip_enc)
     (then_enc
       (\<lambda>rest. and_then (Message_encoded_size C (message msg)) (\<lambda>msg_len.
          then_enc (encode (c_u64 C) (of_nat msg_len)) (Message_encode C (message msg)) rest))
       (batch_encode C (channel msg) msgs))"

definition vec_encode :: "compact \<Rightarrow> ChannelMessage list \<Rightarrow> encoder" where
  "vec_encode C vec =
     (case vec of
        [] \<Rightarrow> skip_enc
      | [msg] \<Rightarrow>
          then_enc
            (case message msg of
               Open _ \<Rightarrow> write_array C OPEN_MESSAGE_PREFIX
             | Close _ \<Rightarrow> write_array C CLOSE_MESSAGE_PREFIX
             | _ \<Rightarrow> encode (c_u64 C) (channel msg))
            (Message_encode C (message msg))
      | msg # _ \<Rightarrow>
          then_enc (write_array C MULTI_MESSAGE_PREFIX)
          (then_enc (encode (c_u64 C) (channel msg)) (batch_encode C (channel msg) vec)))"

partial_function (option) vec_decode_loop ::
  "compact \<Rightarrow> bytes \<Rightarrow> ChannelMessage list
   \<Rightarrow> (encoding_error, ChannelMessage list \<times> bytes) outcome option"
where
  "vec_decode_loop C rest combined_messages =
     (if rest = [] then Some (Ok (combined_messages, rest))
      else Option.bind (decode_unframed_channel_messages C rest) (\<lambda>r.
        case r of
          Ok (msgs, len) \<Rightarrow>
            if len \<le> length rest then vec_decode_loop C (drop len rest) (combined_messages @ msgs)
            else Some Panic
        | Err e \<Rightarrow> Some (Err (ExternalError e))
        | Panic \<Rightarrow> Some Panic))"

declare vec_decode_loop.simps [code]

definition vec_decode ::
  "compact \<Rightarrow> bytes \<Rightarrow> (encoding_error, ChannelMessage list \<times> bytes) outcome option"
where
  "vec_decode C buffer = vec_decode_loop C buffer []"

text \<open>The frame a vector of messages stands for.\<close>

fun batch_wire :: "compact \<Rightarrow> u64 \<Rightarrow> ChannelMessage list \<Rightarrow> bytes" where
  "batch_wire C ch [] = []"
| "batch_wire C ch (m # ms) =
     (if channel m \<noteq> ch then 0 # wire_of (c_u64 C) (channel m) else []) @
     wire_of (c_u64 C) (of_nat (length (Message_wire C (message m)))) @
     Message_wire C (message m) @ batch_wire C (channel m) ms"

fun frame :: "compact \<Rightarrow> ChannelMessage list \<Rightarrow> bytes" where
  "frame C [] = []"
| "frame C [m] =
     (case message m of
        Open _ \<Rightarrow> [0, 1]
      | Close _ \<Rightarrow> [0, 3]
      | _ \<Rightarrow> wire_of (c_u64 C) (channel m)) @ Message_wire C (message m)"
| "frame C (m # ms) = [0, 0] @ wire_of (c_u64 C) (channel m) @ batch_wire C (channel m) (m # ms)"

section \<open>One message\<close>

sublocale compact_lib \<subseteq>
  Message: wire_codec typed_ok "Message_encoded_size C" "Message_encode C" "Message_decode C"
    "Message_wire C"
proof
  fix m :: message
  assume ok: "typed_ok m"
  show "Message_encoded_size C m = Ok (length (Message_wire C m))"
    using ok by (cases m)
      (simp_all add: Message_encoded_size_def lib_sizes Synchronize.size_of_image
        Request.size_of_image Cancel.size_of_image Data.size_of_image NoData.size_of_image
        Want.size_of_image Unwant.size_of_image Bitfield.size_of_image Range.size_of_image
        Extension.size_of_image)
  show "writes (Message_encode C m) (Message_wire C m)"
    using ok by (cases m)
      (simp_all add: Message_encode_def writes_then_enc lib_writes Synchronize.enc_writes
        Request.enc_writes Cancel.enc_writes Data.enc_writes NoData.enc_writes
        Want.enc_writes Unwant.enc_writes Bitfield.enc_writes Range.enc_writes
        Extension.enc_writes)
  show "reads (Message_decode C) (Message_wire C m) m"
    using ok by (cases m)
      (simp_all add: Message_decode_def reads_def bind_dec_def ret_dec_def U.dec_image
        Synchronize.dec_image Request.dec_image Cancel.dec_image Data.dec_image
        NoData.dec_image Want.dec_image Unwant.dec_image Bitfield.dec_image Range.dec_image
        Extension.dec_image)
next
  show "progress_dec (Message_decode C)"
    unfolding Message_decode_def
    by (intro dec_intro progress_suffix Synchronize.dec_progress Request.dec_progress
        Cancel.dec_progress Data.dec_progress NoData.dec_progress Want.dec_progress
        Unwant.dec_progress Bitfield.dec_progress Range.dec_progress Extension.dec_progress)
qed

sublocale compact_lib \<subseteq>
  ChannelMessage: wire_codec "\<lambda>cm. typed_ok (message cm)" "ChannelMessage_encoded_size C"
    "ChannelMessage_encode C" "ChannelMessage_decode C" "ChannelMessage_wire C"
proof
  fix cm :: ChannelMessage
  assume ok: "typed_ok (message cm)"
  then have nc: "\<not> is_open_or_close (message cm)" by (cases "message cm") simp_all
  show "ChannelMessage_encoded_size C cm = Ok (length (ChannelMessage_wire C cm))"
    using ok nc
    by (simp add: ChannelMessage_encoded_size_def ChannelMessage_wire_def lib_sizes
        Message.size_of_image)
  show "writes (ChannelMessage_encode C cm) (ChannelMessage_wire C cm)"
    using ok nc
    by (simp add: ChannelMessage_encode_def ChannelMessage_wire_def writes_then_enc lib_writes
        Message.enc_writes)
  show "reads (ChannelMessage_decode C) (ChannelMessage_wire C cm) cm"
    using ok
    by (simp add: ChannelMessage_decode_def decode_from_channel_and_message_def
        ChannelMessage_wire_def reads_def bind_dec_def ret_dec_def U.dec_image
        Message.dec_image)
next
  show "progress_dec (ChannelMessage_decode C)"
    unfolding ChannelMessage_decode_def decode_from_channel_and_message_def
    by (intro dec_intro progress_suffix Message.dec_progress)
qed

context compact_lib
begin

lemmas all_roundtrips =
  Message.value_roundtrips ChannelMessage.value_roundtrips Synchronize.value_roundtrips
  Request.value_roundtrips Data.value_roundtrips Bitfield.value_roundtrips Range.value_roundtrips
  Extension.value_roundtrips Want.value_roundtrips Unwant.value_roundtrips
  Cancel.value_roundtrips NoData.value_roundtrips Close.value_roundtrips

end

section \<open>Frames are written as specified\<close>

text \<open>What a frame can carry: typed messages, or an \<open>Open\<close>/\<open>Close\<close> alone.\<close>

definition typed_batch :: "ChannelMessage list \<Rightarrow> bool" where
  "typed_batch ms \<longleftrightarrow> list_all (\<lambda>m. typed_ok (message m)) ms"

fun single_ok :: "ChannelMessage \<Rightarrow> bool" where
  "single_ok cm =
     (case message cm of Open x \<Rightarrow> Open_ok x | Close x \<Rightarrow> True | m \<Rightarrow> typed_ok m)"

definition frame_ok :: "ChannelMessage list \<Rightarrow> bool" where
  "frame_ok ms \<longleftrightarrow> (case ms of [m] \<Rightarrow> single_ok m | _ \<Rightarrow> typed_batch ms)"

lemma typed_not_control: "typed_ok m \<Longrightarrow> \<not> is_open_or_close m"
  by (cases m) simp_all

lemma typed_frame:
  "typed_ok (message m) \<Longrightarrow> frame C [m] = wire_of (c_u64 C) (channel m) @ Message_wire C (message m)"
  by (cases "message m") simp_all

lemma frame_batch:
  "length ms \<noteq> 1 \<Longrightarrow> ms \<noteq> [] \<Longrightarrow>
   frame C ms = [0, 0] @ wire_of (c_u64 C) (channel (hd ms)) @ batch_wire C (channel (hd ms)) ms"
  by (cases ms rule: remdups_adj.cases) simp_all

context compact_lib
begin

lemma Message_wire_two: "typed_ok m \<Longrightarrow> 2 \<le> length (Message_wire C m)"
proof -
  have two: "2 \<le> length (wire_of (c_u64 C) t) + n" if "0 < n" for t n
    using wire_u64_pos [of t] that by linarith
  show "typed_ok m \<Longrightarrow> 2 \<le> length (Message_wire C m)"
    by (cases m) (simp_all add: two Synchronize.image_not_Nil Request.image_not_Nil
        Cancel.image_not_Nil Data.image_not_Nil NoData.image_not_Nil Want.image_not_Nil
        Unwant.image_not_Nil Bitfield.image_not_Nil Range.image_not_Nil Extension.image_not_Nil)
qed

lemma batch_size_wire: "typed_batch ms \<Longrightarrow> batch_size C ch ms = Ok (length (batch_wire C ch ms))"
  by (induction ms arbitrary: ch)
    (simp_all add: typed_batch_def Message.size_of_image lib_sizes CHANNEL_CHANGE_SEPERATOR_def)

lemma batch_encode_writes: "typed_batch ms \<Longrightarrow> writes (batch_encode C ch ms) (batch_wire C ch ms)"
proof (induction ms arbitrary: ch)
  case Nil
  show ?case by (simp add: writes_skip)
next
  case (Cons m ms)
  then have ok: "typed_ok (message m)" and IH: "writes (batch_encode C (channel m) ms) (batch_wire C (channel m) ms)"
    by (simp_all add: typed_batch_def)
  have sep: "writes (then_enc (write_array C [0]) (encode (c_u64 C) (channel m)))
      ([0] @ wire_of (c_u64 C) (channel m))"
    by (intro writes_intro) simp
  have msg: "writes (then_enc (encode (c_u64 C) (of_nat (length (Message_wire C (message m)))))
        (Message_encode C (message m)))
      (wire_of (c_u64 C) (of_nat (length (Message_wire C (message m)))) @ Message_wire C (message m))"
    using ok by (intro writes_intro Message.enc_writes) simp_all
  have head: "writes (if channel m \<noteq> ch
        then then_enc (write_array C [0]) (encode (c_u64 C) (channel m)) else skip_enc)
      (if channel m \<noteq> ch then 0 # wire_of (c_u64 C) (channel m) else [])"
    using sep by (simp add: writes_skip)
  show ?case
    using writes_then_enc [OF head writes_then_enc [OF msg IH]] ok
    by (cases "channel m = ch")
      (simp_all add: Message.size_of_image CHANNEL_CHANGE_SEPERATOR_def)
qed

lemma vec_size_frame:
  assumes "frame_ok ms"
  shows "vec_channel_messages_encoded_size C ms = Ok (length (frame C ms))"
proof (cases ms rule: remdups_adj.cases)
  case (2 m)
  then show ?thesis
    using assms Message.size_of_image [of "message m"]
    by (cases "message m")
      (auto simp: frame_ok_def vec_channel_messages_encoded_size_def
        ChannelMessage_encoded_size_def Message_encoded_size_def Open_size Close.size_of_image
        lib_sizes)
next
  case (3 m m' ms')
  then show ?thesis
    using assms batch_size_wire [of ms "channel m"]
    by (simp add: frame_ok_def vec_channel_messages_encoded_size_def MULTI_MESSAGE_PREFIX_def
        lib_sizes)
qed (simp add: vec_channel_messages_encoded_size_def)

lemma vec_encode_frame:
  assumes "frame_ok ms"
  shows "writes0 (vec_encode C ms) (frame C ms)"
proof (cases ms rule: remdups_adj.cases)
  case 1
  then show ?thesis by (simp add: vec_encode_def writes_writes0 writes_skip)
next
  case (2 m)
  have payload: "writes0 (Message_encode C (message m)) (Message_wire C (message m))"
  proof (cases "message m")
    case (Open x)
    with 2 assms show ?thesis
      using writes0_then_enc [OF writes_writes0 [OF writes_skip] Open_writes0, of x]
      by (simp add: frame_ok_def Message_encode_def)
  next
    case (Close x)
    then show ?thesis
      using writes_then_enc [OF writes_skip Close.enc_writes, of x]
      by (simp add: Message_encode_def writes_writes0)
  qed (use 2 assms in \<open>simp_all add: frame_ok_def writes_writes0 Message.enc_writes
      del: Message_wire.simps\<close>)
  have "writes (case message m of Open _ \<Rightarrow> write_array C OPEN_MESSAGE_PREFIX
      | Close _ \<Rightarrow> write_array C CLOSE_MESSAGE_PREFIX | _ \<Rightarrow> encode (c_u64 C) (channel m))
    (case message m of Open _ \<Rightarrow> [0, 1] | Close _ \<Rightarrow> [0, 3] | _ \<Rightarrow> wire_of (c_u64 C) (channel m))"
    using write_array_writes [of "[0, 1]"] write_array_writes [of "[0, 3]"]
    by (cases "message m") (simp_all add: OPEN_MESSAGE_PREFIX_def CLOSE_MESSAGE_PREFIX_def lib_writes)
  from writes0_then_enc [OF writes_writes0 [OF this] payload] 2 show ?thesis
    by (simp add: vec_encode_def)
next
  case (3 m m' ms')
  then have "writes (vec_encode C ms) (frame C ms)"
    using assms writes_then_enc [OF write_array_writes [of "[0, 0]"]
        writes_then_enc [OF U.enc_writes batch_encode_writes, of ms "channel m" "channel m"]]
    by (simp add: frame_ok_def vec_encode_def MULTI_MESSAGE_PREFIX_def
        del: batch_encode.simps batch_wire.simps)
  then show ?thesis by (rule writes_writes0)
qed

lemma to_encoded_bytes_frame:
  "frame_ok ms \<Longrightarrow>
   to_encoded_bytes C (vec_channel_messages_encoded_size C ms) (vec_encode C ms) = Ok (frame C ms)"
  by (rule to_bytes_exact [OF vec_size_frame vec_encode_frame])

end

section \<open>Frames are read back\<close>

text \<open>Length prefixes are \<open>u64\<close>; a message of \<open>2 ^ 64\<close> bytes does not exist in memory.\<close>

definition sized_batch :: "compact \<Rightarrow> ChannelMessage list \<Rightarrow> bool" where
  "sized_batch C ms \<longleftrightarrow>
     list_all (\<lambda>m. typed_ok (message m) \<and> length (Message_wire C (message m)) < 2 ^ 64) ms"

lemma sized_typed: "sized_batch C ms \<Longrightarrow> typed_batch ms"
  by (auto simp: sized_batch_def typed_batch_def list_all_iff)

lemma decode_batch_step_Ok:
  assumes "buf \<noteq> []" and "decode_batch_step C og_len ch buf = Ok (m, ch', buf')"
  shows "decode_batch C og_len ch buf acc = decode_batch C og_len ch' buf' (acc @ [m])"
  using assms by (subst decode_batch.simps) simp

context compact_lib
begin

lemma decode_with_channel_wire:
  "typed_ok m \<Longrightarrow>
   decode_with_channel C (Message_wire C m @ rest) ch = Ok (\<lparr>channel = ch, message = m\<rparr>, rest)"
  using Message_wire_two [of m] by (simp add: decode_with_channel_def Message.dec_image)

lemma decode_batch_step_wire:
  assumes "typed_ok m" and "length (Message_wire C m) < 2 ^ 64"
  shows "decode_batch_step C og_len ch
      (wire_of (c_u64 C) (of_nat (length (Message_wire C m))) @ Message_wire C m @ rest) =
    (if rest \<noteq> [] \<and> hd rest = 0
     then and_then (map_err FromEncoding (decode (c_u64 C) rest)) (\<lambda>(ch', rest').
       Ok (\<lparr>channel = ch, message = m\<rparr>, ch', rest'))
     else Ok (\<lparr>channel = ch, message = m\<rparr>, ch, rest))"
  using assms
  by (simp add: decode_batch_step_def reads_run [OF usize_reads] unat_of_nat_u64
      decode_with_channel_wire)

text \<open>The length prefix of a message never looks like a separator.\<close>

lemma batch_wire_first:
  assumes "sized_batch C ms" and "ms \<noteq> []" and "channel (hd ms) = ch"
  shows "hd (batch_wire C ch ms) \<noteq> 0"
proof -
  from assms obtain m ms' where ms: "ms = m # ms'" by (cases ms) auto
  let ?n = "length (Message_wire C (message m))"
  from assms ms have "2 \<le> ?n" "?n < 2 ^ 64"
    by (simp_all add: sized_batch_def Message_wire_two)
  then have "unat (of_nat ?n :: u64) \<noteq> 0" by (subst unat_of_nat_u64) auto
  then have "(of_nat ?n :: u64) \<noteq> 0" by (metis unat_0)
  then obtain b bs where "wire_of (c_u64 C) (of_nat ?n) = b # bs" "b \<noteq> 0"
    by (rule wire_u64_first)
  with assms(3) ms show ?thesis by simp
qed

lemma batch_wire_Nil: "sized_batch C ms \<Longrightarrow> batch_wire C ch ms = [] \<longleftrightarrow> ms = []"
  by (cases ms) (auto simp: sized_batch_def dest: Message_wire_two)

lemma decode_batch_same_channel:
  assumes "sized_batch C ms" and "list_all (\<lambda>m. channel m = ch) ms"
  shows "decode_batch C og_len ch (batch_wire C ch ms) acc = Some (Ok (acc @ ms, []))"
  using assms
proof (induction ms arbitrary: acc)
  case Nil
  show ?case by (simp add: decode_batch.simps)
next
  case (Cons m ms)
  let ?buf = "batch_wire C ch (m # ms)"
  have m: "typed_ok (message m)" "length (Message_wire C (message m)) < 2 ^ 64" "channel m = ch"
    and ms: "sized_batch C ms" "list_all (\<lambda>m. channel m = ch) ms"
    using Cons.prems by (simp_all add: sized_batch_def)
  have next_ok: "\<not> (batch_wire C ch ms \<noteq> [] \<and> hd (batch_wire C ch ms) = 0)"
    using batch_wire_first [OF ms(1)] ms(2) by (cases ms) auto
  have step: "decode_batch_step C og_len ch ?buf = Ok (m, ch, batch_wire C ch ms)"
    using decode_batch_step_wire [OF m(1,2), of og_len ch "batch_wire C ch ms"] next_ok m(3)
    by simp
  have "?buf \<noteq> []" using batch_wire_Nil [OF Cons.prems(1)] by simp
  from decode_batch_step_Ok [OF this step] Cons.IH [OF ms] show ?case by simp
qed

end

text \<open>The frames that come back as they were sent: an \<open>Open\<close> or \<open>Close\<close> alone, one typed message
  on a channel other than 0, a batch of typed messages that all belong to one channel.\<close>

definition faithful_frame :: "compact \<Rightarrow> ChannelMessage list \<Rightarrow> bool" where
  "faithful_frame C ms \<longleftrightarrow>
     (case ms of
        [] \<Rightarrow> False
      | [m] \<Rightarrow>
          (case message m of
             Open x \<Rightarrow> Open_ok x \<and> 5 < length (Open_wire C x) \<and> channel m = open_channel x
           | Close x \<Rightarrow> channel m = close_channel x
           | _ \<Rightarrow> typed_ok (message m) \<and> channel m \<noteq> 0)
      | m # _ \<Rightarrow> sized_batch C ms \<and> list_all (\<lambda>m'. channel m' = channel m) ms)"

lemma faithful_frame_ok: "faithful_frame C ms \<Longrightarrow> frame_ok ms"
  by (cases ms rule: remdups_adj.cases)
    (auto simp: faithful_frame_def frame_ok_def sized_typed split: message.splits)

lemma vec_decode_one_frame:
  assumes "buf \<noteq> []" and "decode_unframed_channel_messages C buf = Some (Ok (ms, length buf))"
  shows "vec_decode C buf = Some (Ok (ms, []))"
  using assms by (simp add: vec_decode_def vec_decode_loop.simps [of C buf] vec_decode_loop.simps [of C "[]"])

context compact_lib
begin

lemma unframed_typed:
  assumes "typed_ok (message m)" and "channel m \<noteq> 0"
  shows "decode_unframed_channel_messages C (frame C [m]) = Some (Ok ([m], length (frame C [m])))"
proof -
  obtain b bs where b: "wire_of (c_u64 C) (channel m) = b # bs" "b \<noteq> 0"
    using wire_u64_first [OF assms(2)] by blast
  have "2 \<le> length (frame C [m])"
    using Message_wire_two [OF assms(1)] by (simp add: typed_frame [OF assms(1)] del: frame.simps)
  moreover have "frame C [m] ! 0 \<noteq> 0"
    using b by (simp add: typed_frame [OF assms(1)] del: frame.simps)
  moreover have "decode_from_channel_and_message C (frame C [m]) = Ok (m, [])"
    using ChannelMessage.dec_image [of m "[]"] assms(1)
    by (simp add: ChannelMessage_decode_def ChannelMessage_wire_def typed_frame del: frame.simps)
  ultimately show ?thesis
    by (simp add: decode_unframed_channel_messages_def Let_def del: frame.simps)
qed

lemma unframed_open:
  assumes "message m = Open x" and "Open_ok x" and "5 < length (Open_wire C x)"
    and "channel m = open_channel x"
  shows "decode_unframed_channel_messages C (frame C [m]) = Some (Ok ([m], length (frame C [m])))"
  using assms
  by (simp add: decode_unframed_channel_messages_def decode_open_message_def Open_decode_frame)

lemma unframed_close:
  assumes "message m = Close x" and "channel m = close_channel x"
  shows "decode_unframed_channel_messages C (frame C [m]) = Some (Ok ([m], length (frame C [m])))"
  using assms Close.image_not_Nil [of x] Close.dec_image [of x "[]"]
  by (simp add: decode_unframed_channel_messages_def decode_close_message_def Suc_le_eq)

lemma unframed_batch:
  assumes "sized_batch C (m # m' # ms)" and "list_all (\<lambda>x. channel x = channel m) (m # m' # ms)"
  shows "decode_unframed_channel_messages C (frame C (m # m' # ms)) =
    Some (Ok (m # m' # ms, length (frame C (m # m' # ms))))"
proof -
  let ?ms = "m # m' # ms"
  let ?buf = "[0, 0] @ wire_of (c_u64 C) (channel m) @ batch_wire C (channel m) ?ms"
  have "take_array C 2 ?buf = Ok ([0, 0], wire_of (c_u64 C) (channel m) @ batch_wire C (channel m) ?ms)"
    by (simp add: take_array_enough del: batch_wire.simps)
  moreover have "decode (c_u64 C) (wire_of (c_u64 C) (channel m) @ batch_wire C (channel m) ?ms)
      = Ok (channel m, batch_wire C (channel m) ?ms)"
    by (simp add: U.dec_image)
  moreover have "3 \<le> length ?buf"
    using wire_u64_pos [of "channel m"] by (simp add: Suc_le_eq del: batch_wire.simps)
  ultimately show ?thesis
    using decode_batch_same_channel [OF assms, of "length ?buf" "[]"]
    by (simp add: decode_unframed_channel_messages_def del: batch_wire.simps)
qed

lemma vec_decode_frame:
  assumes "faithful_frame C ms"
  shows "vec_decode C (frame C ms) = Some (Ok (ms, []))"
proof (rule vec_decode_one_frame)
  show "decode_unframed_channel_messages C (frame C ms) = Some (Ok (ms, length (frame C ms)))"
  proof (cases ms rule: remdups_adj.cases)
    case (2 m)
    with assms show ?thesis
      by (cases "message m")
        (auto simp: faithful_frame_def unframed_typed unframed_open unframed_close
          simp del: frame.simps)
  next
    case (3 m m' ms')
    with assms show ?thesis
      by (auto simp: faithful_frame_def intro!: unframed_batch simp del: frame.simps)
  qed (use assms in \<open>simp add: faithful_frame_def\<close>)
  show "frame C ms \<noteq> []"
    using assms wire_u64_pos
    by (cases ms rule: remdups_adj.cases) (auto simp: faithful_frame_def split: message.splits)
qed

end

section \<open>The decoder returns on every input and never panics\<close>

context compact_lib
begin

lemma decode_with_channel_returns:
  "decode_with_channel C buf ch \<noteq> Panic"
  "decode_with_channel C buf ch = Ok (m, r) \<Longrightarrow> length r < length buf"
  using progress_not_Panic [OF Message.dec_progress, of buf]
    progress_shorter [OF Message.dec_progress, of buf]
  by (auto simp: decode_with_channel_def and_then_eq_Ok and_then_eq_Panic split: if_splits)

lemma decode_batch_step_not_Panic: "decode_batch_step C og_len ch buf \<noteq> Panic"
  using progress_not_Panic [OF usize_progress] progress_not_Panic [OF U.dec_progress]
    decode_with_channel_returns(1)
  by (auto simp: decode_batch_step_def and_then_eq_Panic split: if_splits)

lemma decode_batch_step_shorter:
  assumes "decode_batch_step C og_len ch buf = Ok (m, ch', buf')"
  shows "length buf' < length buf"
proof -
  from assms obtain n b1 cm b2 where b1: "decode_usize C buf = Ok (n, b1)"
    and b2: "decode_with_channel C b1 ch = Ok (cm, b2)"
    and b3: "buf' = b2 \<or> (\<exists>c. decode (c_u64 C) b2 = Ok (c, buf'))"
    by (auto simp: decode_batch_step_def and_then_eq_Ok split: if_splits)
  from b1 have "length b1 < length buf" by (rule progress_shorter [OF usize_progress])
  moreover from b2 have "length b2 < length b1" by (rule decode_with_channel_returns(2))
  moreover from b3 have "length buf' \<le> length b2"
    using progress_shorter [OF U.dec_progress] by (auto simp: less_imp_le)
  ultimately show ?thesis by simp
qed

text \<open>The batch loop ends; with \<open>Ok\<close> it has used up the whole buffer and only appended.\<close>

lemma decode_batch_returns:
  "\<exists>r. decode_batch C og_len ch buf acc = Some r \<and> r \<noteq> Panic \<and>
     (\<forall>ms rest. r = Ok (ms, rest) \<longrightarrow> rest = [] \<and> (\<exists>new. ms = acc @ new))"
proof (induction buf arbitrary: ch acc rule: length_induct)
  case (1 buf)
  show ?case
  proof (cases "buf = []")
    case True
    then show ?thesis by (simp add: decode_batch.simps)
  next
    case False
    show ?thesis
    proof (cases "decode_batch_step C og_len ch buf")
      case (Ok t)
      then obtain m ch' buf' where t: "decode_batch_step C og_len ch buf = Ok (m, ch', buf')"
        by (cases t) auto
      from decode_batch_step_shorter [OF t] "1.IH"
      obtain r where "decode_batch C og_len ch' buf' (acc @ [m]) = Some r" "r \<noteq> Panic"
        "\<forall>ms rest. r = Ok (ms, rest) \<longrightarrow> rest = [] \<and> (\<exists>new. ms = (acc @ [m]) @ new)"
        by blast
      then show ?thesis using decode_batch_step_Ok [OF False t, of acc] by auto
    next
      case (Err e)
      with False show ?thesis by (simp add: decode_batch.simps)
    next
      case Panic
      then show ?thesis using decode_batch_step_not_Panic by simp
    qed
  qed
qed

lemma special_returns:
  "decode_open_message C buf \<noteq> Panic" "decode_close_message C buf \<noteq> Panic"
  "decode_open_message C buf = Ok (m, n) \<Longrightarrow> n \<le> length buf"
  "decode_close_message C buf = Ok (m, n) \<Longrightarrow> n \<le> length buf"
  using progress_not_Panic [OF Open_progress, of buf] progress_not_Panic [OF Close.dec_progress, of buf]
  by (auto simp: decode_open_message_def decode_close_message_def and_then_eq_Ok
      and_then_eq_Panic split: if_splits)

lemma unframed_returns:
  "\<exists>r. decode_unframed_channel_messages C buf = Some r \<and> r \<noteq> Panic \<and>
     (\<forall>ms n. r = Ok (ms, n) \<longrightarrow> 0 < n \<and> n \<le> length buf)"
proof -
  consider (batch) "3 \<le> length buf \<and> buf ! 0 = 0 \<and> buf ! 1 = 0"
    | (special) "3 \<le> length buf \<and> buf ! 0 = 0 \<and> buf ! 1 \<noteq> 0"
    | (single) "\<not> (3 \<le> length buf \<and> buf ! 0 = 0)" by blast
  then show ?thesis
  proof cases
    case batch
    show ?thesis
    proof (cases "decode (c_u64 C) (drop 2 buf)")
      case (Ok t)
      obtain ch b where t: "t = (ch, b)" by (cases t)
      from decode_batch_returns [of "length buf" ch b "[]"]
      obtain r where "decode_batch C (length buf) ch b [] = Some r" "r \<noteq> Panic"
        "\<forall>ms rest. r = Ok (ms, rest) \<longrightarrow> rest = []" by blast
      with Ok t batch show ?thesis
        by (auto simp: decode_unframed_channel_messages_def take_array_enough and_then_eq_Ok
            and_then_eq_Panic)
    next
      case Panic
      then show ?thesis using progress_not_Panic [OF U.dec_progress] by simp
    qed (use batch in \<open>simp add: decode_unframed_channel_messages_def take_array_enough\<close>)
  next
    case special
    then show ?thesis
      using special_returns [of "drop 2 buf"]
      by (auto simp: decode_unframed_channel_messages_def and_then_eq_Ok and_then_eq_Panic
          le_diff_conv)
  next
    case single
    then have "decode_unframed_channel_messages C buf =
        Some (if 2 \<le> length buf
          then and_then (map_err FromEncoding (decode_from_channel_and_message C buf))
            (\<lambda>(m, b). Ok ([m], length buf - length b))
          else Err (TooShortMessage buf))"
      by (auto simp: decode_unframed_channel_messages_def Let_def)
    then show ?thesis
      using progress_not_Panic [OF ChannelMessage.dec_progress, of buf]
        progress_shorter [OF ChannelMessage.dec_progress, of buf]
      by (cases "2 \<le> length buf")
        (auto simp: and_then_eq_Ok and_then_eq_Panic ChannelMessage_decode_def)
  qed
qed

lemma vec_decode_loop_returns:
  "\<exists>r. vec_decode_loop C buf acc = Some r \<and> r \<noteq> Panic \<and>
     (\<forall>ms rest. r = Ok (ms, rest) \<longrightarrow> rest = [])"
proof (induction buf arbitrary: acc rule: length_induct)
  case (1 buf)
  from unframed_returns obtain r where r: "decode_unframed_channel_messages C buf = Some r"
    "r \<noteq> Panic" "\<forall>ms n. r = Ok (ms, n) \<longrightarrow> 0 < n \<and> n \<le> length buf" by blast
  show ?case
  proof (cases "buf = [] \<or> (\<exists>e. r = Err e)")
    case True
    with r show ?thesis by (auto simp: vec_decode_loop.simps)
  next
    case False
    with r obtain ms n where n: "r = Ok (ms, n)" "0 < n" "n \<le> length buf"
      by (cases r) auto
    with False have "length (drop n buf) < length buf" by (cases buf) auto
    with "1.IH" obtain r' where "vec_decode_loop C (drop n buf) (acc @ ms) = Some r'"
      "r' \<noteq> Panic" "\<forall>ms rest. r' = Ok (ms, rest) \<longrightarrow> rest = []" by blast
    with False r(1) n show ?thesis by (auto simp: vec_decode_loop.simps [of C buf])
  qed
qed

lemma vec_decode_returns:
  "\<exists>r. vec_decode C buf = Some r \<and> r \<noteq> Panic \<and> (\<forall>ms rest. r = Ok (ms, rest) \<longrightarrow> rest = [])"
  unfolding vec_decode_def by (rule vec_decode_loop_returns)

end

section \<open>Batches that change channel\<close>

text \<open>
  Where the encoder changes channel it writes the separator 0 and then the new channel number.
  The decoder sees the 0 and decodes a channel number from the separator itself, so it goes on
  with channel 0 and takes the channel number for the next length prefix.
\<close>

definition single_channel :: "ChannelMessage list \<Rightarrow> bool" where
  "single_channel ms \<longleftrightarrow> list_all (\<lambda>m. channel m = channel (hd ms)) ms"

context compact_lib
begin

lemma decode_batch_channel:
  assumes "decode_batch C og_len ch buf acc = Some (Ok (ms, rest))" and "buf \<noteq> []"
  shows "\<exists>x new. ms = acc @ x # new \<and> channel x = ch"
proof (cases "decode_batch_step C og_len ch buf")
  case (Ok t)
  then obtain m ch' buf' where t: "decode_batch_step C og_len ch buf = Ok (m, ch', buf')"
    by (cases t) auto
  then have "channel m = ch"
    by (auto simp: decode_batch_step_def decode_with_channel_def and_then_eq_Ok split: if_splits)
  moreover from assms(1) t obtain new where "ms = (acc @ [m]) @ new"
    using decode_batch_step_Ok [OF assms(2) t, of acc]
      decode_batch_returns [of og_len ch' buf' "acc @ [m]"] by auto
  ultimately show ?thesis by simp
qed (use assms in \<open>simp_all add: decode_batch.simps\<close>)

lemma decode_batch_separator:
  assumes "sized_batch C (pre @ m # post)" and "pre \<noteq> []"
    and "list_all (\<lambda>x. channel x = ch) pre" and "channel m \<noteq> ch"
    and "decode_batch C og_len ch (batch_wire C ch (pre @ m # post)) acc = Some (Ok (ms, rest))"
  shows "\<exists>x new. ms = acc @ pre @ x # new \<and> channel x = 0"
  using assms
proof (induction pre arbitrary: acc)
  case (Cons p pre)
  let ?rest = "batch_wire C ch (pre @ m # post)"
  let ?buf = "batch_wire C ch (p # pre @ m # post)"
  have p: "typed_ok (message p)" "length (Message_wire C (message p)) < 2 ^ 64" "channel p = ch"
    using Cons.prems by (simp_all add: sized_batch_def)
  note step = decode_batch_step_wire [OF p(1,2), of og_len ch ?rest]
  have buf: "?buf \<noteq> []" using batch_wire_Nil [OF Cons.prems(1)] by simp
  show ?case
  proof (cases "pre = []")
    case True
    let ?tail = "wire_of (c_u64 C) (channel m) @
      wire_of (c_u64 C) (of_nat (length (Message_wire C (message m)))) @
      Message_wire C (message m) @ batch_wire C (channel m) post"
    have rest: "?rest = 0 # ?tail" using True Cons.prems(4) by simp
    have "decode (c_u64 C) (0 # ?tail) = Ok (0, ?tail)"
      using U.dec_image [of 0 ?tail] by (simp add: wire_u64_zero)
    with step rest p(3) have "decode_batch_step C og_len ch ?buf = Ok (p, 0, ?tail)" by simp
    from decode_batch_step_Ok [OF buf this, of acc] Cons.prems(5) True
    have "decode_batch C og_len 0 ?tail (acc @ [p]) = Some (Ok (ms, rest))" by simp
    moreover have "?tail \<noteq> []" using wire_u64_pos [of "channel m"] by simp
    ultimately have "\<exists>x new. ms = (acc @ [p]) @ x # new \<and> channel x = 0"
      by (rule decode_batch_channel)
    then show ?thesis using True by simp
  next
    case False
    have sub: "sized_batch C (pre @ m # post)" "list_all (\<lambda>x. channel x = ch) pre"
      using Cons.prems by (simp_all add: sized_batch_def)
    have "hd ?rest \<noteq> 0"
      using batch_wire_first [OF sub(1), of ch] False sub(2) by (cases pre) simp_all
    with step p(3) have "decode_batch_step C og_len ch ?buf = Ok (p, ch, ?rest)" by simp
    from decode_batch_step_Ok [OF buf this, of acc] Cons.prems(5)
    have "decode_batch C og_len ch ?rest (acc @ [p]) = Some (Ok (ms, rest))" by simp
    from Cons.IH [OF sub(1) False sub(2) Cons.prems(4) this] show ?thesis by simp
  qed
qed simp

lemma vec_decode_batch:
  assumes "2 \<le> length ms" and "vec_decode C (frame C ms) = Some (Ok (ms', []))"
  shows "decode_batch C (length (frame C ms)) (channel (hd ms))
    (batch_wire C (channel (hd ms)) ms) [] = Some (Ok (ms', []))"
proof -
  let ?ch = "channel (hd ms)" and ?buf = "frame C ms"
  have buf: "?buf = 0 # 0 # wire_of (c_u64 C) ?ch @ batch_wire C ?ch ms"
    using assms(1) by (cases ms rule: remdups_adj.cases) simp_all
  have len: "3 \<le> length ?buf" using wire_u64_pos [of ?ch] by (simp add: buf Suc_le_eq)
  obtain r where r: "decode_batch C (length ?buf) ?ch (batch_wire C ?ch ms) [] = Some r"
    "r \<noteq> Panic" "\<forall>ms rest. r = Ok (ms, rest) \<longrightarrow> rest = []"
    using decode_batch_returns [of "length ?buf" ?ch "batch_wire C ?ch ms" "[]"] by blast
  have "decode_unframed_channel_messages C ?buf =
      Some (and_then r (\<lambda>(messages, b). Ok (messages, length ?buf - length b)))"
    using len r(1)
    by (simp add: decode_unframed_channel_messages_def buf take_array_enough U.dec_image)
  moreover have "?buf \<noteq> []" by (simp add: buf)
  ultimately show ?thesis using r assms(2)
    by (cases r) (auto simp: vec_decode_def vec_decode_loop.simps [of C ?buf]
        vec_decode_loop.simps [of C "[]"])
qed

lemma vec_decode_batch_iff:
  assumes "2 \<le> length ms" and "sized_batch C ms" and "list_all (\<lambda>m. channel m \<noteq> 0) ms"
  shows "vec_decode C (frame C ms) = Some (Ok (ms, [])) \<longleftrightarrow> single_channel ms"
proof
  assume dec: "vec_decode C (frame C ms) = Some (Ok (ms, []))"
  show "single_channel ms"
  proof (rule ccontr)
    let ?ch = "channel (hd ms)"
    let ?same = "\<lambda>m. channel m = ?ch"
    assume "\<not> single_channel ms"
    then have ne: "dropWhile ?same ms \<noteq> []" by (simp add: single_channel_def list_all_iff)
    then obtain m post where post: "dropWhile ?same ms = m # post"
      by (cases "dropWhile ?same ms") auto
    with hd_dropWhile [OF ne] have m: "\<not> ?same m" by simp
    define pre where "pre = takeWhile ?same ms"
    have ms: "ms = pre @ m # post" using post takeWhile_dropWhile_id [of ?same ms] by (simp add: pre_def)
    have "pre \<noteq> []" using assms(1) by (cases ms) (simp_all add: pre_def)
    moreover have "list_all ?same pre" unfolding pre_def list_all_iff by (blast dest: set_takeWhileD)
    ultimately obtain x new where "ms = pre @ x # new" "channel x = 0"
      using decode_batch_separator [of pre m post ?ch "length (frame C ms)" "[]" ms "[]"]
        vec_decode_batch [OF assms(1) dec] assms(2) m ms by auto
    with assms(3) show False by (simp add: list_all_iff)
  qed
next
  assume "single_channel ms"
  with assms(1,2) have "faithful_frame C ms"
    by (cases ms rule: remdups_adj.cases) (auto simp: faithful_frame_def single_channel_def)
  then show "vec_decode C (frame C ms) = Some (Ok (ms, []))" by (rule vec_decode_frame)
qed

end

end
