(* ===== verification/Environment.thy ===== *)
theory Environment
  imports Messages
begin

text \<open>
  What the protocol calls and does not implement: the encrypted, framed connection
  (\<open>hypercore_handshake::CipherTrait\<close>: \<open>Stream\<close>, \<open>Sink\<close>, keys and handshake hash) and the
  queues of the crate \<open>async_channel\<close> (the command queue, the outbound queue, one unbounded
  inbound queue per opened channel). All of it is a state of an arbitrary type \<open>'w\<close> and the
  functions of the record \<open>env\<close>; a \<open>poll\<close> returns its answer and the next state, and other
  tasks may have run in between. \<open>send(..).await\<close> is the answer of the send once it resolves, with
  the state at that time: on a queue that is full that is after others have taken items from it. \<open>AtomicBool\<close> cells shared through \<open>Arc\<close> are a store indexed
  by address (\<open>cells\<close>), since a channel and its handle alias one flag.
\<close>

section \<open>Types of the interface\<close>

text \<open>\<open>Command\<close> of \<open>src/protocol.rs\<close>, the element type of the command queue.\<close>

datatype Command =
    Command_Open bytes
  | Command_Close bytes
  | Command_SignalLocal string bytes

datatype cipher_event =
    HandshakePayload bytes
  | CipherMessage bytes
  | ErrStuff io_error

datatype try_send_error = Full | Closed

record 'w env =
  stream_poll_next :: "'w \<Rightarrow> cipher_event option poll \<times> 'w"
  sink_poll_ready :: "'w \<Rightarrow> (io_error + unit) poll \<times> 'w"
  sink_start_send :: "bytes \<Rightarrow> 'w \<Rightarrow> (io_error + unit) \<times> 'w"
  sink_poll_flush :: "'w \<Rightarrow> (io_error + unit) poll \<times> 'w"
  cipher_remote_public_key :: "'w \<Rightarrow> bytes option"
  cipher_local_public_key :: "'w \<Rightarrow> bytes"
  cipher_handshake_hash :: "'w \<Rightarrow> bytes option"
  cipher_is_initiator :: "'w \<Rightarrow> bool"
  command_rx_poll :: "'w \<Rightarrow> Command option poll \<times> 'w"
  outbound_rx_poll :: "'w \<Rightarrow> ChannelMessage list option poll \<times> 'w"
  command_tx_send :: "Command \<Rightarrow> 'w \<Rightarrow> bool \<times> 'w"
  outbound_tx_send :: "ChannelMessage list \<Rightarrow> 'w \<Rightarrow> bool \<times> 'w"
  channel_unbounded :: "'w \<Rightarrow> nat \<times> 'w"
  inbound_try_send :: "nat \<Rightarrow> message \<Rightarrow> 'w \<Rightarrow> (try_send_error + unit) \<times> 'w"
  inbound_rx_poll :: "nat \<Rightarrow> 'w \<Rightarrow> message option poll \<times> 'w"

section \<open>Shared atomic flags\<close>

record 'w sys =
  cells :: "bool list"
  world :: 'w

definition new_cell :: "'w sys \<Rightarrow> nat \<times> 'w sys" where
  "new_cell s = (length (cells s), s\<lparr>cells := cells s @ [False]\<rparr>)"

definition store_true :: "nat \<Rightarrow> 'w sys \<Rightarrow> 'w sys" where
  "store_true a s = s\<lparr>cells := (cells s)[a := True]\<rparr>"

definition load :: "nat \<Rightarrow> 'w sys \<Rightarrow> bool" where
  "load a s = (cells s ! a)"

lemma load_store_true:
  "a < length (cells s) \<Longrightarrow> load b (store_true a s) = (b = a \<or> load b s)"
  by (auto simp: load_def store_true_def nth_list_update)

lemma cells_store_true [simp]: "length (cells (store_true a s)) = length (cells s)"
  by (simp add: store_true_def)

text \<open>What any task can do to the flags: allocate new ones and set them. No code clears one.\<close>

definition cells_le :: "'w sys \<Rightarrow> 'w sys \<Rightarrow> bool" where
  "cells_le s s' \<longleftrightarrow> length (cells s) \<le> length (cells s') \<and>
     (\<forall>a < length (cells s). load a s \<longrightarrow> load a s')"

lemma cells_le_refl [simp, intro]: "cells_le s s"
  by (simp add: cells_le_def)

lemma cells_le_trans [trans]: "cells_le s t \<Longrightarrow> cells_le t u \<Longrightarrow> cells_le s u"
  by (auto simp: cells_le_def)

lemma cells_le_store_true [simp]: "cells_le s (store_true a s)"
  by (cases "a < length (cells s)") (auto simp: cells_le_def load_def store_true_def nth_list_update)

lemma cells_le_world [simp]: "cells_le s (t\<lparr>world := w\<rparr>) = cells_le s t"
  by (simp add: cells_le_def load_def)

lemma cells_le_append [simp]: "cells_le s (s\<lparr>cells := cells s @ xs\<rparr>)"
  by (simp add: cells_le_def load_def nth_append)

section \<open>Invariants of transition systems\<close>

text \<open>A component promises that its initial state satisfies its invariant and that each of its
  operations keeps it; its clients get the invariant in every reachable state.\<close>

locale invariant_system =
  fixes initial :: "'s \<Rightarrow> bool"
    and step :: "'s \<Rightarrow> 's \<Rightarrow> bool"
    and inv :: "'s \<Rightarrow> bool"
  assumes initial_inv: "initial s \<Longrightarrow> inv s"
    and step_inv: "inv s \<Longrightarrow> step s t \<Longrightarrow> inv t"
begin

lemma run_inv: "step\<^sup>*\<^sup>* s t \<Longrightarrow> inv s \<Longrightarrow> inv t"
  by (induction rule: rtranclp_induct) (auto intro: step_inv)

lemma reachable_inv: "initial s \<Longrightarrow> step\<^sup>*\<^sup>* s t \<Longrightarrow> inv t"
  using run_inv initial_inv by blast

end

end
