(* ===== verification/Handshake.thy ===== *)
theory Handshake
  imports Prelude
begin

text \<open>
  \<open>src/crypto/handshake.rs\<close>, \<open>src/util.rs\<close> and \<open>src/constants.rs\<close>: discovery keys and the
  capabilities by which a peer proves that it knows the key of a channel. The crates behind
  them are the fields of the record \<open>crypto\<close>: \<open>blake2b_mac key data\<close> is the 32-byte keyed
  BLAKE2b of the data fed by the successive \<open>update\<close> calls, \<open>None\<close> where
  \<open>new_with_salt_and_personal\<close> refuses the key length; \<open>hex_encode\<close> is the crate \<open>hex\<close>.
\<close>

record crypto =
  blake2b_mac :: "bytes \<Rightarrow> bytes \<Rightarrow> bytes option"
  hex_encode :: "bytes \<Rightarrow> string"

section \<open>Discovery keys\<close>

definition DISCOVERY_NS_BUF :: bytes where
  "DISCOVERY_NS_BUF = [104, 121, 112, 101, 114, 99, 111, 114, 101]"

definition PROTOCOL_NAME :: string where
  "PROTOCOL_NAME = ''hypercore/alpha''"

definition discovery_key :: "crypto \<Rightarrow> bytes \<Rightarrow> (io_error, bytes) outcome" where
  "discovery_key H key =
     and_then (unwrap (blake2b_mac H key DISCOVERY_NS_BUF)) (\<lambda>hash.
     if length hash = 32 then Ok hash else Panic)"

definition parse_key :: "bytes \<Rightarrow> (io_error, bytes) outcome" where
  "parse_key key =
     (if length key = 32 then Ok key
      else Err (IoError InvalidInput ''Key must be 32 bytes long''))"

section \<open>Capabilities\<close>

definition REPLICATE_INITIATOR :: bytes where
  "REPLICATE_INITIATOR =
     [0x51, 0x81, 0x2A, 0x2A, 0x35, 0x9B, 0x50, 0x36, 0x95, 0x36, 0x77, 0x5D, 0xF8, 0x9E, 0x18, 0xE4,
      0x77, 0x40, 0xF3, 0xDB, 0x72, 0xAC, 0xA, 0xE7, 0xB, 0x29, 0x59, 0x4C, 0x19, 0x4D, 0xC3, 0x16]"

definition REPLICATE_RESPONDER :: bytes where
  "REPLICATE_RESPONDER =
     [0x4, 0x38, 0x49, 0x2D, 0x2, 0x97, 0xC, 0xC1, 0x35, 0x28, 0xAC, 0x2, 0x62, 0xBC, 0xA0, 0x7,
      0x4E, 0x9, 0x26, 0x26, 0x2, 0x56, 0x86, 0x5A, 0xCC, 0xC0, 0xBF, 0x15, 0xBD, 0x79, 0x12, 0x7D]"

record HandshakeResult =
  hr_is_initiator :: bool
  hr_local_pubkey :: bytes
  hr_remote_pubkey :: bytes
  hr_handshake_hash :: bytes

definition from_pre_encrypted :: "bool \<Rightarrow> bytes \<Rightarrow> bytes \<Rightarrow> bytes \<Rightarrow> HandshakeResult" where
  "from_pre_encrypted init local_pubkey remote_pubkey hash =
     \<lparr>hr_is_initiator = init, hr_local_pubkey = local_pubkey,
      hr_remote_pubkey = remote_pubkey, hr_handshake_hash = hash\<rparr>"

definition replicate_capability ::
  "crypto \<Rightarrow> bool \<Rightarrow> bytes \<Rightarrow> bytes \<Rightarrow> (io_error, bytes) outcome"
where
  "replicate_capability H is_initiator key handshake_hash =
     (let seed = (if is_initiator then REPLICATE_INITIATOR else REPLICATE_RESPONDER)
      in unwrap (blake2b_mac H handshake_hash (seed @ key)))"

definition capability :: "crypto \<Rightarrow> HandshakeResult \<Rightarrow> bytes \<Rightarrow> (io_error, bytes option) outcome"
where
  "capability H hs key =
     and_then (replicate_capability H (hr_is_initiator hs) key (hr_handshake_hash hs))
       (\<lambda>c. Ok (Some c))"

definition remote_capability ::
  "crypto \<Rightarrow> HandshakeResult \<Rightarrow> bytes \<Rightarrow> (io_error, bytes option) outcome"
where
  "remote_capability H hs key =
     and_then (replicate_capability H (\<not> hr_is_initiator hs) key (hr_handshake_hash hs))
       (\<lambda>c. Ok (Some c))"

definition verify_remote_capability ::
  "crypto \<Rightarrow> HandshakeResult \<Rightarrow> bytes option \<Rightarrow> bytes \<Rightarrow> (io_error, unit) outcome"
where
  "verify_remote_capability H hs cap key =
     and_then (remote_capability H hs key) (\<lambda>expected_capability.
     case (cap, expected_capability) of
       (Some c1, Some c2) \<Rightarrow>
         if c1 = c2 then Ok ()
         else Err (IoError PermissionDenied ''Invalid remote channel capability'')
     | (None, None) \<Rightarrow>
         Err (IoError PermissionDenied ''Missing capabilities for verification'')
     | _ \<Rightarrow> Err (IoError PermissionDenied ''Invalid remote channel capability''))"

section \<open>What verification accepts\<close>

lemma seed_length: "length REPLICATE_INITIATOR = 32" "length REPLICATE_RESPONDER = 32"
  by (simp_all add: REPLICATE_INITIATOR_def REPLICATE_RESPONDER_def)

lemma seeds_differ: "REPLICATE_INITIATOR \<noteq> REPLICATE_RESPONDER"
  by (simp add: REPLICATE_INITIATOR_def REPLICATE_RESPONDER_def)

lemma seed_append_inj:
  "(if i then REPLICATE_INITIATOR else REPLICATE_RESPONDER) @ k =
   (if j then REPLICATE_INITIATOR else REPLICATE_RESPONDER) @ l \<longleftrightarrow> i = j \<and> k = l"
  using seeds_differ by (auto simp: append_eq_append_conv seed_length split: if_splits)

lemma verify_iff:
  "verify_remote_capability H hs cap key = Ok () \<longleftrightarrow>
   (\<exists>c. cap = Some c \<and>
      replicate_capability H (\<not> hr_is_initiator hs) key (hr_handshake_hash hs) = Ok c)"
  by (cases "replicate_capability H (\<not> hr_is_initiator hs) key (hr_handshake_hash hs)"; cases cap)
    (auto simp: verify_remote_capability_def remote_capability_def)

lemma verify_mutual:
  assumes "hr_handshake_hash a = hr_handshake_hash b"
    and "hr_is_initiator a \<noteq> hr_is_initiator b"
    and "capability H a key = Ok cap"
  shows "verify_remote_capability H b cap key = Ok ()"
proof -
  have "(\<not> hr_is_initiator b) = hr_is_initiator a" using assms(2) by blast
  then show ?thesis
    using assms(1,3) by (auto simp: verify_iff capability_def and_then_eq_Ok)
qed

text \<open>A capability accepted elsewhere than where it belongs is a collision of the MAC: the other
  role, key or session would have produced the same bytes.\<close>

definition capability_input :: "bool \<Rightarrow> bytes \<Rightarrow> bytes" where
  "capability_input initiator key = (if initiator then REPLICATE_INITIATOR else REPLICATE_RESPONDER) @ key"

lemma capability_binding:
  assumes "capability H a key = Ok (Some c)" and "verify_remote_capability H b (Some c) key' = Ok ()"
  shows "hr_is_initiator a \<noteq> hr_is_initiator b \<and> key = key' \<and>
      hr_handshake_hash a = hr_handshake_hash b \<or>
    (hr_handshake_hash a, capability_input (hr_is_initiator a) key) \<noteq>
      (hr_handshake_hash b, capability_input (\<not> hr_is_initiator b) key') \<and>
    blake2b_mac H (hr_handshake_hash a) (capability_input (hr_is_initiator a) key) = Some c \<and>
    blake2b_mac H (hr_handshake_hash b) (capability_input (\<not> hr_is_initiator b) key') = Some c"
proof -
  let ?d = capability_input
  have "blake2b_mac H (hr_handshake_hash a) (?d (hr_is_initiator a) key) = Some c"
    using assms(1)
    by (auto simp: capability_input_def capability_def replicate_capability_def Let_def and_then_eq_Ok)
  moreover have "blake2b_mac H (hr_handshake_hash b) (?d (\<not> hr_is_initiator b) key') = Some c"
    using assms(2) by (auto simp: capability_input_def verify_iff replicate_capability_def Let_def)
  moreover have "?d (hr_is_initiator a) key = ?d (\<not> hr_is_initiator b) key' \<longleftrightarrow>
      hr_is_initiator a \<noteq> hr_is_initiator b \<and> key = key'"
    unfolding seed_append_inj capability_input_def by blast
  ultimately show ?thesis by (metis prod.inject)
qed

lemma discovery_key_length: "discovery_key H key = Ok dk \<Longrightarrow> length dk = 32"
  by (auto simp: discovery_key_def and_then_eq_Ok split: if_splits)

section \<open>What the crates promise\<close>

text \<open>\<open>hex::encode\<close> loses nothing, and BLAKE2b accepts every non-empty key of at most 64 bytes and
  gives an output of the requested 32 bytes. A MAC is not assumed to be injective: where a
  property needs two MACs to differ, it says so of those two.\<close>

definition crypto_ok :: "crypto \<Rightarrow> bool" where
  "crypto_ok H \<longleftrightarrow> inj (hex_encode H) \<and>
     (\<forall>key dat. key \<noteq> [] \<longrightarrow> length key \<le> 64 \<longrightarrow> blake2b_mac H key dat \<noteq> None) \<and>
     (\<forall>key dat hash. blake2b_mac H key dat = Some hash \<longrightarrow> length hash = 32)"

locale crypto_lib =
  fixes H :: crypto
  assumes crypto: "crypto_ok H"
begin

lemma hex_inj: "inj (hex_encode H)"
  using crypto by (simp add: crypto_ok_def)

lemma mac_defined:
  "key \<noteq> [] \<Longrightarrow> length key \<le> 64 \<Longrightarrow> \<exists>hash. blake2b_mac H key dat = Some hash \<and> length hash = 32"
  using crypto unfolding crypto_ok_def by blast

lemma replicate_capability_length: "replicate_capability H i key hash = Ok c \<Longrightarrow> length c = 32"
  using crypto by (auto simp: crypto_ok_def replicate_capability_def Let_def)

lemma discovery_key_defined:
  "length key = 32 \<Longrightarrow> \<exists>dk. discovery_key H key = Ok dk \<and> length dk = 32"
  using mac_defined [of key DISCOVERY_NS_BUF] by (cases key) (auto simp: discovery_key_def)

lemma replicate_capability_defined:
  "hash \<noteq> [] \<Longrightarrow> length hash \<le> 64 \<Longrightarrow>
   \<exists>c. replicate_capability H i key hash = Ok c \<and> length c = 32"
  using mac_defined [of hash] by (auto simp: replicate_capability_def Let_def)

end

section \<open>A concrete instance\<close>

text \<open>Hexadecimal text as the crate \<open>hex\<close> writes it, and a 32-byte checksum in the place of the
  MAC, on which the hypotheses above can be evaluated.\<close>

definition hex_digit :: "nat \<Rightarrow> char" where
  "hex_digit n = ''0123456789abcdef'' ! n"

definition hex_byte :: "u8 \<Rightarrow> string" where
  "hex_byte b = [hex_digit (unat b div 16), hex_digit (unat b mod 16)]"

definition ref_hex :: "bytes \<Rightarrow> string" where
  "ref_hex bs = concat (map hex_byte bs)"

definition ref_mac :: "bytes \<Rightarrow> bytes \<Rightarrow> bytes option" where
  "ref_mac key dat =
     (if key = [] \<or> 64 < length key then None
      else Some (foldl (\<lambda>acc b. tl acc @ [3 * hd acc + b]) (take 32 (key @ replicate 32 0)) dat))"

definition ref_crypto :: crypto where
  "ref_crypto = \<lparr>blake2b_mac = ref_mac, hex_encode = ref_hex\<rparr>"

lemma hex_digit_inj: "m < 16 \<Longrightarrow> n < 16 \<Longrightarrow> hex_digit m = hex_digit n \<Longrightarrow> m = n"
  unfolding hex_digit_def
  by (subst (asm) nth_eq_iff_index_eq) simp_all

lemma hex_byte_inj: "hex_byte a = hex_byte b \<Longrightarrow> a = b"
proof -
  assume eq: "hex_byte a = hex_byte b"
  have lt: "unat x div 16 < 16" for x :: u8
    using unsigned_less [of x, where ?'a = nat] by (simp add: less_mult_imp_div_less)
  have "unat a div 16 = unat b div 16" "unat a mod 16 = unat b mod 16"
    using eq lt by (auto simp: hex_byte_def intro: hex_digit_inj)
  then have "unat a = unat b" by (metis div_mult_mod_eq)
  then show ?thesis by (simp only: word_unat_eq_iff)
qed

lemma ref_hex_inj: "ref_hex xs = ref_hex ys \<Longrightarrow> xs = ys"
proof (induction xs arbitrary: ys)
  case Nil
  then show ?case by (cases ys) (simp_all add: ref_hex_def hex_byte_def)
next
  case (Cons x xs)
  then obtain y ys' where ys: "ys = y # ys'"
    by (cases ys) (simp_all add: ref_hex_def hex_byte_def)
  with Cons.prems have "hex_byte x = hex_byte y" "ref_hex xs = ref_hex ys'"
    by (simp_all add: ref_hex_def hex_byte_def)
  with Cons.IH hex_byte_inj show ?case by (auto simp: ys)
qed

lemma ref_mac_length: "ref_mac key dat = Some h \<Longrightarrow> length h = 32"
proof -
  have "length (foldl (\<lambda>acc b. tl acc @ [3 * hd acc + b]) acc dat) = length acc"
    if "acc \<noteq> []" for acc :: bytes
    using that by (induction dat arbitrary: acc) auto
  then show "ref_mac key dat = Some h \<Longrightarrow> length h = 32"
    by (auto simp: ref_mac_def split: if_splits)
qed

lemma ref_crypto_ok: "crypto_ok ref_crypto"
proof -
  have "inj ref_hex" by (rule injI) (rule ref_hex_inj)
  moreover have "ref_mac key dat \<noteq> None" if "key \<noteq> []" "length key \<le> 64" for key dat
    using that by (simp add: ref_mac_def)
  ultimately show ?thesis by (simp add: crypto_ok_def ref_crypto_def ref_mac_length)
qed

interpretation ref_lib: crypto_lib ref_crypto
  by unfold_locales (rule ref_crypto_ok)

end
