(* ===== verification/Channels.thy ===== *)
theory Channels
  imports Environment Handshake
begin

text \<open>
  \<open>src/channels.rs\<close>: the channel handed to the application, the handle the protocol keeps
  for it, and the map of open channels with its two id tables. \<open>Drop for ChannelHandle\<close>
  (setting the shared flag) happens where a handle leaves the map. \<open>HashMap\<close> is a partial
  function; its iteration order is not modelled (\<open>iter\<close> gives a set).
\<close>

section \<open>\<open>Channel\<close>\<close>

record Channel =
  inbound_rx :: "nat option"
  direct_inbound_tx :: nat
  ch_key :: bytes
  ch_discovery_key :: bytes
  ch_local_id :: nat
  ch_closed :: nat

definition Channel_eq :: "Channel \<Rightarrow> Channel \<Rightarrow> bool" where
  "Channel_eq a b \<longleftrightarrow> ch_key a = ch_key b \<and> ch_discovery_key a = ch_discovery_key b \<and>
     ch_local_id a = ch_local_id b"

definition Channel_new :: "nat option \<Rightarrow> nat \<Rightarrow> bytes \<Rightarrow> bytes \<Rightarrow> nat \<Rightarrow> nat \<Rightarrow> Channel" where
  "Channel_new rx tx dk key lid cl =
     \<lparr>inbound_rx = rx, direct_inbound_tx = tx, ch_key = key, ch_discovery_key = dk,
      ch_local_id = lid, ch_closed = cl\<rparr>"

definition closed :: "Channel \<Rightarrow> 'w sys \<Rightarrow> bool" where
  "closed ch s = load (ch_closed ch) s"

definition map_channel_err :: "bool \<Rightarrow> (io_error, unit) outcome" where
  "map_channel_err sent =
     (if sent then Ok () else Err (IoError BrokenPipe ''Cannot forward on channel''))"

definition send :: "'w env \<Rightarrow> Channel \<Rightarrow> message \<Rightarrow> 'w sys \<Rightarrow> (io_error, unit) outcome \<times> 'w sys"
where
  "send E ch m s =
     (if closed ch s then (Err (IoError ConnectionAborted ''Channel is closed''), s)
      else (let (sent, w) = outbound_tx_send E [ChannelMessage_new (of_nat (ch_local_id ch)) m]
              (world s)
            in (map_channel_err sent, s\<lparr>world := w\<rparr>)))"

text \<open>\<open>send_batch\<close> reads the flag when it is called, and sends when the future is polled; the two
  parts are one step here when nothing runs in between.\<close>

definition send_batch ::
  "'w env \<Rightarrow> Channel \<Rightarrow> message list \<Rightarrow> 'w sys \<Rightarrow> (io_error, unit) outcome \<times> 'w sys"
where
  "send_batch E ch ms s =
     (if closed ch s then (Err (IoError ConnectionAborted ''Channel is closed''), s)
      else (let (sent, w) = outbound_tx_send E
                (map (ChannelMessage_new (of_nat (ch_local_id ch))) ms) (world s)
            in (map_channel_err sent, s\<lparr>world := w\<rparr>)))"

definition take_receiver :: "Channel \<Rightarrow> nat option \<times> Channel" where
  "take_receiver ch = (inbound_rx ch, ch\<lparr>inbound_rx := None\<rparr>)"

definition local_sender :: "Channel \<Rightarrow> nat" where
  "local_sender ch = direct_inbound_tx ch"

definition close :: "'w env \<Rightarrow> Channel \<Rightarrow> 'w sys \<Rightarrow> (io_error, unit) outcome \<times> 'w sys" where
  "close E ch s =
     (if closed ch s then (Ok (), s)
      else (case send E ch (Close \<lparr>close_channel = of_nat (ch_local_id ch)\<rparr>) s of
          (Ok _, s) \<Rightarrow> (Ok (), store_true (ch_closed ch) s)
        | (Err e, s) \<Rightarrow> (Err e, s)
        | (Panic, s) \<Rightarrow> (Panic, s)))"

definition signal_local_protocol ::
  "'w env \<Rightarrow> Channel \<Rightarrow> string \<Rightarrow> bytes \<Rightarrow> 'w sys \<Rightarrow> (io_error, unit) outcome \<times> 'w sys"
where
  "signal_local_protocol E ch nm dat s = send E ch (LocalSignal nm dat) s"

definition Channel_poll_next ::
  "'w env \<Rightarrow> Channel \<Rightarrow> 'w sys \<Rightarrow> message option poll \<times> 'w sys"
where
  "Channel_poll_next E ch s =
     (case inbound_rx ch of
        None \<Rightarrow> (Ready None, s)
      | Some rx \<Rightarrow> (let (p, w) = inbound_rx_poll E rx (world s) in (p, s\<lparr>world := w\<rparr>)))"

section \<open>\<open>ChannelHandle\<close>\<close>

record LocalState =
  ls_key :: bytes
  ls_local_id :: nat

record RemoteState =
  rs_remote_id :: nat
  rs_remote_capability :: "bytes option"

record ChannelHandle =
  h_discovery_key :: bytes
  h_local_state :: "LocalState option"
  h_remote_state :: "RemoteState option"
  h_inbound_tx :: "nat option"
  h_closed :: nat

definition ChannelHandle_new :: "bytes \<Rightarrow> 'w sys \<Rightarrow> ChannelHandle \<times> 'w sys" where
  "ChannelHandle_new dk s =
     (let (a, s) = new_cell s
      in (\<lparr>h_discovery_key = dk, h_local_state = None, h_remote_state = None,
           h_inbound_tx = None, h_closed = a\<rparr>, s))"

definition handle_attach_local :: "nat \<Rightarrow> bytes \<Rightarrow> ChannelHandle \<Rightarrow> ChannelHandle" where
  "handle_attach_local lid key h = h\<lparr>h_local_state := Some \<lparr>ls_key = key, ls_local_id = lid\<rparr>\<rparr>"

definition handle_attach_remote :: "nat \<Rightarrow> bytes option \<Rightarrow> ChannelHandle \<Rightarrow> ChannelHandle" where
  "handle_attach_remote rid cap h =
     h\<lparr>h_remote_state := Some \<lparr>rs_remote_id = rid, rs_remote_capability = cap\<rparr>\<rparr>"

definition new_local :: "nat \<Rightarrow> bytes \<Rightarrow> bytes \<Rightarrow> 'w sys \<Rightarrow> ChannelHandle \<times> 'w sys" where
  "new_local lid dk key s =
     (let (this, s) = ChannelHandle_new dk s in (handle_attach_local lid key this, s))"

definition new_remote ::
  "nat \<Rightarrow> bytes \<Rightarrow> bytes option \<Rightarrow> 'w sys \<Rightarrow> ChannelHandle \<times> 'w sys"
where
  "new_remote rid dk cap s =
     (let (this, s) = ChannelHandle_new dk s in (handle_attach_remote rid cap this, s))"

definition handle_local_id :: "ChannelHandle \<Rightarrow> nat option" where
  "handle_local_id h = map_option ls_local_id (h_local_state h)"

definition handle_remote_id :: "ChannelHandle \<Rightarrow> nat option" where
  "handle_remote_id h = map_option rs_remote_id (h_remote_state h)"

definition is_connected :: "ChannelHandle \<Rightarrow> bool" where
  "is_connected h \<longleftrightarrow> h_local_state h \<noteq> None \<and> h_remote_state h \<noteq> None"

definition handle_prepare_to_verify ::
  "ChannelHandle \<Rightarrow> (io_error, bytes \<times> bytes option) outcome"
where
  "handle_prepare_to_verify h =
     (if \<not> is_connected h
      then Err (IoError Other ''Channel is not opened from both local and remote'')
      else and_then (unwrap (h_local_state h)) (\<lambda>local_state.
        and_then (unwrap (h_remote_state h)) (\<lambda>remote_state.
        Ok (ls_key local_state, rs_remote_capability remote_state))))"

definition handle_open ::
  "'w env \<Rightarrow> ChannelHandle \<Rightarrow> 'w sys \<Rightarrow> (io_error, Channel \<times> ChannelHandle \<times> 'w sys) outcome"
where
  "handle_open E h s =
     and_then (unwrap (h_local_state h)) (\<lambda>local_state.
     let (inbound, w) = channel_unbounded E (world s);
         channel = Channel_new (Some inbound) inbound (h_discovery_key h) (ls_key local_state)
           (ls_local_id local_state) (h_closed h)
     in Ok (channel, h\<lparr>h_inbound_tx := Some inbound\<rparr>, s\<lparr>world := w\<rparr>))"

definition try_send_inbound ::
  "'w env \<Rightarrow> ChannelHandle \<Rightarrow> message \<Rightarrow> 'w sys \<Rightarrow> (io_error, unit) outcome \<times> 'w sys"
where
  "try_send_inbound E h m s =
     (case h_inbound_tx h of
        Some inbound_tx \<Rightarrow>
          (case inbound_try_send E inbound_tx m (world s) of
             (Inr _, w) \<Rightarrow> (Ok (), s\<lparr>world := w\<rparr>)
           | (Inl _, w) \<Rightarrow> (Err (IoError Other ''Sending to channel failed''), s\<lparr>world := w\<rparr>))
      | None \<Rightarrow> (Err (IoError Other ''Channel is not open''), s))"

definition try_send_inbound_tolerate_closed ::
  "'w env \<Rightarrow> ChannelHandle \<Rightarrow> message \<Rightarrow> 'w sys \<Rightarrow> (io_error, unit) outcome \<times> 'w sys"
where
  "try_send_inbound_tolerate_closed E h m s =
     (case h_inbound_tx h of
        Some inbound_tx \<Rightarrow>
          (case inbound_try_send E inbound_tx m (world s) of
             (Inr _, w) \<Rightarrow> (Ok (), s\<lparr>world := w\<rparr>)
           | (Inl Full, w) \<Rightarrow> (Err (IoError Other ''Sending to channel failed''), s\<lparr>world := w\<rparr>)
           | (Inl Closed, w) \<Rightarrow> (Ok (), s\<lparr>world := w\<rparr>))
      | None \<Rightarrow> (Ok (), s))"

section \<open>\<open>ChannelMap\<close>\<close>

record ChannelMap =
  channels :: "string \<Rightarrow> ChannelHandle option"
  local_id :: "string option list"
  remote_id :: "string option list"

definition ChannelMap_new :: ChannelMap where
  "ChannelMap_new = \<lparr>channels = Map.empty, local_id = [None], remote_id = []\<rparr>"

text \<open>\<open>Iterator::position\<close>.\<close>

fun position :: "('a \<Rightarrow> bool) \<Rightarrow> 'a list \<Rightarrow> nat option" where
  "position P [] = None"
| "position P (x # xs) = (if P x then Some 0 else map_option Suc (position P xs))"

definition alloc_local :: "ChannelMap \<Rightarrow> nat \<times> ChannelMap" where
  "alloc_local m =
     (case map_option (\<lambda>p. p + 1) (position (\<lambda>x. x = None) (drop 1 (local_id m))) of
        Some empty_id \<Rightarrow> (empty_id, m)
      | None \<Rightarrow>
          (let m = m\<lparr>local_id := local_id m @ [None]\<rparr> in (length (local_id m) - 1, m)))"

text \<open>The largest vector of \<open>Option<String>\<close>, an element of 24 bytes: \<open>Vec\<close> panics ("capacity
  overflow") rather than hold more than \<open>isize::MAX\<close> bytes. Below it the allocation is taken to
  succeed. For the largest \<open>usize\<close> already \<open>id + 1\<close> overflows: a panic where overflow is
  checked; where it wraps, the table is truncated and the caller's index panics.\<close>

definition vec_max_len :: nat where
  "vec_max_len = (2 ^ 63 - 1) div 24"

text \<open>The comparison over binary integers, for evaluation.\<close>

lemma vec_max_len_unfold [code_unfold]:
  "i + 1 \<le> vec_max_len \<longleftrightarrow> int i + 1 \<le> 384307168202282325"
  by (simp add: vec_max_len_def)

definition alloc_remote :: "nat \<Rightarrow> ChannelMap \<Rightarrow> (io_error, ChannelMap) outcome" where
  "alloc_remote i m =
     (if length (remote_id m) > i
      then and_then (vec_set (remote_id m) i None) (\<lambda>r. Ok (m\<lparr>remote_id := r\<rparr>))
      else if i + 1 \<le> vec_max_len
      then Ok (m\<lparr>remote_id := remote_id m @ replicate (i + 1 - length (remote_id m)) None\<rparr>)
      else Panic)"

definition attach_local ::
  "crypto \<Rightarrow> bytes \<Rightarrow> ChannelMap \<Rightarrow> 'w sys
   \<Rightarrow> (io_error, ChannelHandle \<times> ChannelMap \<times> 'w sys) outcome"
where
  "attach_local H key m s =
     and_then (discovery_key H key) (\<lambda>dk.
     let hdkey = hex_encode H dk;
         (lid, m) = alloc_local m;
         (h, s) = (case channels m hdkey of
             Some h \<Rightarrow> (handle_attach_local lid key h, s)
           | None \<Rightarrow> new_local lid dk key s);
         m = m\<lparr>channels := (channels m)(hdkey \<mapsto> h)\<rparr>
     in and_then (vec_set (local_id m) lid (Some hdkey)) (\<lambda>l.
        let m = m\<lparr>local_id := l\<rparr>
        in and_then (unwrap (channels m hdkey)) (\<lambda>h. Ok (h, m, s))))"

definition attach_remote ::
  "crypto \<Rightarrow> bytes \<Rightarrow> nat \<Rightarrow> bytes option \<Rightarrow> ChannelMap \<Rightarrow> 'w sys
   \<Rightarrow> (io_error, ChannelHandle \<times> ChannelMap \<times> 'w sys) outcome"
where
  "attach_remote H dk rid cap m s =
     (let hdkey = hex_encode H dk
      in and_then (alloc_remote rid m) (\<lambda>m.
         let (h, s) = (case channels m hdkey of
                 Some h \<Rightarrow> (handle_attach_remote rid cap h, s)
               | None \<Rightarrow> new_remote rid dk cap s);
             m = m\<lparr>channels := (channels m)(hdkey \<mapsto> h)\<rparr>
         in and_then (vec_set (remote_id m) rid (Some hdkey)) (\<lambda>r.
            let m = m\<lparr>remote_id := r\<rparr>
            in and_then (unwrap (channels m hdkey)) (\<lambda>h. Ok (h, m, s)))))"

definition get_remote :: "nat \<Rightarrow> ChannelMap \<Rightarrow> ChannelHandle option" where
  "get_remote i m =
     (case vec_get (remote_id m) i of Some (Some hdkey) \<Rightarrow> channels m hdkey | _ \<Rightarrow> None)"

definition get_local :: "nat \<Rightarrow> ChannelMap \<Rightarrow> ChannelHandle option" where
  "get_local i m =
     (case vec_get (local_id m) i of Some (Some hdkey) \<Rightarrow> channels m hdkey | _ \<Rightarrow> None)"

text \<open>\<open>get_remote_mut\<close> and \<open>get_local_mut\<close>: the handle and the key under which a changed handle is put back.\<close>

definition get_remote_mut :: "nat \<Rightarrow> ChannelMap \<Rightarrow> (string \<times> ChannelHandle) option" where
  "get_remote_mut i m =
     (case vec_get (remote_id m) i of
        Some (Some hdkey) \<Rightarrow> map_option (Pair hdkey) (channels m hdkey)
      | _ \<Rightarrow> None)"

definition get_local_mut :: "nat \<Rightarrow> ChannelMap \<Rightarrow> (string \<times> ChannelHandle) option" where
  "get_local_mut i m =
     (case vec_get (local_id m) i of
        Some (Some hdkey) \<Rightarrow> map_option (Pair hdkey) (channels m hdkey)
      | _ \<Rightarrow> None)"

definition has_channel :: "crypto \<Rightarrow> bytes \<Rightarrow> ChannelMap \<Rightarrow> bool" where
  "has_channel H dk m = (channels m (hex_encode H dk) \<noteq> None)"

definition remove ::
  "crypto \<Rightarrow> bytes \<Rightarrow> ChannelMap \<Rightarrow> 'w sys \<Rightarrow> (io_error, ChannelMap \<times> 'w sys) outcome"
where
  "remove H dk m s =
     (let hdkey = hex_encode H dk in
      case channels m hdkey of
        None \<Rightarrow> Ok (m\<lparr>channels := (channels m)(hdkey := None)\<rparr>, s)
      | Some h \<Rightarrow>
          and_then
            (case handle_local_id h of
               Some i \<Rightarrow> and_then (vec_set (local_id m) i None) (\<lambda>l. Ok (m\<lparr>local_id := l\<rparr>))
             | None \<Rightarrow> Ok m) (\<lambda>m.
          and_then
            (case handle_remote_id h of
               Some i \<Rightarrow> and_then (vec_set (remote_id m) i None) (\<lambda>r. Ok (m\<lparr>remote_id := r\<rparr>))
             | None \<Rightarrow> Ok m) (\<lambda>m.
          Ok (m\<lparr>channels := (channels m)(hdkey := None)\<rparr>, store_true (h_closed h) s))))"

definition prepare_to_verify ::
  "nat \<Rightarrow> ChannelMap \<Rightarrow> (io_error, bytes \<times> bytes option) outcome"
where
  "prepare_to_verify lid m =
     and_then (ok_or (IoError Other ''Channel not found'') (get_local lid m))
       handle_prepare_to_verify"

definition accept ::
  "'w env \<Rightarrow> nat \<Rightarrow> ChannelMap \<Rightarrow> 'w sys
   \<Rightarrow> (io_error, Channel \<times> ChannelMap \<times> 'w sys) outcome"
where
  "accept E lid m s =
     and_then (ok_or (IoError Other ''Channel not found'') (get_local_mut lid m)) (\<lambda>(hdkey, h).
     if \<not> is_connected h then Err (IoError Other ''Channel is not opened from remote'')
     else and_then (handle_open E h s) (\<lambda>(channel, h, s).
       Ok (channel, m\<lparr>channels := (channels m)(hdkey \<mapsto> h)\<rparr>, s)))"

definition forward_inbound_message ::
  "'w env \<Rightarrow> nat \<Rightarrow> message \<Rightarrow> ChannelMap \<Rightarrow> 'w sys \<Rightarrow> (io_error, unit) outcome \<times> 'w sys"
where
  "forward_inbound_message E rid msg m s =
     (case get_remote_mut rid m of
        Some (_, h) \<Rightarrow> try_send_inbound E h msg s
      | None \<Rightarrow> (Ok (), s))"

definition forward_inbound_message_tolerate_closed ::
  "'w env \<Rightarrow> nat \<Rightarrow> message \<Rightarrow> ChannelMap \<Rightarrow> 'w sys \<Rightarrow> (io_error, unit) outcome \<times> 'w sys"
where
  "forward_inbound_message_tolerate_closed E rid msg m s =
     (case get_remote_mut rid m of
        Some (_, h) \<Rightarrow> try_send_inbound_tolerate_closed E h msg s
      | None \<Rightarrow> (Ok (), s))"

lemma get_remote_mut_case [simp]:
  "(case get_remote_mut i m of Some (_, h) \<Rightarrow> f h | None \<Rightarrow> g) =
   (case get_remote i m of Some h \<Rightarrow> f h | None \<Rightarrow> g)"
  by (simp add: get_remote_mut_def get_remote_def split: option.split)

definition iter :: "ChannelMap \<Rightarrow> ChannelHandle set" where
  "iter m = ran (channels m)"

section \<open>Allocation of local ids\<close>

lemma position_Some:
  "position P xs = Some i \<longleftrightarrow> i < length xs \<and> P (xs ! i) \<and> (\<forall>j<i. \<not> P (xs ! j))"
proof (induction xs arbitrary: i)
  case (Cons x xs)
  show ?case
  proof (cases i)
    case 0
    then show ?thesis by auto
  next
    case (Suc n)
    then show ?thesis using Cons.IH [of n] by (auto simp: All_less_Suc2)
  qed
qed simp

lemma position_None: "position P xs = None \<longleftrightarrow> (\<forall>x\<in>set xs. \<not> P x)"
  by (induction xs) auto

text \<open>The id is the least free one from 1 on; the tables change at that slot only.\<close>

lemma alloc_local_spec:
  assumes "local_id m \<noteq> []" and "alloc_local m = (i, m')"
  shows "0 < i" and "vec_get (local_id m) i \<in> {None, Some None}"
    and "vec_get (local_id m') i = Some None"
    and "\<And>j. j \<noteq> i \<Longrightarrow> vec_get (local_id m') j = vec_get (local_id m) j"
    and "channels m' = channels m" and "remote_id m' = remote_id m"
    and "\<And>j. 0 < j \<Longrightarrow> j < i \<Longrightarrow> \<exists>k. vec_get (local_id m) j = Some (Some k)"
proof -
  have *: "0 < i \<and> vec_get (local_id m) i \<in> {None, Some None} \<and> vec_get (local_id m') i = Some None
    \<and> (\<forall>j. j \<noteq> i \<longrightarrow> vec_get (local_id m') j = vec_get (local_id m) j)
    \<and> channels m' = channels m \<and> remote_id m' = remote_id m
    \<and> (\<forall>j. 0 < j \<longrightarrow> j < i \<longrightarrow> (\<exists>k. vec_get (local_id m) j = Some (Some k)))"
  proof (cases "position (\<lambda>x. x = None) (drop 1 (local_id m))")
    case None
    then have "\<forall>x \<in> set (tl (local_id m)). x \<noteq> None" by (simp add: position_None drop_Suc)
    then have "\<exists>k. local_id m ! j = Some k" if "0 < j" "j < length (local_id m)" for j
      using that assms(1) by (cases j) (force simp: nth_tl in_set_conv_nth neq_Nil_conv)+
    then show ?thesis
      using None assms by (auto simp: alloc_local_def vec_get_def nth_append Let_def)
  next
    case (Some p)
    then have p: "p < length (local_id m) - 1" "local_id m ! Suc p = None"
      "\<forall>j<p. local_id m ! Suc j \<noteq> None"
      by (auto simp: position_Some)
    moreover have "\<exists>k. local_id m ! j = Some k" if "0 < j" "j < Suc p" for j
      using that p(3) by (cases j) auto
    ultimately show ?thesis
      using Some assms by (auto simp: alloc_local_def vec_get_def)
  qed
  then show "0 < i" "vec_get (local_id m) i \<in> {None, Some None}"
    "vec_get (local_id m') i = Some None"
    "\<And>j. j \<noteq> i \<Longrightarrow> vec_get (local_id m') j = vec_get (local_id m) j"
    "channels m' = channels m" "remote_id m' = remote_id m"
    "\<And>j. 0 < j \<Longrightarrow> j < i \<Longrightarrow> \<exists>k. vec_get (local_id m) j = Some (Some k)"
    by blast+
qed

lemma vec_set_Ok: "vec_get xs i = Some y \<Longrightarrow> vec_set xs i x = Ok (xs[i := x])"
  by (simp add: vec_set_def vec_get_def split: if_splits)

section \<open>The operations, on every branch\<close>

text \<open>The handle that \<open>attach_local\<close> and \<open>attach_remote\<close> store, and the cells afterwards.\<close>

definition local_handle :: "nat \<Rightarrow> bytes \<Rightarrow> bytes \<Rightarrow> ChannelHandle option \<Rightarrow> 'w sys \<Rightarrow> ChannelHandle" where
  "local_handle i dk key old s =
     (case old of
        Some h \<Rightarrow> handle_attach_local i key h
      | None \<Rightarrow> \<lparr>h_discovery_key = dk, h_local_state = Some \<lparr>ls_key = key, ls_local_id = i\<rparr>,
          h_remote_state = None, h_inbound_tx = None, h_closed = length (cells s)\<rparr>)"

definition remote_handle :: "nat \<Rightarrow> bytes \<Rightarrow> bytes option \<Rightarrow> ChannelHandle option \<Rightarrow> 'w sys \<Rightarrow> ChannelHandle" where
  "remote_handle i dk cap old s =
     (case old of
        Some h \<Rightarrow> handle_attach_remote i cap h
      | None \<Rightarrow> \<lparr>h_discovery_key = dk, h_local_state = None,
          h_remote_state = Some \<lparr>rs_remote_id = i, rs_remote_capability = cap\<rparr>,
          h_inbound_tx = None, h_closed = length (cells s)\<rparr>)"

definition attach_sys :: "ChannelHandle option \<Rightarrow> 'w sys \<Rightarrow> 'w sys" where
  "attach_sys old s = (if old = None then s\<lparr>cells := cells s @ [False]\<rparr> else s)"

lemma attach_local_run:
  fixes s :: "'w sys"
  assumes "local_id m \<noteq> []" and "discovery_key H key = Ok dk" and "alloc_local m = (i, m1)"
  defines "k \<equiv> hex_encode H dk"
  defines "h \<equiv> local_handle i dk key (channels m k) s"
  shows "attach_local H key m s =
    Ok (h, m1\<lparr>channels := (channels m)(k \<mapsto> h), local_id := (local_id m1)[i := Some k]\<rparr>,
      attach_sys (channels m k) s)"
  using alloc_local_spec(3,5) [OF assms(1,3)] assms(2,3)
  by (cases "channels m k")
    (simp_all add: attach_local_def k_def h_def local_handle_def attach_sys_def vec_set_Ok Let_def
      new_local_def ChannelHandle_new_def new_cell_def handle_attach_local_def)

lemma attach_remote_run:
  fixes s :: "'w sys" and cap :: "bytes option" and dk :: bytes and H :: crypto
  assumes "i + 1 \<le> vec_max_len \<or> i < length (remote_id m)"
  defines "k \<equiv> hex_encode H dk"
  defines "h \<equiv> remote_handle i dk cap (channels m k) s"
  shows "\<exists>r. attach_remote H dk i cap m s =
      Ok (h, m\<lparr>channels := (channels m)(k \<mapsto> h), remote_id := r\<rparr>, attach_sys (channels m k) s) \<and>
    length r = max (length (remote_id m)) (i + 1) \<and>
    (\<forall>j. vec_get r j = (if j = i then Some (Some k)
       else if j < length (remote_id m) then vec_get (remote_id m) j
       else if j < i then Some None else None))"
proof -
  define r where "r = (if i < length (remote_id m) then remote_id m
    else remote_id m @ replicate (i + 1 - length (remote_id m)) None)[i := Some k]"
  have i: "i < length (if i < length (remote_id m) then remote_id m
    else remote_id m @ replicate (i + 1 - length (remote_id m)) None)" by simp
  have "attach_remote H dk i cap m s =
      Ok (h, m\<lparr>channels := (channels m)(k \<mapsto> h), remote_id := r\<rparr>, attach_sys (channels m k) s)"
    using i assms(1) by (cases "channels m k"; cases "i < length (remote_id m)")
      (simp_all add: attach_remote_def k_def h_def r_def remote_handle_def attach_sys_def vec_set_def
        new_remote_def ChannelHandle_new_def new_cell_def handle_attach_remote_def
        alloc_remote_def Let_def)
  moreover have "length r = max (length (remote_id m)) (i + 1)" by (simp add: r_def max_def)
  moreover have "\<forall>j. vec_get r j = (if j = i then Some (Some k)
       else if j < length (remote_id m) then vec_get (remote_id m) j
       else if j < i then Some None else None)"
    by (auto simp: r_def vec_get_def nth_list_update nth_append)
  ultimately show ?thesis by blast
qed

lemma attach_remote_overflow:
  assumes "\<not> (i + 1 \<le> vec_max_len \<or> i < length (remote_id m))"
  shows "attach_remote H dk i cap m s = Panic"
  using assms by (simp add: attach_remote_def alloc_remote_def)

section \<open>The invariant of the map\<close>

definition handle_inv ::
  "crypto \<Rightarrow> string option list \<Rightarrow> string option list \<Rightarrow> nat \<Rightarrow> string \<Rightarrow> ChannelHandle \<Rightarrow> bool"
where
  "handle_inv H lids rids ncells k h \<longleftrightarrow>
     k = hex_encode H (h_discovery_key h) \<and> length (h_discovery_key h) = 32 \<and>
     (\<forall>ls. h_local_state h = Some ls \<longrightarrow>
        ls_local_id ls \<noteq> 0 \<and> vec_get lids (ls_local_id ls) = Some (Some k) \<and>
        discovery_key H (ls_key ls) = Ok (h_discovery_key h)) \<and>
     (\<forall>rs. h_remote_state h = Some rs \<longrightarrow> rs_remote_id rs < length rids) \<and>
     (h_local_state h \<noteq> None \<or> h_remote_state h \<noteq> None) \<and>
     (h_inbound_tx h \<noteq> None \<longrightarrow> is_connected h) \<and>
     h_closed h < ncells"

definition cm_inv :: "crypto \<Rightarrow> ChannelMap \<times> 'w sys \<Rightarrow> bool" where
  "cm_inv H = (\<lambda>(m, s).
     vec_get (local_id m) 0 = Some None \<and>
     (\<forall>k h. channels m k = Some h \<longrightarrow>
        handle_inv H (local_id m) (remote_id m) (length (cells s)) k h) \<and>
     (\<forall>k k' h h'. channels m k = Some h \<longrightarrow> channels m k' = Some h' \<longrightarrow>
        h_closed h = h_closed h' \<longrightarrow> k = k'))"

lemma cm_inv_new: "cm_inv H (ChannelMap_new, s)"
  by (simp add: cm_inv_def ChannelMap_new_def vec_get_def)

lemma cm_inv_handle:
  "cm_inv H (m, s) \<Longrightarrow> channels m k = Some h \<Longrightarrow>
   handle_inv H (local_id m) (remote_id m) (length (cells s)) k h"
  by (simp add: cm_inv_def)

lemma cm_inv_local_ids: "cm_inv H (m, s) \<Longrightarrow> local_id m \<noteq> []"
  by (auto simp: cm_inv_def vec_get_def split: if_splits)

lemma cm_inv_closed:
  "cm_inv H (m, s) \<Longrightarrow> channels m k = Some h \<Longrightarrow> channels m k' = Some h' \<Longrightarrow>
   h_closed h = h_closed h' \<Longrightarrow> k = k'"
  unfolding cm_inv_def by blast

lemma handle_inv_mono:
  assumes "handle_inv H lids rids n k h"
    and "\<And>i. vec_get lids i = Some (Some k) \<Longrightarrow> vec_get lids' i = Some (Some k)"
    and "length rids \<le> length rids'" and "n \<le> n'"
  shows "handle_inv H lids' rids' n' k h"
  using assms unfolding handle_inv_def by (meson order_less_le_trans)

text \<open>Inserting a handle: the shared part of the two \<open>attach\<close> operations.\<close>

lemma cm_inv_insert:
  assumes inv: "cm_inv H (m, s)"
    and "vec_get (local_id m') 0 = Some None"
    and lids: "\<And>i k'. k' \<noteq> k \<Longrightarrow> vec_get (local_id m) i = Some (Some k') \<Longrightarrow>
          vec_get (local_id m') i = Some (Some k')"
    and rids: "length (remote_id m) \<le> length (remote_id m')"
    and chans: "channels m' = (channels m)(k \<mapsto> h)"
    and s': "s' = attach_sys (channels m k) s"
    and h: "handle_inv H (local_id m') (remote_id m') (length (cells s')) k h"
    and cl: "h_closed h = (case channels m k of Some h0 \<Rightarrow> h_closed h0 | None \<Rightarrow> length (cells s))"
  shows "cm_inv H (m', s')"
proof -
  have cells: "length (cells s) \<le> length (cells s')" by (simp add: s' attach_sys_def)
  have others: "handle_inv H (local_id m') (remote_id m') (length (cells s')) k' h'"
    if "channels m k' = Some h'" "k' \<noteq> k" for k' h'
    using handle_inv_mono [OF cm_inv_handle [OF inv that(1)] lids [OF that(2)] rids cells] .
  have less: "h_closed h' < length (cells s)" if "channels m k' = Some h'" for k' h'
    using cm_inv_handle [OF inv that] by (simp add: handle_inv_def)
  have diff: "h_closed h \<noteq> h_closed h'" if "channels m k' = Some h'" "k' \<noteq> k" for k' h'
    using cl less [OF that(1)] cm_inv_closed [OF inv _ that(1)] that(2)
    by (cases "channels m k") auto
  show ?thesis
    using assms(2) others h diff cm_inv_closed [OF inv] chans
    by (auto simp: cm_inv_def split: if_splits) (metis+)
qed

lemma handle_inv_local_id:
  "handle_inv H lids rids n k h \<Longrightarrow> handle_local_id h = Some i \<Longrightarrow>
   0 < i \<and> vec_get lids i = Some (Some k)"
  by (auto simp: handle_inv_def handle_local_id_def)

lemma handle_inv_remote_id:
  "handle_inv H lids rids n k h \<Longrightarrow> handle_remote_id h = Some i \<Longrightarrow> i < length rids"
  by (auto simp: handle_inv_def handle_remote_id_def)

text \<open>The handle stored by an \<open>attach\<close> operation.\<close>

lemma handle_inv_local_handle:
  assumes "inj (hex_encode H)" and "discovery_key H key = Ok dk" and "k = hex_encode H dk"
    and "\<And>h. old = Some h \<Longrightarrow> handle_inv H lids rids n k h"
    and "0 < i" and "vec_get lids' i = Some (Some k)" and "n \<le> n'"
    and "old = None \<Longrightarrow> length (cells s) < n'"
  shows "handle_inv H lids' rids n' k (local_handle i dk key old s)"
  using assms discovery_key_length [OF assms(2)]
  by (cases old)
    (auto simp: local_handle_def handle_inv_def handle_attach_local_def is_connected_def inj_eq
      intro: less_le_trans)

lemma handle_inv_remote_handle:
  assumes "inj (hex_encode H)" and "length dk = 32" and "k = hex_encode H dk"
    and "\<And>h. old = Some h \<Longrightarrow> handle_inv H lids rids n k h"
    and "i < length rids'" and "n \<le> n'" and "old = None \<Longrightarrow> length (cells s) < n'"
  shows "handle_inv H lids rids' n' k (remote_handle i dk cap old s)"
  using assms
  by (cases old)
    (auto simp: remote_handle_def handle_inv_def handle_attach_remote_def is_connected_def
      intro: less_le_trans)

lemma attach_local_OkE:
  assumes "attach_local H key m s = Ok (h, m', s')" and "local_id m \<noteq> []"
  obtains dk k i m1 where "discovery_key H key = Ok dk" and "k = hex_encode H dk"
    and "alloc_local m = (i, m1)" and "h = local_handle i dk key (channels m k) s"
    and "m' = m1\<lparr>channels := (channels m)(k \<mapsto> h), local_id := (local_id m1)[i := Some k]\<rparr>"
    and "s' = attach_sys (channels m k) s"
proof -
  from assms(1) obtain dk where dk: "discovery_key H key = Ok dk"
    by (auto simp: attach_local_def and_then_eq_Ok)
  obtain i m1 where i: "alloc_local m = (i, m1)" by fastforce
  show ?thesis
    using that [OF dk refl i] attach_local_run [OF assms(2) dk i, of s] assms(1) by simp
qed

lemma attach_remote_OkE:
  assumes "attach_remote H dk i cap m s = Ok (h, m', s')"
  obtains k r where "k = hex_encode H dk" and "h = remote_handle i dk cap (channels m k) s"
    and "m' = m\<lparr>channels := (channels m)(k \<mapsto> h), remote_id := r\<rparr>"
    and "length r = max (length (remote_id m)) (i + 1)"
    and "vec_get r i = Some (Some k)"
    and "\<And>j. j \<noteq> i \<Longrightarrow> j < length (remote_id m) \<Longrightarrow> vec_get r j = vec_get (remote_id m) j"
    and "s' = attach_sys (channels m k) s"
proof -
  have "i + 1 \<le> vec_max_len \<or> i < length (remote_id m)"
    using attach_remote_overflow [of i m H dk cap s] assms by (metis outcome.distinct(3))
  from attach_remote_run [OF this, of H dk cap s] obtain r where
    r: "attach_remote H dk i cap m s =
      Ok (remote_handle i dk cap (channels m (hex_encode H dk)) s,
        m\<lparr>channels := (channels m)(hex_encode H dk \<mapsto>
            remote_handle i dk cap (channels m (hex_encode H dk)) s), remote_id := r\<rparr>,
        attach_sys (channels m (hex_encode H dk)) s)"
    "length r = max (length (remote_id m)) (i + 1)"
    "\<forall>j. vec_get r j = (if j = i then Some (Some (hex_encode H dk))
       else if j < length (remote_id m) then vec_get (remote_id m) j
       else if j < i then Some None else None)" by blast
  show ?thesis using that [OF refl _ _ r(2)] r assms by simp
qed

lemma attach_local_ids:
  assumes "attach_local H key m s = Ok (h, m', s')" and "local_id m \<noteq> []"
    and "discovery_key H key = Ok dk"
  obtains i where "handle_local_id h = Some i" and "channels m' = (channels m)(hex_encode H dk \<mapsto> h)"
    and "0 < i" and "vec_get (local_id m) i \<in> {None, Some None}"
    and "\<And>j. vec_get (local_id m') j =
      (if j = i then Some (Some (hex_encode H dk)) else vec_get (local_id m) j)"
proof (rule attach_local_OkE [OF assms(1,2)])
  fix dk' k i m1
  assume a: "discovery_key H key = Ok dk'" "k = hex_encode H dk'" "alloc_local m = (i, m1)"
    "h = local_handle i dk' key (channels m k) s"
    "m' = m1\<lparr>channels := (channels m)(k \<mapsto> h), local_id := (local_id m1)[i := Some k]\<rparr>"
  note spec = alloc_local_spec [OF assms(2) a(3)]
  show thesis
  proof (rule that)
    show "handle_local_id h = Some i"
      using a(4) by (simp add: local_handle_def handle_local_id_def handle_attach_local_def split: option.split)
    show "channels m' = (channels m)(hex_encode H dk \<mapsto> h)" using a assms(3) by simp
    show "vec_get (local_id m') j =
      (if j = i then Some (Some (hex_encode H dk)) else vec_get (local_id m) j)" for j
      using a assms(3) spec(3,4) by (auto simp: vec_get_update vec_get_eq_Some)
  qed (use spec in simp_all)
qed

lemma attach_local_stored:
  assumes "attach_local H key m s = Ok (h, m', s')" and "local_id m \<noteq> []"
  shows "\<exists>k i. channels m' k = Some h \<and> handle_local_id h = Some i \<and> vec_get (local_id m') i = Some (Some k)"
proof -
  from assms(1) obtain dk where "discovery_key H key = Ok dk"
    by (auto simp: attach_local_def and_then_eq_Ok)
  then show ?thesis by (rule attach_local_ids [OF assms]) auto
qed

lemma attach_remote_stored:
  "attach_remote H dk i cap m s = Ok (h, m', s') \<Longrightarrow> channels m' (hex_encode H dk) = Some h"
  by (erule attach_remote_OkE) simp

lemma cm_inv_attach_local:
  assumes "inj (hex_encode H)" and "cm_inv H (m, s)"
    and "attach_local H key m s = Ok (h, m', s')"
  shows "cm_inv H (m', s')"
proof -
  note ids = cm_inv_local_ids [OF assms(2)]
  from attach_local_OkE [OF assms(3) ids]
  obtain dk k i m1 where dk: "discovery_key H key = Ok dk" and k: "k = hex_encode H dk"
    and i: "alloc_local m = (i, m1)" and h: "h = local_handle i dk key (channels m k) s"
    and m': "m' = m1\<lparr>channels := (channels m)(k \<mapsto> h), local_id := (local_id m1)[i := Some k]\<rparr>"
    and s': "s' = attach_sys (channels m k) s" by blast
  note spec = alloc_local_spec [OF ids i]
  have upd: "vec_get (local_id m') j = (if j = i then Some (Some k) else vec_get (local_id m) j)" for j
    using spec(3,4) by (auto simp: m' vec_get_update vec_get_eq_Some)
  show ?thesis
  proof (rule cm_inv_insert [OF assms(2) _ _ _ _ s'])
    show "vec_get (local_id m') 0 = Some None"
      using assms(2) spec(1) by (simp add: upd cm_inv_def)
    show "vec_get (local_id m') j = Some (Some k')"
      if "vec_get (local_id m) j = Some (Some k')" for j k'
      using spec(2) that by (auto simp: upd)
    show "length (remote_id m) \<le> length (remote_id m')" by (simp add: m' spec)
    show "channels m' = (channels m)(k \<mapsto> h)" by (simp add: m')
    show "handle_inv H (local_id m') (remote_id m') (length (cells s')) k h"
      unfolding h
      by (rule handle_inv_local_handle [OF assms(1) dk k, where lids = "local_id m"
            and n = "length (cells s)"])
        (use cm_inv_handle [OF assms(2)] spec upd in \<open>simp_all add: m' s' attach_sys_def\<close>)
    show "h_closed h = (case channels m k of Some h0 \<Rightarrow> h_closed h0 | None \<Rightarrow> length (cells s))"
      by (simp add: h local_handle_def handle_attach_local_def split: option.split)
  qed
qed

lemma cm_inv_attach_remote:
  assumes "inj (hex_encode H)" and "cm_inv H (m, s)" and "length dk = 32"
    and "attach_remote H dk i cap m s = Ok (h, m', s')"
  shows "cm_inv H (m', s')"
proof -
  from attach_remote_OkE [OF assms(4)]
  obtain k r where k: "k = hex_encode H dk" and h: "h = remote_handle i dk cap (channels m k) s"
    and m': "m' = m\<lparr>channels := (channels m)(k \<mapsto> h), remote_id := r\<rparr>"
    and r: "length r = max (length (remote_id m)) (i + 1)"
    and s': "s' = attach_sys (channels m k) s" by blast
  show ?thesis
  proof (rule cm_inv_insert [OF assms(2) _ _ _ _ s'])
    show "vec_get (local_id m') 0 = Some None" using assms(2) by (simp add: m' cm_inv_def)
    show "channels m' = (channels m)(k \<mapsto> h)" by (simp add: m')
    show "handle_inv H (local_id m') (remote_id m') (length (cells s')) k h"
      unfolding h
      by (rule handle_inv_remote_handle [OF assms(1,3) k, where rids = "remote_id m"
            and n = "length (cells s)"])
        (use cm_inv_handle [OF assms(2)] r in \<open>simp_all add: m' s' attach_sys_def\<close>)
    show "h_closed h = (case channels m k of Some h0 \<Rightarrow> h_closed h0 | None \<Rightarrow> length (cells s))"
      by (simp add: h remote_handle_def handle_attach_remote_def split: option.split)
  qed (simp_all add: m' r)
qed

text \<open>\<open>remove\<close> never indexes out of range in a state that satisfies the invariant.\<close>

lemma remove_run:
  assumes "cm_inv H (m, s)" and "channels m (hex_encode H dk) = Some h"
  shows "remove H dk m s =
    Ok (m\<lparr>channels := (channels m)(hex_encode H dk := None),
         local_id := (case handle_local_id h of Some i \<Rightarrow> (local_id m)[i := None] | None \<Rightarrow> local_id m),
         remote_id := (case handle_remote_id h of Some i \<Rightarrow> (remote_id m)[i := None] | None \<Rightarrow> remote_id m)\<rparr>,
       store_true (h_closed h) s)"
  using assms(2) handle_inv_local_id [OF cm_inv_handle [OF assms]]
    handle_inv_remote_id [OF cm_inv_handle [OF assms]]
  by (auto simp: remove_def vec_set_def vec_get_eq_Some split: option.split)

lemma remove_absent:
  "channels m (hex_encode H dk) = None \<Longrightarrow> remove H dk m s = Ok (m, s)"
  by (simp add: remove_def fun_upd_idem)

lemma cm_inv_remove:
  assumes inv: "cm_inv H (m, s)" and r: "remove H dk m s = Ok (m', s')"
  shows "cm_inv H (m', s')"
proof (cases "channels m (hex_encode H dk)")
  case None
  with inv r remove_absent [OF None, of s] show ?thesis by simp
next
  case (Some h)
  define k where "k = hex_encode H dk"
  note hinv = cm_inv_handle [OF inv Some]
  have ids: "vec_get (local_id m') j =
    (if handle_local_id h = Some j then Some None else vec_get (local_id m) j)" for j
    using remove_run [OF inv Some] r handle_inv_local_id [OF hinv]
    by (auto simp: vec_get_update vec_get_eq_Some split: option.splits)
  have m': "channels m' = (channels m)(k := None)" "length (remote_id m') = length (remote_id m)"
    "length (cells s') = length (cells s)"
    using remove_run [OF inv Some] r by (auto simp: k_def split: option.split)
  have lids: "vec_get (local_id m') j = Some (Some k')"
    if "k' \<noteq> k" "vec_get (local_id m) j = Some (Some k')" for j k'
    using handle_inv_local_id [OF hinv] that by (auto simp: ids k_def)
  have "handle_inv H (local_id m') (remote_id m') (length (cells s')) k' h'"
    if "channels m k' = Some h'" "k' \<noteq> k" for k' h'
    by (rule handle_inv_mono [OF cm_inv_handle [OF inv that(1)] lids [OF that(2)]]) (simp_all add: m')
  moreover have "vec_get (local_id m') 0 = Some None" using inv by (simp add: ids cm_inv_def)
  ultimately show ?thesis
    using m'(1) cm_inv_closed [OF inv] by (auto simp: cm_inv_def split: if_splits)
qed

lemma accept_OkE:
  assumes "accept E lid m s = Ok (ch, m', s')"
  obtains k h ls c w where "vec_get (local_id m) lid = Some (Some k)" and "channels m k = Some h"
    and "is_connected h" and "h_local_state h = Some ls"
    and "ch = Channel_new (Some c) c (h_discovery_key h) (ls_key ls) (ls_local_id ls) (h_closed h)"
    and "m' = m\<lparr>channels := (channels m)(k \<mapsto> h\<lparr>h_inbound_tx := Some c\<rparr>)\<rparr>"
    and "channel_unbounded E (world s) = (c, w)" and "s' = s\<lparr>world := w\<rparr>"
proof -
  obtain c w where "channel_unbounded E (world s) = (c, w)" by fastforce
  with assms show ?thesis
    by (auto simp: accept_def and_then_eq_Ok get_local_mut_def handle_open_def
        split: option.splits if_splits intro: that)
qed

lemma cm_inv_cells:
  assumes "cm_inv H (m, s)" and "length (cells s) \<le> length (cells s')"
  shows "cm_inv H (m, s')"
  using assms by (auto simp: cm_inv_def intro: handle_inv_mono)

lemma cm_inv_accept:
  assumes "cm_inv H (m, s)" and "accept E lid m s = Ok (ch, m', s')"
  shows "cm_inv H (m', s')"
proof -
  from accept_OkE [OF assms(2)]
  obtain k h c w where k: "channels m k = Some h" "is_connected h"
    and m': "m' = m\<lparr>channels := (channels m)(k \<mapsto> h\<lparr>h_inbound_tx := Some c\<rparr>)\<rparr>"
    and s': "s' = s\<lparr>world := w\<rparr>" by metis
  have h: "handle_inv H (local_id m) (remote_id m) (length (cells s)) k (h\<lparr>h_inbound_tx := Some c\<rparr>)"
    using cm_inv_handle [OF assms(1) k(1)] k(2) by (simp add: handle_inv_def is_connected_def)
  have "cm_inv H (m', s)"
    by (rule cm_inv_insert [OF assms(1)])
      (use assms(1) h k in \<open>auto simp: m' attach_sys_def cm_inv_def\<close>)
  then show ?thesis by (rule cm_inv_cells) (simp add: s')
qed

section \<open>Histories of the map\<close>

text \<open>The calls the protocol makes, in any order, and between them the steps of other tasks,
  which may set flags and allocate new ones.\<close>

inductive cm_step ::
  "crypto \<Rightarrow> 'w env \<Rightarrow> ChannelMap \<times> 'w sys \<Rightarrow> ChannelMap \<times> 'w sys \<Rightarrow> bool"
  for H :: crypto and E :: "'w env"
where
  step_attach_local:
    "attach_local H key m s = Ok (h, m', s') \<Longrightarrow> cm_step H E (m, s) (m', s')"
| step_attach_remote:
    "length dk = 32 \<Longrightarrow> attach_remote H dk i cap m s = Ok (h, m', s') \<Longrightarrow>
     cm_step H E (m, s) (m', s')"
| step_remove:
    "remove H dk m s = Ok (m', s') \<Longrightarrow> cm_step H E (m, s) (m', s')"
| step_accept:
    "accept E lid m s = Ok (ch, m', s') \<Longrightarrow> cm_step H E (m, s) (m', s')"
| step_other:
    "cells_le s s' \<Longrightarrow> cm_step H E (m, s) (m, s')"

inductive_cases cm_stepE [elim]: "cm_step H E ms ms'"

lemma cm_step_inv:
  assumes "inj (hex_encode H)" and "cm_inv H ms" and "cm_step H E ms ms'"
  shows "cm_inv H ms'"
  using assms(3,2)
  by cases (auto intro: cm_inv_attach_local cm_inv_attach_remote cm_inv_remove cm_inv_accept
      cm_inv_cells assms(1) simp: cells_le_def)

lemma cells_le_attach_sys [simp]: "cells_le s (attach_sys old s)"
  by (simp add: attach_sys_def)

lemma cm_step_cells:
  assumes "cm_inv H ms" and "cm_step H E ms ms'"
  shows "cells_le (snd ms) (snd ms')"
  using assms(2)
proof cases
  case (step_attach_local key m s h m' s')
  then show ?thesis
    using attach_local_OkE [OF step_attach_local(3)] cm_inv_local_ids [of H m s] assms(1)
    by (metis cells_le_attach_sys snd_conv)
next
  case (step_remove dk m s m' s')
  then show ?thesis
    using remove_run [of H m s dk] remove_absent [of m H dk s] assms(1)
    by (cases "channels m (hex_encode H dk)") auto
qed (auto elim!: attach_remote_OkE accept_OkE)

text \<open>A step keeps a handle's flag, or sets it as the handle leaves the map.\<close>

lemma cm_step_flag:
  assumes "cm_inv H ms" and "cm_step H E ms ms'" and "channels (fst ms) k = Some h"
  shows "(\<exists>h'. channels (fst ms') k = Some h' \<and> h_closed h' = h_closed h) \<or>
    load (h_closed h) (snd ms')"
  using assms(2)
proof cases
  case (step_attach_local key m s h1 m' s')
  with assms(1) cm_inv_local_ids have "local_id m \<noteq> []" by blast
  then obtain k1 i dk where
    "channels m' = (channels m)(k1 \<mapsto> local_handle i dk key (channels m k1) s)"
    by (rule attach_local_OkE [OF step_attach_local(3)]) auto
  then show ?thesis using assms(3) step_attach_local(1,2)
    by (auto simp: local_handle_def handle_attach_local_def)
next
  case (step_attach_remote dk i cap m s h1 m' s')
  obtain k1 where
    "channels m' = (channels m)(k1 \<mapsto> remote_handle i dk cap (channels m k1) s)"
    by (rule attach_remote_OkE [OF step_attach_remote(4)]) auto
  then show ?thesis using assms(3) step_attach_remote(1,2)
    by (auto simp: remote_handle_def handle_attach_remote_def)
next
  case (step_remove dk m s m' s')
  show ?thesis
  proof (cases "k = hex_encode H dk")
    case True
    then show ?thesis
      using remove_run [of H m s dk h] assms(1,3) step_remove cm_inv_handle [of H m s k h]
      by (auto simp: load_store_true handle_inv_def)
  next
    case False
    then show ?thesis
      using remove_run [of H m s dk] remove_absent [of m H dk s] assms(1,3) step_remove
      by (cases "channels m (hex_encode H dk)") auto
  qed
next
  case (step_accept lid m s ch m' s')
  from accept_OkE [OF step_accept(3)] obtain k1 h1 c where "channels m k1 = Some h1"
    "m' = m\<lparr>channels := (channels m)(k1 \<mapsto> h1\<lparr>h_inbound_tx := Some c\<rparr>)\<rparr>" by metis
  then show ?thesis using assms(3) step_accept(1,2) by auto
qed (use assms(3) in auto)

text \<open>The flag of a channel handed out by \<open>accept\<close>: it is set, or the map still has the handle
  that shares it.\<close>

definition flag_inv :: "crypto \<Rightarrow> bytes \<Rightarrow> nat \<Rightarrow> ChannelMap \<times> 'w sys \<Rightarrow> bool" where
  "flag_inv H dk a = (\<lambda>(m, s). cm_inv H (m, s) \<and> a < length (cells s) \<and>
     (load a s \<or> (\<exists>h. channels m (hex_encode H dk) = Some h \<and> h_closed h = a)))"

context crypto_lib
begin

sublocale cm: invariant_system "\<lambda>ms. fst ms = ChannelMap_new" "cm_step H E" "cm_inv H"
  for E :: "'w env"
  by unfold_locales (auto intro: cm_step_inv [OF hex_inj] simp: cm_inv_new)

lemmas cm_reachable = cm.reachable_inv [of "(ChannelMap_new, s)" for s, simplified]

sublocale flag: invariant_system "flag_inv H dk a" "cm_step H E" "flag_inv H dk a"
  for E :: "'w env" and dk a
proof unfold_locales
  fix ms ms' :: "ChannelMap \<times> 'w sys"
  assume inv: "flag_inv H dk a ms" and step: "cm_step H E ms ms'"
  then have cm: "cm_inv H ms" and a: "a < length (cells (snd ms))"
    and flag: "load a (snd ms) \<or> (\<exists>h. channels (fst ms) (hex_encode H dk) = Some h \<and> h_closed h = a)"
    by (auto simp: flag_inv_def)
  show "flag_inv H dk a ms'"
    using cm_step_inv [OF hex_inj cm step] cm_step_cells [OF cm step] a flag
      cm_step_flag [OF cm step]
    by (cases ms') (fastforce simp: flag_inv_def cells_le_def)
qed

end

section \<open>Refinement of an abstract registry\<close>

text \<open>What the map promises, without its tables: an entry per discovery key, with the key and local id
  where it is open here, the remote id and capability where it is open there, and whether the channel
  was handed out. A step is labelled with the operation, its arguments and its answer.\<close>

record entry =
  e_local :: "(bytes \<times> nat) option"
  e_remote :: "(nat \<times> bytes option) option"
  e_opened :: bool

type_synonym registry = "bytes \<Rightarrow> entry option"

datatype reg_op =
    Reg_open bytes nat
  | Reg_remote bytes nat "bytes option"
  | Reg_close bytes
  | Reg_accept nat bytes bytes

definition fresh_id :: "nat \<Rightarrow> registry \<Rightarrow> bool" where
  "fresh_id i R \<longleftrightarrow> 0 < i \<and> (\<forall>dk e key. R dk = Some e \<longrightarrow> e_local e \<noteq> Some (key, i))"

definition reg_entry :: "bytes \<Rightarrow> registry \<Rightarrow> entry" where
  "reg_entry dk R =
     (case R dk of Some e \<Rightarrow> e | None \<Rightarrow> \<lparr>e_local = None, e_remote = None, e_opened = False\<rparr>)"

text \<open>The local id of an opened key is the answer of the registry; accepting an id answers with the key
  and discovery key of the one entry that has it.\<close>

inductive reg_step :: "crypto \<Rightarrow> reg_op \<Rightarrow> registry \<Rightarrow> registry \<Rightarrow> bool" for H where
  reg_open: "discovery_key H key = Ok dk \<Longrightarrow> fresh_id i R \<Longrightarrow>
    reg_step H (Reg_open key i) R (R(dk \<mapsto> reg_entry dk R\<lparr>e_local := Some (key, i)\<rparr>))"
| reg_remote: "reg_step H (Reg_remote dk j cap) R (R(dk \<mapsto> reg_entry dk R\<lparr>e_remote := Some (j, cap)\<rparr>))"
| reg_close: "reg_step H (Reg_close dk) R (R(dk := None))"
| reg_accept: "R dk = Some e \<Longrightarrow> e_local e = Some (key, i) \<Longrightarrow> e_remote e \<noteq> None \<Longrightarrow>
    reg_step H (Reg_accept i key dk) R (R(dk \<mapsto> e\<lparr>e_opened := True\<rparr>))"

inductive_cases reg_acceptE: "reg_step H (Reg_accept i key dk) R R'"

definition abs_handle :: "ChannelHandle \<Rightarrow> entry" where
  "abs_handle h =
     \<lparr>e_local = map_option (\<lambda>ls. (ls_key ls, ls_local_id ls)) (h_local_state h),
      e_remote = map_option (\<lambda>rs. (rs_remote_id rs, rs_remote_capability rs)) (h_remote_state h),
      e_opened = (h_inbound_tx h \<noteq> None)\<rparr>"

definition abs_map :: "crypto \<Rightarrow> ChannelMap \<Rightarrow> registry" where
  "abs_map H m = (\<lambda>dk. map_option abs_handle (channels m (hex_encode H dk)))"

lemmas abs_simps = abs_map_def abs_handle_def reg_entry_def local_handle_def remote_handle_def
  handle_attach_local_def handle_attach_remote_def

lemma abs_local_handle:
  "abs_handle (local_handle i dk key (channels m (hex_encode H dk)) s) =
     reg_entry dk (abs_map H m)\<lparr>e_local := Some (key, i)\<rparr>"
  by (simp add: abs_simps split: option.split)

lemma abs_remote_handle:
  "abs_handle (remote_handle i dk cap (channels m (hex_encode H dk)) s) =
     reg_entry dk (abs_map H m)\<lparr>e_remote := Some (i, cap)\<rparr>"
  by (simp add: abs_simps split: option.split)

lemma alloc_local_fresh:
  assumes "cm_inv H (m, s)" and "alloc_local m = (i, m1)"
  shows "fresh_id i (abs_map H m)"
proof -
  note spec = alloc_local_spec [OF cm_inv_local_ids [OF assms(1)] assms(2)]
  have "handle_local_id h \<noteq> Some i" if "channels m k = Some h" for k h
    using handle_inv_local_id [OF cm_inv_handle [OF assms(1) that], of i] spec(2) by auto
  with spec(1) show ?thesis
    by (fastforce simp: fresh_id_def abs_map_def abs_handle_def handle_local_id_def)
qed

context crypto_lib
begin

lemma abs_map_upd:
  "channels m' = (channels m)(hex_encode H dk := x) \<Longrightarrow>
   abs_map H m' = (abs_map H m)(dk := map_option abs_handle x)"
  using hex_inj by (auto simp: abs_map_def fun_eq_iff inj_eq)

lemma attach_local_refines:
  assumes inv: "cm_inv H (m, s)" and "attach_local H key m s = Ok (h, m', s')"
  shows "\<exists>i. handle_local_id h = Some i \<and> reg_step H (Reg_open key i) (abs_map H m) (abs_map H m')"
proof -
  obtain dk i m1 where dk: "discovery_key H key = Ok dk" and i: "alloc_local m = (i, m1)"
    and h: "h = local_handle i dk key (channels m (hex_encode H dk)) s"
    and m': "channels m' = (channels m)(hex_encode H dk \<mapsto> h)"
    by (rule attach_local_OkE [OF assms(2) cm_inv_local_ids [OF inv]]) auto
  have "handle_local_id h = Some i"
    by (simp add: h handle_local_id_def local_handle_def handle_attach_local_def split: option.split)
  moreover have "abs_map H m' = (abs_map H m)(dk \<mapsto> reg_entry dk (abs_map H m)\<lparr>e_local := Some (key, i)\<rparr>)"
    using abs_map_upd [OF m'] by (simp add: h abs_local_handle)
  ultimately show ?thesis using reg_open [OF dk alloc_local_fresh [OF inv i]] by simp
qed

lemma attach_remote_refines:
  assumes "attach_remote H dk j cap m s = Ok (h, m', s')"
  shows "reg_step H (Reg_remote dk j cap) (abs_map H m) (abs_map H m')"
  by (rule attach_remote_OkE [OF assms]) (simp add: abs_map_upd abs_remote_handle reg_remote)

lemma remove_refines:
  assumes "cm_inv H (m, s)"
  shows "\<exists>m' s'. remove H dk m s = Ok (m', s') \<and> reg_step H (Reg_close dk) (abs_map H m) (abs_map H m')"
proof -
  obtain m' s' where "remove H dk m s = Ok (m', s')" "channels m' = (channels m)(hex_encode H dk := None)"
    using remove_run [OF assms, of dk] remove_absent [of m H dk s]
    by (cases "channels m (hex_encode H dk)") (auto simp: fun_upd_idem)
  with reg_close [of H dk "abs_map H m"] show ?thesis by (simp add: abs_map_upd)
qed

text \<open>Accepting an id of the registry hands out the channel of its entry; and whatever is handed out is
  an entry that is open from both sides.\<close>

lemma accept_refines:
  assumes inv: "cm_inv H (m, s)" and acc: "accept E lid m s = Ok (ch, m', s')"
  shows "reg_step H (Reg_accept (ch_local_id ch) (ch_key ch) (ch_discovery_key ch)) (abs_map H m) (abs_map H m')"
proof -
  obtain k h c and ls :: LocalState where k: "channels m k = Some h" "is_connected h" "h_local_state h = Some ls"
    and ch: "ch = Channel_new (Some c) c (h_discovery_key h) (ls_key ls) (ls_local_id ls) (h_closed h)"
    and m': "channels m' = (channels m)(k \<mapsto> h\<lparr>h_inbound_tx := Some c\<rparr>)"
    by (rule accept_OkE [OF acc]) auto
  have key: "k = hex_encode H (h_discovery_key h)"
    using cm_inv_handle [OF inv k(1)] by (simp add: handle_inv_def)
  have "abs_map H m (h_discovery_key h) = Some (abs_handle h)" using k(1) by (simp add: abs_map_def key)
  moreover have "e_local (abs_handle h) = Some (ls_key ls, ls_local_id ls)" "e_remote (abs_handle h) \<noteq> None"
    using k(2,3) by (auto simp: abs_handle_def is_connected_def)
  ultimately have "reg_step H (Reg_accept (ls_local_id ls) (ls_key ls) (h_discovery_key h)) (abs_map H m)
      ((abs_map H m)(h_discovery_key h \<mapsto> abs_handle h\<lparr>e_opened := True\<rparr>))"
    by (rule reg_accept)
  moreover have "abs_handle (h\<lparr>h_inbound_tx := Some c\<rparr>) = abs_handle h\<lparr>e_opened := True\<rparr>"
    by (simp add: abs_handle_def)
  ultimately show ?thesis using abs_map_upd [OF m' [unfolded key]] by (simp add: ch Channel_new_def)
qed

lemma accept_enabled:
  assumes inv: "cm_inv H (m, s)" and step: "reg_step H (Reg_accept lid key dk) (abs_map H m) R"
  shows "\<exists>ch m' s'. accept E lid m s = Ok (ch, m', s') \<and> ch_local_id ch = lid \<and> ch_key ch = key \<and>
    ch_discovery_key ch = dk \<and> abs_map H m' = R"
proof -
  from step obtain h ls where h: "channels m (hex_encode H dk) = Some h" "h_local_state h = Some ls"
    "h_remote_state h \<noteq> None" and ls: "ls_key ls = key" "ls_local_id ls = lid"
    and R: "R = (abs_map H m)(dk \<mapsto> abs_handle h\<lparr>e_opened := True\<rparr>)"
    by (auto elim!: reg_acceptE simp: abs_map_def abs_handle_def)
  have hinv: "vec_get (local_id m) lid = Some (Some (hex_encode H dk))" "h_discovery_key h = dk"
    using cm_inv_handle [OF inv h(1)] h(2) ls injD [OF hex_inj, of dk "h_discovery_key h"]
    by (auto simp: handle_inv_def)
  obtain c w where "channel_unbounded E (world s) = (c, w)" by fastforce
  then have acc: "accept E lid m s = Ok (Channel_new (Some c) c dk key lid (h_closed h),
      m\<lparr>channels := (channels m)(hex_encode H dk \<mapsto> h\<lparr>h_inbound_tx := Some c\<rparr>)\<rparr>, s\<lparr>world := w\<rparr>)"
    using h hinv ls by (auto simp: accept_def get_local_mut_def is_connected_def handle_open_def)
  have "abs_handle (h\<lparr>h_inbound_tx := Some c\<rparr>) = abs_handle h\<lparr>e_opened := True\<rparr>"
    by (simp add: abs_handle_def)
  then have "abs_map H (m\<lparr>channels := (channels m)(hex_encode H dk \<mapsto> h\<lparr>h_inbound_tx := Some c\<rparr>)\<rparr>) = R"
    by (simp add: R abs_map_upd)
  with acc show ?thesis by (simp add: Channel_new_def)
qed

end

section \<open>Channels whose handle is gone\<close>

context crypto_lib
begin

lemma accepted_flag:
  assumes "cm_inv H (m, s)" and "accept E lid m s = Ok (ch, m', s')"
  shows "flag_inv H (ch_discovery_key ch) (ch_closed ch) (m', s')"
proof -
  obtain k h c w and ls :: LocalState where k: "channels m k = Some h"
    and ch: "ch = Channel_new (Some c) c (h_discovery_key h) (ls_key ls) (ls_local_id ls) (h_closed h)"
    and m': "m' = m\<lparr>channels := (channels m)(k \<mapsto> h\<lparr>h_inbound_tx := Some c\<rparr>)\<rparr>"
    and s': "s' = s\<lparr>world := w\<rparr>" by (rule accept_OkE [OF assms(2)]) blast
  show ?thesis
    using cm_inv_accept [OF assms] cm_inv_handle [OF assms(1) k]
    by (auto simp: flag_inv_def m' ch s' Channel_new_def handle_inv_def)
qed

lemma accepted_channel_closed:
  assumes "cm_inv H (m, s)" and "accept E lid m s = Ok (ch, m1, s1)"
    and "(cm_step H E)\<^sup>*\<^sup>* (m1, s1) (m2, s2)"
    and "\<forall>h. channels m2 (hex_encode H (ch_discovery_key ch)) = Some h \<longrightarrow> h_closed h \<noteq> ch_closed ch"
  shows "closed ch s2"
  using flag.run_inv [OF assms(3) accepted_flag [OF assms(1,2)]] assms(4)
  by (auto simp: flag_inv_def closed_def)

end

lemma send_closed:
  assumes "closed ch s"
  shows "send E ch msg s = (Err (IoError ConnectionAborted ''Channel is closed''), s)"
    and "send_batch E ch msgs s = (Err (IoError ConnectionAborted ''Channel is closed''), s)"
    and "signal_local_protocol E ch nm dat s = (Err (IoError ConnectionAborted ''Channel is closed''), s)"
    and "close E ch s = (Ok (), s)"
  using assms by (simp_all add: send_def send_batch_def signal_local_protocol_def close_def)

section \<open>Where the tables and the channels part\<close>

text \<open>Opening a key twice gives it a second local id. Removing the channel frees that one only: the
  first slot keeps the key of a channel that is gone, and is not allocated again.\<close>

lemma double_open_leaks:
  assumes inv: "cm_inv H (m, s)" and inj: "inj (hex_encode H)"
    and a1: "attach_local H key m s = Ok (h1, m1, s1)"
    and a2: "attach_local H key m1 s1 = Ok (h2, m2, s2)"
    and dk: "discovery_key H key = Ok dk" and rm: "remove H dk m2 s2 = Ok (m3, s3)"
  shows "\<exists>i. handle_local_id h1 = Some i \<and> channels m3 (hex_encode H dk) = None \<and>
    vec_get (local_id m3) i = Some (Some (hex_encode H dk)) \<and> fst (alloc_local m3) \<noteq> i"
proof -
  let ?k = "hex_encode H dk"
  note inv1 = cm_inv_attach_local [OF inj inv a1]
  note inv2 = cm_inv_attach_local [OF inj inv1 a2]
  note inv3 = cm_inv_remove [OF inv2 rm]
  obtain i where i: "handle_local_id h1 = Some i" "vec_get (local_id m1) i = Some (Some ?k)"
    by (rule attach_local_ids [OF a1 cm_inv_local_ids [OF inv] dk]) simp
  obtain j where j: "handle_local_id h2 = Some j" "channels m2 = (channels m1)(?k \<mapsto> h2)"
    "vec_get (local_id m1) j \<in> {None, Some None}" "vec_get (local_id m2) i = Some (Some ?k)"
    by (rule attach_local_ids [OF a2 cm_inv_local_ids [OF inv1] dk]) (use i in auto)
  have "i \<noteq> j" using i j by auto
  with remove_run [OF inv2, of dk h2] rm j have m3: "channels m3 ?k = None"
    "vec_get (local_id m3) i = Some (Some ?k)" by (auto simp: vec_get_update)
  obtain f m4 where "alloc_local m3 = (f, m4)" by fastforce
  with alloc_local_spec(2) [OF cm_inv_local_ids [OF inv3]] m3 i show ?thesis by fastforce
qed

text \<open>Two channels announced by the remote under one id: messages go to the second, and removing
  the first cuts the second off.\<close>

lemma shared_remote_id:
  assumes inv: "cm_inv H (m, s)" and inj: "inj (hex_encode H)"
    and len: "length dk1 = 32" "length dk2 = 32" and "dk1 \<noteq> dk2"
    and a1: "attach_remote H dk1 i c1 m s = Ok (h1, m1, s1)"
    and a2: "attach_remote H dk2 i c2 m1 s1 = Ok (h2, m2, s2)"
    and rm: "remove H dk1 m2 s2 = Ok (m3, s3)"
  shows "get_remote i m2 = Some h2 \<and> get_remote i m3 = None \<and>
    channels m3 (hex_encode H dk2) = Some h2"
proof -
  note inv1 = cm_inv_attach_remote [OF inj inv len(1) a1]
  note inv2 = cm_inv_attach_remote [OF inj inv1 len(2) a2]
  have ne: "hex_encode H dk1 \<noteq> hex_encode H dk2" using inj assms(5) by (simp add: inj_eq)
  have h1: "channels m1 (hex_encode H dk1) = Some h1" "handle_remote_id h1 = Some i"
    by (rule attach_remote_OkE [OF a1];
        simp add: handle_remote_id_def remote_handle_def handle_attach_remote_def split: option.split)+
  have m2: "channels m2 = (channels m1)(hex_encode H dk2 \<mapsto> h2)"
    "vec_get (remote_id m2) i = Some (Some (hex_encode H dk2))"
    by (rule attach_remote_OkE [OF a2]; simp)+
  moreover have "i < length (remote_id m2)" using m2(2) by (simp add: vec_get_eq_Some)
  ultimately show ?thesis
    using remove_run [OF inv2, of dk1 h1] rm h1 ne by (auto simp: get_remote_def vec_get_update)
qed

end
