(* ===== verification/Mqueue.thy ===== *)
theory Mqueue
  imports Environment
begin

text \<open>
  \<open>src/mqueue.rs\<close>: the queue of outgoing messages, its batching into frames, and the reading of
  frames. \<open>self.stream\<close> is the state of the environment. A \<open>Poll<Result<()>>\<close> is an outcome of a
  \<open>poll\<close>: \<open>Err e\<close> is \<open>Poll::Ready(Err(e))\<close>. The queue is part of the result on every path,
  errors included. The loop of \<open>poll_outbound\<close> always ends (each turn takes a message off the
  queue); the one of \<open>poll_inbound\<close> ends when the stream stops giving handshake payloads, and is
  a partial function.
\<close>

section \<open>\<open>MessageIo\<close>\<close>

record MessageIo =
  write_queue :: "ChannelMessage list"

definition MessageIo_new :: MessageIo where
  "MessageIo_new = \<lparr>write_queue = []\<rparr>"

definition enqueue :: "ChannelMessage \<Rightarrow> MessageIo \<Rightarrow> MessageIo" where
  "enqueue msg io = io\<lparr>write_queue := write_queue io @ [msg]\<rparr>"

text \<open>The inner loop of \<open>poll_outbound\<close>: \<open>messages\<close> so far, and the queue.\<close>

fun take_batch ::
  "ChannelMessage list \<Rightarrow> ChannelMessage list \<Rightarrow> ChannelMessage list \<times> ChannelMessage list"
where
  "take_batch messages [] = (messages, [])"
| "take_batch messages (front # q) =
     (let front_is_open_or_close = is_open_or_close (message front)
      in if front_is_open_or_close \<and> messages \<noteq> [] then (messages, front # q)
         else if front_is_open_or_close then (messages @ [front], q)
         else take_batch (messages @ [front]) q)"

lemma take_batch_shorter: "length (snd (take_batch messages q)) \<le> length q"
  by (induction q arbitrary: messages) (auto simp: Let_def intro: le_SucI)

lemma take_batch_progress:
  "(messages, q') = take_batch [] q \<Longrightarrow> q \<noteq> [] \<Longrightarrow> length q' < length q"
  using take_batch_shorter [of "[hd q]" "tl q"]
  by (cases q) (auto simp: Let_def less_Suc_eq_le split: if_splits dest: arg_cong [where f = snd])

definition encode_messages :: "compact \<Rightarrow> ChannelMessage list \<Rightarrow> (encoding_error, bytes) outcome" where
  "encode_messages C messages =
     to_encoded_bytes C (vec_channel_messages_encoded_size C messages) (vec_encode C messages)"

function outbound_loop ::
  "compact \<Rightarrow> 'w env \<Rightarrow> bool \<Rightarrow> ChannelMessage list \<Rightarrow> 'w
   \<Rightarrow> (io_error, unit poll) outcome \<times> ChannelMessage list \<times> 'w"
where
  "outbound_loop C E pending q w =
     (case sink_poll_ready E w of
        (Ready (Inr _), w) \<Rightarrow>
          if q = [] then (Ok (Ready ()), q, w)
          else (let (messages, q') = take_batch [] q in
            case encode_messages C messages of
              Err e \<Rightarrow> (Err (FromEncoding e), q', w)
            | Panic \<Rightarrow> (Panic, q', w)
            | Ok buf \<Rightarrow>
                (case sink_start_send E buf w of
                   (Inl e, w) \<Rightarrow> (Err e, q', w)
                 | (Inr _, w) \<Rightarrow>
                     (case sink_poll_flush E w of
                        (Ready (Inl e), w) \<Rightarrow> (Err e, q', w)
                      | (Pending, w) \<Rightarrow> (Ok Pending, q', w)
                      | (Ready (Inr _), w) \<Rightarrow> outbound_loop C E False q' w)))
      | (_, w) \<Rightarrow> (if pending then (Ok Pending, q, w) else (Ok (Ready ()), q, w)))"
  by pat_completeness auto
termination
  by (relation "measure (\<lambda>(_, _, _, q, _). length q)") (auto dest: take_batch_progress)

declare outbound_loop.simps [simp del]

definition poll_outbound ::
  "compact \<Rightarrow> 'w env \<Rightarrow> MessageIo \<Rightarrow> 'w \<Rightarrow> (io_error, unit poll) outcome \<times> MessageIo \<times> 'w"
where
  "poll_outbound C E io w =
     (let (r, q, w) = outbound_loop C E True (write_queue io) w in (r, io\<lparr>write_queue := q\<rparr>, w))"

text \<open>\<open>None\<close>: the loop does not end.\<close>

partial_function (option) poll_inbound ::
  "compact \<Rightarrow> 'w env \<Rightarrow> 'w \<Rightarrow> ((io_error, ChannelMessage list) outcome option poll \<times> 'w) option"
where
  "poll_inbound C E w =
     (case stream_poll_next E w of
        (Ready (Some event), w) \<Rightarrow>
          (case event of
             HandshakePayload _ \<Rightarrow> poll_inbound C E w
           | CipherMessage msg \<Rightarrow>
               (case vec_decode C msg of
                  None \<Rightarrow> None
                | Some r \<Rightarrow>
                    Some (Ready (Some (and_then (map_err FromEncoding r)
                      (\<lambda>(messages, _). Ok messages))), w))
           | ErrStuff e \<Rightarrow> Some (Ready (Some (Err e)), w))
      | (Ready None, w) \<Rightarrow> Some (Ready None, w)
      | (Pending, w) \<Rightarrow> Some (Pending, w))"

declare poll_inbound.simps [code]

text \<open>\<open>Stream for MessageIo\<close>: drive the output, drop its result, then read. A panic of the
  output propagates.\<close>

definition MessageIo_poll_next ::
  "compact \<Rightarrow> 'w env \<Rightarrow> MessageIo \<Rightarrow> 'w
   \<Rightarrow> ((io_error, ChannelMessage list) outcome option poll \<times> MessageIo \<times> 'w) option"
where
  "MessageIo_poll_next C E io w =
     (case poll_outbound C E io w of
        (Panic, io, w) \<Rightarrow> Some (Ready (Some Panic), io, w)
      | (_, io, w) \<Rightarrow>
          (case poll_inbound C E w of
             None \<Rightarrow> None
           | Some (p, w) \<Rightarrow> Some (p, io, w)))"

section \<open>Batching\<close>

text \<open>The batches a queue falls into: an \<open>Open\<close> or \<open>Close\<close> alone, other messages up to the next
  one.\<close>

abbreviation groupable :: "ChannelMessage \<Rightarrow> bool" where
  "groupable m \<equiv> \<not> is_open_or_close (message m)"

function batches :: "ChannelMessage list \<Rightarrow> ChannelMessage list list" where
  "batches [] = []"
| "batches (m # q) =
     (if groupable m then (m # takeWhile groupable q) # batches (dropWhile groupable q)
      else [m] # batches q)"
  by pat_completeness auto
termination
  by (relation "measure length") (auto simp: less_Suc_eq_le length_dropWhile_le)

lemma take_batch_run:
  "messages \<noteq> [] \<Longrightarrow>
   take_batch messages q = (messages @ takeWhile groupable q, dropWhile groupable q)"
  by (induction q arbitrary: messages) (auto simp: Let_def)

lemma take_batch_batches:
  "q \<noteq> [] \<Longrightarrow> take_batch [] q = (b, q') \<Longrightarrow> batches q = b # batches q'"
  by (cases q) (auto simp: Let_def take_batch_run split: if_splits)

lemma concat_batches: "concat (batches q) = q"
  by (induction q rule: batches.induct) auto

lemma batches_form:
  "b \<in> set (batches q) \<Longrightarrow> b \<noteq> [] \<and> (list_all groupable b \<or> length b = 1)"
proof (induction q rule: batches.induct)
  case (2 m q)
  have "list_all groupable (takeWhile groupable q)" by (auto simp: list_all_iff dest: set_takeWhileD)
  with 2 show ?case by (cases "groupable m") auto
qed simp

lemma batches_subset: "b \<in> set (batches q) \<Longrightarrow> set b \<subseteq> set q"
  by (metis concat_batches UN_upper set_concat)

lemma batches_frame_ok:
  assumes "list_all single_ok q" and "b \<in> set (batches q)"
  shows "frame_ok b"
proof (cases "length b = 1")
  case True
  with assms batches_subset [OF assms(2)] show ?thesis
    by (cases b) (auto simp: frame_ok_def list_all_iff simp del: single_ok.simps)
next
  case False
  have "typed_ok (message m)" if "m \<in> set b" for m
  proof -
    have "single_ok m" using assms that batches_subset [OF assms(2)] by (auto simp: list_all_iff)
    moreover have "groupable m" using batches_form [OF assms(2)] False that by (auto simp: list_all_iff)
    ultimately show ?thesis by (cases "message m") simp_all
  qed
  with False show ?thesis
    by (auto simp: frame_ok_def typed_batch_def list_all_iff split: list.split)
qed

text \<open>Whatever the sink does, messages leave the queue only from its front.\<close>

lemma outbound_loop_suffix:
  "outbound_loop C E p q w = (r, q', w') \<Longrightarrow> \<exists>pre. q = pre @ q'"
proof (induction q arbitrary: p w rule: length_induct)
  case (1 q)
  obtain b q1 where b: "take_batch [] q = (b, q1)" by fastforce
  show ?case
  proof (cases "q = []")
    case True
    with "1.prems" show ?thesis
      by (auto simp: outbound_loop.simps [of C E p "[]" w] split: prod.splits poll.splits sum.splits if_splits)
  next
    case False
    have q: "q = b @ q1"
      using take_batch_batches [OF False b] concat_batches [of q] concat_batches [of q1] by simp
    have "q' = q \<or> q' = q1 \<or> (\<exists>w3. outbound_loop C E False q1 w3 = (r, q', w'))"
      using "1.prems" b False
      by (auto simp: outbound_loop.simps [of C E p q w]
          split: prod.splits poll.splits sum.splits if_splits outcome.splits)
    then show ?thesis
      using "1.IH" take_batch_progress [OF b [symmetric] False] q by (metis append.assoc append_Nil)
  qed
qed

context compact_lib
begin

lemma encode_batch:
  "list_all single_ok q \<Longrightarrow> q \<noteq> [] \<Longrightarrow> take_batch [] q = (b, q') \<Longrightarrow>
   encode_messages C b = Ok (frame C b) \<and> list_all single_ok q'"
  using take_batch_batches [of q b q'] batches_frame_ok [of q b] concat_batches [of q]
    concat_batches [of q']
  by (auto simp: encode_messages_def to_encoded_bytes_frame simp del: single_ok.simps)

text \<open>Encoding never panics on a queue of messages with a wire form.\<close>

lemma outbound_loop_not_Panic:
  "list_all single_ok q \<Longrightarrow> fst (outbound_loop C E p q w) \<noteq> Panic"
proof (induction q arbitrary: p w rule: length_induct)
  case (1 q)
  obtain b q1 where b: "take_batch [] q = (b, q1)" by fastforce
  show ?case
  proof (cases "q = []")
    case True
    then show ?thesis
      by (simp add: outbound_loop.simps [of C E p "[]" w] split: prod.splits poll.splits sum.splits)
  next
    case False
    note enc = encode_batch [OF "1.prems" False b]
    have "fst (outbound_loop C E False q1 w') \<noteq> Panic" for w'
      using "1.IH" take_batch_progress [OF b [symmetric] False] enc by blast
    then show ?thesis
      using b enc False
      by (simp add: outbound_loop.simps [of C E p q w] split: prod.splits poll.splits sum.splits)
  qed
qed

text \<open>A sink that takes everything is given the frame of every batch; \<open>obs\<close> observes what it is given.\<close>

lemma outbound_loop_observed:
  assumes "list_all single_ok q"
    and ready: "\<And>w. \<exists>w'. sink_poll_ready E w = (Ready (Inr ()), w') \<and> obs w' = obs w"
    and send: "\<And>buf w. \<exists>w'. sink_start_send E buf w = (Inr (), w') \<and> obs w' = put buf (obs w)"
    and flush: "\<And>w. \<exists>w'. sink_poll_flush E w = (Ready (Inr ()), w') \<and> obs w' = obs w"
  shows "\<exists>w'. outbound_loop C E p q w = (Ok (Ready ()), [], w') \<and>
    obs w' = fold put (map (frame C) (batches q)) (obs w)"
  using assms(1)
proof (induction q arbitrary: p w rule: length_induct)
  case (1 q)
  obtain w1 where w1: "sink_poll_ready E w = (Ready (Inr ()), w1)" "obs w1 = obs w" using ready by blast
  show ?case
  proof (cases "q = []")
    case True
    with w1 show ?thesis by (simp add: outbound_loop.simps)
  next
    case False
    obtain b q1 where b: "take_batch [] q = (b, q1)" by fastforce
    note enc = encode_batch [OF "1.prems" False b]
    obtain w2 where w2: "sink_start_send E (frame C b) w1 = (Inr (), w2)" "obs w2 = put (frame C b) (obs w1)"
      using send by blast
    obtain w3 where w3: "sink_poll_flush E w2 = (Ready (Inr ()), w3)" "obs w3 = obs w2" using flush by blast
    have "outbound_loop C E p q w = outbound_loop C E False q1 w3"
      using w1 w2 w3 b enc False by (subst outbound_loop.simps) simp
    moreover obtain w' where "outbound_loop C E False q1 w3 = (Ok (Ready ()), [], w')"
      "obs w' = fold put (map (frame C) (batches q1)) (obs w3)"
      using "1.IH" take_batch_progress [OF b [symmetric] False] enc by blast
    ultimately show ?thesis using take_batch_batches [OF False b] w1 w2 w3 by simp
  qed
qed

end

section \<open>Errors of \<open>poll_ready\<close>\<close>

text \<open>A sink that is pending where the given one reports an error of \<open>poll_ready\<close>.\<close>

definition ready_errors_pending :: "'w env \<Rightarrow> 'w env" where
  "ready_errors_pending E = E\<lparr>sink_poll_ready := (\<lambda>w.
     case sink_poll_ready E w of (Ready (Inl _), w) \<Rightarrow> (Pending, w) | r \<Rightarrow> r)\<rparr>"

text \<open>The loop does not tell the two apart, in any of its turns.\<close>

lemma outbound_loop_ready_errors:
  "outbound_loop C (ready_errors_pending E) p q w = outbound_loop C E p q w"
proof (induction q arbitrary: p w rule: length_induct)
  case (1 q)
  obtain b q1 where b: "take_batch [] q = (b, q1)" by fastforce
  have "outbound_loop C (ready_errors_pending E) False q1 w' = outbound_loop C E False q1 w'" if "q \<noteq> []" for w'
    using "1.IH" take_batch_progress [OF b [symmetric] that] by blast
  then show ?case
    using b
    by (simp add: outbound_loop.simps [of C _ p q w] ready_errors_pending_def
        split: prod.splits poll.splits sum.splits outcome.splits)
qed

context compact_lib
begin

text \<open>With a sink that fails in \<open>poll_ready\<close> only, the loop never fails: it is pending where the first
  \<open>poll_ready\<close> does not succeed, and done otherwise, whatever is left in the queue.\<close>

lemma outbound_loop_ready_only:
  assumes send: "\<And>buf w. fst (sink_start_send E buf w) = Inr ()"
    and flush: "\<And>w. fst (sink_poll_flush E w) = Ready (Inr ())"
  shows "list_all single_ok q \<Longrightarrow> \<exists>x q' w'. outbound_loop C E p q w = (Ok x, q', w') \<and>
    (x = Pending \<longleftrightarrow> p \<and> fst (sink_poll_ready E w) \<noteq> Ready (Inr ()))"
proof (induction q arbitrary: p w rule: length_induct)
  case (1 q)
  obtain r w1 where r: "sink_poll_ready E w = (r, w1)" by fastforce
  obtain b q1 where b: "take_batch [] q = (b, q1)" by fastforce
  show ?case
  proof (cases "r = Ready (Inr ()) \<and> q \<noteq> []")
    case False
    with r show ?thesis
      by (auto simp: outbound_loop.simps [of C E p q w] split: poll.splits sum.splits)
  next
    case True
    then have ne: "q \<noteq> []" by simp
    note enc = encode_batch [OF "1.prems" ne b]
    obtain w2 where w2: "sink_start_send E (frame C b) w1 = (Inr (), w2)" using send prod.collapse by metis
    obtain w3 where w3: "sink_poll_flush E w2 = (Ready (Inr ()), w3)" using flush prod.collapse by metis
    have "outbound_loop C E p q w = outbound_loop C E False q1 w3"
      using r w2 w3 b enc True by (subst outbound_loop.simps) simp
    moreover obtain x q' w' where "outbound_loop C E False q1 w3 = (Ok x, q', w')" "x \<noteq> Pending"
      using "1.IH" take_batch_progress [OF b [symmetric] ne] enc by blast
    ultimately show ?thesis using True r by simp
  qed
qed

end

section \<open>The interface of the sink\<close>

text \<open>\<open>sent\<close> observes the frames handed to the sink. A successful \<open>start_send\<close> appends its frame;
  nothing else does.\<close>

definition sink_ok :: "'w env \<Rightarrow> ('w \<Rightarrow> bytes list) \<Rightarrow> bool" where
  "sink_ok E sent \<longleftrightarrow>
     (\<forall>w. sent (snd (sink_poll_ready E w)) = sent w) \<and>
     (\<forall>w. sent (snd (sink_poll_flush E w)) = sent w) \<and>
     (\<forall>buf w. sent (snd (sink_start_send E buf w)) =
        (case fst (sink_start_send E buf w) of Inr _ \<Rightarrow> sent w @ [buf] | Inl _ \<Rightarrow> sent w))"

locale frame_sink = compact_lib C for C +
  fixes E :: "'w env"
    and sent :: "'w \<Rightarrow> bytes list"
  assumes sink: "sink_ok E sent"
begin

lemma sink_laws:
  "sink_poll_ready E w = (p, w') \<Longrightarrow> sent w' = sent w"
  "sink_poll_flush E w = (p, w') \<Longrightarrow> sent w' = sent w"
  "sink_start_send E buf w = (Inr u, w') \<Longrightarrow> sent w' = sent w @ [buf]"
  "sink_start_send E buf w = (Inl e, w') \<Longrightarrow> sent w' = sent w"
  using sink unfolding sink_ok_def
  by (metis snd_conv, metis snd_conv, (metis fst_conv snd_conv sum.case)+)

text \<open>The frames sent are those of the first batches, in order, and what is not sent stays in the
  queue in order; only a failing \<open>start_send\<close> loses the batch it was given.\<close>

lemma outbound_loop_sends:
  assumes "list_all single_ok q" and "outbound_loop C E p q w = (r, q', w')"
  shows "\<exists>n. sent w' = sent w @ map (frame C) (take n (batches q)) \<and>
    (case r of
       Ok _ \<Rightarrow> q' = concat (drop n (batches q))
     | Err _ \<Rightarrow> q' = concat (drop n (batches q)) \<or> q' = concat (drop (Suc n) (batches q))
     | Panic \<Rightarrow> False)"
  using assms
proof (induction q arbitrary: p w rule: length_induct)
  case (1 q)
  obtain pr w1 where w1: "sink_poll_ready E w = (pr, w1)" by fastforce
  note s1 = sink_laws(1) [OF w1]
  show ?case
  proof (cases "pr = Ready (Inr ()) \<and> q \<noteq> []")
    case False
    with "1.prems"(2) w1 s1 have "q' = q \<and> sent w' = sent w \<and> (\<exists>x. r = Ok x)"
      by (auto simp: outbound_loop.simps [of C E p q w] split: poll.splits sum.splits if_splits)
    then show ?thesis by (intro exI [of _ 0]) (auto simp: concat_batches)
  next
    case True
    obtain b q1 where b: "take_batch [] q = (b, q1)" by fastforce
    note bs = take_batch_batches [OF _ b] and enc = encode_batch [OF "1.prems"(1) _ b]
    have len: "length q1 < length q" using take_batch_progress [OF b [symmetric]] True by simp
    obtain sr w2 where w2: "sink_start_send E (frame C b) w1 = (sr, w2)" by fastforce
    obtain fr w3 where w3: "sink_poll_flush E w2 = (fr, w3)" by fastforce
    note run = outbound_loop.simps [of C E p q w] w1 b w2 w3
    show ?thesis
    proof (cases "sr = Inr () \<and> fr = Ready (Inr ())")
      case True': True
      from "1.prems"(2) True True' enc have "outbound_loop C E False q1 w3 = (r, q', w')"
        by (simp add: run)
      from "1.IH" [rule_format, OF len _ this] enc True obtain n where
        "sent w' = sent w3 @ map (frame C) (take n (batches q1))" "case r of
           Ok _ \<Rightarrow> q' = concat (drop n (batches q1))
         | Err _ \<Rightarrow> q' = concat (drop n (batches q1)) \<or> q' = concat (drop (Suc n) (batches q1))
         | Panic \<Rightarrow> False" by blast
      with True True' bs s1 w2 sink_laws(2) [OF w3] sink_laws(3) [of "frame C b" w1] show ?thesis
        by (intro exI [of _ "Suc n"]; cases r) simp_all
    next
      case False
      with "1.prems"(2) True enc have "q' = q1"
        "(\<exists>e. r = Err e) \<and> sent w' = sent w \<or> r \<noteq> Panic \<and> sent w' = sent w @ [frame C b]"
        using w2 w3 s1 sink_laws(2) [OF w3] sink_laws(3,4) [of "frame C b" w1]
        by (auto simp: run split: sum.splits poll.splits)
      then show ?thesis
        using bs True concat_batches [of q1]
        by (auto intro: exI [of _ 0] exI [of _ "Suc 0"] split: outcome.splits)
    qed
  qed
qed

lemma poll_outbound_sends:
  assumes "list_all single_ok (write_queue io)" and "poll_outbound C E io w = (r, io', w')"
  shows "\<exists>n. sent w' = sent w @ map (frame C) (take n (batches (write_queue io))) \<and>
    (case r of
       Ok _ \<Rightarrow> write_queue io' = concat (drop n (batches (write_queue io)))
     | Err _ \<Rightarrow> write_queue io' = concat (drop n (batches (write_queue io))) \<or>
         write_queue io' = concat (drop (Suc n) (batches (write_queue io)))
     | Panic \<Rightarrow> False)"
  using outbound_loop_sends [OF assms(1)] assms(2)
  by (fastforce simp: poll_outbound_def split: prod.splits)

text \<open>With a sink that takes and flushes everything, one call sends the whole queue.\<close>

lemma outbound_loop_drains:
  assumes "list_all single_ok q"
    and "\<And>w. fst (sink_poll_ready E w) = Ready (Inr ())"
    and "\<And>buf w. fst (sink_start_send E buf w) = Inr ()"
    and "\<And>w. fst (sink_poll_flush E w) = Ready (Inr ())"
  shows "\<exists>w'. outbound_loop C E p q w = (Ok (Ready ()), [], w') \<and>
    sent w' = sent w @ map (frame C) (batches q)"
proof -
  have "fold (\<lambda>buf xs. xs @ [buf]) fs xs = xs @ fs" for fs xs :: "bytes list"
    by (induction fs arbitrary: xs) simp_all
  moreover have "\<exists>w'. sink_poll_ready E w = (Ready (Inr ()), w') \<and> sent w' = sent w" for w
    using assms(2) [of w] sink_laws(1) by (cases "sink_poll_ready E w") auto
  moreover have "\<exists>w'. sink_start_send E buf w = (Inr (), w') \<and> sent w' = sent w @ [buf]" for buf w
    using assms(3) [of buf w] sink_laws(3) by (cases "sink_start_send E buf w") auto
  moreover have "\<exists>w'. sink_poll_flush E w = (Ready (Inr ()), w') \<and> sent w' = sent w" for w
    using assms(4) [of w] sink_laws(2) by (cases "sink_poll_flush E w") auto
  ultimately show ?thesis
    using outbound_loop_observed [OF assms(1), of E sent "\<lambda>buf xs. xs @ [buf]" p w] by simp
qed

end

section \<open>From one peer's queue to the other\<close>

text \<open>What can be queued so that the other side gets it: \<open>Open\<close> and \<open>Close\<close> that name the channel
  they are queued for, typed messages, all of one channel \<open>c\<close>, which is not 0.\<close>

definition on_channel :: "compact \<Rightarrow> u64 \<Rightarrow> ChannelMessage \<Rightarrow> bool" where
  "on_channel C c m \<longleftrightarrow> channel m = c \<and>
     (case message m of
        Open x \<Rightarrow> Open_ok x \<and> 5 < length (Open_wire C x) \<and> open_channel x = c
      | Close x \<Rightarrow> close_channel x = c
      | _ \<Rightarrow> typed_ok (message m) \<and> length (Message_wire C (message m)) < 2 ^ 64)"

lemma on_channel_single_ok: "on_channel C c m \<Longrightarrow> single_ok m"
  by (cases "message m") (simp_all add: on_channel_def)

lemma batches_faithful:
  assumes "c \<noteq> 0" and "list_all (on_channel C c) q" and "b \<in> set (batches q)"
  shows "faithful_frame C b"
proof -
  have b: "on_channel C c m" if "m \<in> set b" for m
    using assms(2) batches_subset [OF assms(3)] that by (auto simp: list_all_iff)
  have typed: "typed_ok (message m) \<and> length (Message_wire C (message m)) < 2 ^ 64"
    if "m \<in> set b" "groupable m" for m
    using b [OF that(1)] that(2) by (cases "message m") (simp_all add: on_channel_def)
  have chan: "channel m = c" if "m \<in> set b" for m
    using b [OF that] unfolding on_channel_def by (rule conjunct1)
  note form = batches_form [OF assms(3)]
  show ?thesis
  proof (cases b rule: remdups_adj.cases)
    case (2 m)
    with b [of m] assms(1) show ?thesis
      by (cases "message m") (simp_all add: faithful_frame_def on_channel_def)
  next
    case (3 m m' ms)
    with form have "list_all groupable b" by simp
    with typed have "sized_batch C b" by (simp add: sized_batch_def list_all_iff)
    moreover have "channel m = c" by (rule chan) (simp add: 3)
    then have "list_all (\<lambda>x. channel x = channel m) b"
      unfolding list_all_iff using chan by blast
    ultimately show ?thesis using 3 by (simp add: faithful_frame_def)
  qed (use form in simp)
qed

context compact_lib
begin

lemma batches_decode:
  assumes "c \<noteq> 0" and "list_all (on_channel C c) q"
  shows "map (vec_decode C) (map (frame C) (batches q)) = map (\<lambda>b. Some (Ok (b, []))) (batches q)"
  using vec_decode_frame [OF batches_faithful [OF assms]] by simp

end

section \<open>Reading returns\<close>

text \<open>\<open>backlog\<close> bounds the items a stream can still give before it is pending.\<close>

definition stream_bounded :: "'w env \<Rightarrow> ('w \<Rightarrow> nat) \<Rightarrow> bool" where
  "stream_bounded E backlog \<longleftrightarrow>
     (\<forall>w e w'. stream_poll_next E w = (Ready (Some e), w') \<longrightarrow> backlog w' < backlog w)"

locale bounded_stream = compact_lib C for C +
  fixes E :: "'w env"
    and backlog :: "'w \<Rightarrow> nat"
  assumes bounded: "stream_bounded E backlog"
begin

lemma poll_inbound_returns:
  "\<exists>p w'. poll_inbound C E w = Some (p, w') \<and> p \<noteq> Ready (Some Panic) \<and>
     (\<forall>x. p = Ready (Some x) \<longrightarrow> backlog w' < backlog w)"
proof (induction "backlog w" arbitrary: w rule: less_induct)
  case less
  obtain p w1 where w1: "stream_poll_next E w = (p, w1)" by fastforce
  show ?case
  proof (cases "\<exists>e. p = Ready (Some e)")
    case True
    then obtain e where e: "stream_poll_next E w = (Ready (Some e), w1)" using w1 by blast
    with bounded have dec: "backlog w1 < backlog w" by (auto simp: stream_bounded_def)
    show ?thesis
    proof (cases e)
      case (HandshakePayload x)
      then show ?thesis
        using less [OF dec] dec e by (subst poll_inbound.simps) (auto intro: less_trans)
    next
      case (CipherMessage msg)
      obtain r where "vec_decode C msg = Some r" "r \<noteq> Panic" using vec_decode_returns by blast
      then show ?thesis using CipherMessage e dec
        by (cases r) (auto simp: poll_inbound.simps [of C E w])
    next
      case (ErrStuff e')
      then show ?thesis using e dec by (simp add: poll_inbound.simps [of C E w])
    qed
  next
    case False
    then show ?thesis using w1
      by (auto simp: poll_inbound.simps [of C E w] split: poll.splits option.splits)
  qed
qed

end

end
