(* ===== verification/Protocol.thy ===== *)
theory Protocol
  imports Channels Mqueue
begin

text \<open>
  \<open>src/protocol.rs\<close>: the protocol stream. Its state is the record \<open>Protocol\<close> and the system
  (\<open>cells\<close> and the environment); every method returns its result and the state after it, on the
  error paths too. The queues \<open>command_rx\<close>, \<open>command_tx\<close>, \<open>outbound_rx\<close> and \<open>outbound_tx\<close> are in
  the environment. The three polling loops are partial functions (\<open>None\<close>: does not return).
\<close>

section \<open>Types\<close>

datatype Event =
    Event_Handshake bytes
  | Event_DiscoveryKey bytes
  | Event_Channel Channel
  | Event_Close bytes
  | Event_LocalSignal string bytes

text \<open>The ends of the command queue and of the outbound queue are functions of the environment; what the
  protocol chooses of them, when it creates them, is how many items they hold.\<close>

definition CHANNEL_CAP :: nat where
  "CHANNEL_CAP = 1000"

record Protocol =
  p_io :: MessageIo
  p_is_initiator :: bool
  p_channels :: ChannelMap
  command_cap :: nat
  outbound_cap :: nat
  queued_events :: "Event list"
  handshake_emitted :: bool

type_synonym 'w pstate = "Protocol \<times> 'w sys"
type_synonym ('w, 'a) action = "'w pstate \<Rightarrow> (io_error, 'a) outcome \<times> 'w pstate"

text \<open>\<open>let x = f(self)?; g(self, x)\<close>\<close>

definition then_do :: "('w, 'a) action \<Rightarrow> ('a \<Rightarrow> ('w, 'b) action) \<Rightarrow> ('w, 'b) action" where
  "then_do f g st =
     (case f st of
        (Ok x, st) \<Rightarrow> g x st
      | (Err e, st) \<Rightarrow> (Err e, st)
      | (Panic, st) \<Rightarrow> (Panic, st))"

definition return_unit :: "('w, unit) action" where
  "return_unit st = (Ok (), st)"

definition Protocol_new :: "'w env \<Rightarrow> 'w \<Rightarrow> Protocol" where
  "Protocol_new E w =
     \<lparr>p_io = MessageIo_new, p_is_initiator = cipher_is_initiator E w,
      p_channels = ChannelMap_new, command_cap = CHANNEL_CAP, outbound_cap = CHANNEL_CAP,
      queued_events = [], handshake_emitted = False\<rparr>"

definition public_key :: "'w env \<Rightarrow> 'w pstate \<Rightarrow> bytes" where
  "public_key E = (\<lambda>(p, s). cipher_local_public_key E (world s))"

definition remote_public_key :: "'w env \<Rightarrow> 'w pstate \<Rightarrow> bytes option" where
  "remote_public_key E = (\<lambda>(p, s). cipher_remote_public_key E (world s))"

definition handshake_hash :: "'w env \<Rightarrow> 'w pstate \<Rightarrow> bytes option" where
  "handshake_hash E = (\<lambda>(p, s). cipher_handshake_hash E (world s))"

definition Protocol_channels :: "Protocol \<Rightarrow> bytes set" where
  "Protocol_channels p = h_discovery_key ` iter (p_channels p)"

section \<open>Capabilities of a channel\<close>

definition p_capability ::
  "crypto \<Rightarrow> 'w env \<Rightarrow> bytes \<Rightarrow> 'w pstate \<Rightarrow> (io_error, bytes option) outcome"
where
  "p_capability H E key st =
     (case remote_public_key E st of
        None \<Rightarrow> Ok None
      | Some remote_pubkey \<Rightarrow>
          (case handshake_hash E st of
             None \<Rightarrow> Ok None
           | Some hash \<Rightarrow>
               capability H (from_pre_encrypted (p_is_initiator (fst st)) (public_key E st)
                 remote_pubkey hash) key))"

definition p_verify_remote_capability ::
  "crypto \<Rightarrow> 'w env \<Rightarrow> bytes option \<Rightarrow> bytes \<Rightarrow> 'w pstate \<Rightarrow> (io_error, unit) outcome option"
where
  "p_verify_remote_capability H E cap key st =
     (case remote_public_key E st of
        None \<Rightarrow> None
      | Some remote_pubkey \<Rightarrow>
          (case handshake_hash E st of
             None \<Rightarrow> None
           | Some hash \<Rightarrow>
               Some (verify_remote_capability H (from_pre_encrypted (p_is_initiator (fst st))
                 (public_key E st) remote_pubkey hash) cap key)))"

section \<open>Handlers\<close>

definition queue_event :: "Event \<Rightarrow> ('w, unit) action" where
  "queue_event ev = (\<lambda>(p, s). (Ok (), p\<lparr>queued_events := queued_events p @ [ev]\<rparr>, s))"

definition enqueue_message :: "ChannelMessage \<Rightarrow> ('w, unit) action" where
  "enqueue_message msg = (\<lambda>(p, s). (Ok (), p\<lparr>p_io := enqueue msg (p_io p)\<rparr>, s))"

definition accept_channel :: "crypto \<Rightarrow> 'w env \<Rightarrow> nat \<Rightarrow> ('w, unit) action" where
  "accept_channel H E lid = (\<lambda>(p, s).
     case and_then (prepare_to_verify lid (p_channels p)) (\<lambda>(key, remote_capability).
       and_then (unwrap (p_verify_remote_capability H E remote_capability key (p, s))) (\<lambda>verified.
       and_then verified (\<lambda>_.
       accept E lid (p_channels p) s))) of
       Ok (ch, m, s) \<Rightarrow> queue_event (Event_Channel ch) (p\<lparr>p_channels := m\<rparr>, s)
     | Err e \<Rightarrow> (Err e, p, s)
     | Panic \<Rightarrow> (Panic, p, s))"

definition remove_channel :: "crypto \<Rightarrow> bytes \<Rightarrow> ('w, unit) action" where
  "remove_channel H dk = (\<lambda>(p, s).
     case remove H dk (p_channels p) s of
       Ok (m, s) \<Rightarrow> (Ok (), p\<lparr>p_channels := m\<rparr>, s)
     | Err e \<Rightarrow> (Err e, p, s)
     | Panic \<Rightarrow> (Panic, p, s))"

definition command_open :: "crypto \<Rightarrow> 'w env \<Rightarrow> bytes \<Rightarrow> ('w, unit) action" where
  "command_open H E key = (\<lambda>(p, s).
     case attach_local H key (p_channels p) s of
       Ok (channel_handle, m, s) \<Rightarrow>
         (case handle_local_id channel_handle of
            None \<Rightarrow> (Panic, p\<lparr>p_channels := m\<rparr>, s)
          | Some lid \<Rightarrow>
              then_do
                (if is_connected channel_handle then accept_channel H E lid else return_unit)
                (\<lambda>_. then_do (\<lambda>st. (p_capability H E key st, st)) (\<lambda>cap.
                 enqueue_message (ChannelMessage_new (of_nat lid)
                   (Open \<lparr>open_channel = of_nat lid, open_protocol = PROTOCOL_NAME,
                      open_discovery_key = h_discovery_key channel_handle,
                      open_capability = cap\<rparr>))))
                (p\<lparr>p_channels := m\<rparr>, s))
     | Err e \<Rightarrow> (Err e, p, s)
     | Panic \<Rightarrow> (Panic, p, s))"

definition command_close :: "crypto \<Rightarrow> bytes \<Rightarrow> ('w, unit) action" where
  "command_close H dk = (\<lambda>(p, s).
     if has_channel H dk (p_channels p)
     then then_do (remove_channel H dk) (\<lambda>_. queue_event (Event_Close dk)) (p, s)
     else (Ok (), p, s))"

definition command_signal_local :: "string \<Rightarrow> bytes \<Rightarrow> ('w, unit) action" where
  "command_signal_local nm dat = queue_event (Event_LocalSignal nm dat)"

fun on_command :: "crypto \<Rightarrow> 'w env \<Rightarrow> Command \<Rightarrow> ('w, unit) action" where
  "on_command H E (Command_Open key) = command_open H E key"
| "on_command H E (Command_Close dk) = command_close H dk"
| "on_command H E (Command_SignalLocal nm dat) = command_signal_local nm dat"

definition on_open :: "crypto \<Rightarrow> 'w env \<Rightarrow> u64 \<Rightarrow> Open \<Rightarrow> ('w, unit) action" where
  "on_open H E ch msg = (\<lambda>(p, s).
     case and_then (parse_key (open_discovery_key msg)) (\<lambda>dk.
       and_then (attach_remote H dk (unat ch) (open_capability msg) (p_channels p) s) (\<lambda>r.
       Ok (dk, r))) of
       Ok (dk, channel_handle, m, s) \<Rightarrow>
         (if is_connected channel_handle
          then (case handle_local_id channel_handle of
              None \<Rightarrow> (Panic, p\<lparr>p_channels := m\<rparr>, s)
            | Some lid \<Rightarrow> accept_channel H E lid (p\<lparr>p_channels := m\<rparr>, s))
          else queue_event (Event_DiscoveryKey dk) (p\<lparr>p_channels := m\<rparr>, s))
     | Err e \<Rightarrow> (Err e, p, s)
     | Panic \<Rightarrow> (Panic, p, s))"

definition close_local :: "crypto \<Rightarrow> u64 \<Rightarrow> ('w, unit) action" where
  "close_local H lid = (\<lambda>(p, s).
     case get_local (unat lid) (p_channels p) of
       Some h \<Rightarrow>
         then_do (remove_channel H (h_discovery_key h))
           (\<lambda>_. queue_event (Event_Close (h_discovery_key h))) (p, s)
     | None \<Rightarrow> (Ok (), p, s))"

definition on_close :: "crypto \<Rightarrow> 'w env \<Rightarrow> u64 \<Rightarrow> Close \<Rightarrow> ('w, unit) action" where
  "on_close H E rid msg = (\<lambda>(p, s).
     case get_remote (unat rid) (p_channels p) of
       Some channel_handle \<Rightarrow>
         then_do
           (\<lambda>(p, s). let (r, s) = forward_inbound_message_tolerate_closed E (unat rid)
                (Close msg) (p_channels p) s in (r, p, s))
           (\<lambda>_. then_do (remove_channel H (h_discovery_key channel_handle))
             (\<lambda>_. queue_event (Event_Close (h_discovery_key channel_handle)))) (p, s)
     | None \<Rightarrow> (Ok (), p, s))"

definition on_inbound_message :: "crypto \<Rightarrow> 'w env \<Rightarrow> ChannelMessage \<Rightarrow> ('w, unit) action" where
  "on_inbound_message H E channel_message =
     (let (rid, msg) = into_split channel_message in
      case msg of
        Open x \<Rightarrow> on_open H E rid x
      | Close x \<Rightarrow> on_close H E rid x
      | _ \<Rightarrow> (\<lambda>(p, s). let (r, s) = forward_inbound_message E (unat rid) msg (p_channels p) s
                 in (r, p, s)))"

fun on_inbound_channel_messages ::
  "crypto \<Rightarrow> 'w env \<Rightarrow> ChannelMessage list \<Rightarrow> ('w, unit) action"
where
  "on_inbound_channel_messages H E [] = return_unit"
| "on_inbound_channel_messages H E (m # ms) =
     then_do (on_inbound_message H E m) (\<lambda>_. on_inbound_channel_messages H E ms)"

text \<open>\<open>on_outbound_message\<close>: whether the message is kept.\<close>

definition on_outbound_message :: "crypto \<Rightarrow> ChannelMessage \<Rightarrow> ('w, bool) action" where
  "on_outbound_message H msg =
     (case message msg of
        Close _ \<Rightarrow> then_do (close_local H (channel msg)) (\<lambda>_ st. (Ok True, st))
      | LocalSignal nm dat \<Rightarrow>
          then_do (queue_event (Event_LocalSignal nm dat)) (\<lambda>_ st. (Ok False, st))
      | _ \<Rightarrow> (\<lambda>st. (Ok True, st)))"

text \<open>\<open>messages.retain(|message| self.on_outbound_message(message))\<close>\<close>

fun retain_outbound :: "crypto \<Rightarrow> ChannelMessage list \<Rightarrow> ('w, ChannelMessage list) action" where
  "retain_outbound H [] st = (Ok [], st)"
| "retain_outbound H (m # ms) st =
     then_do (on_outbound_message H m) (\<lambda>keep.
     then_do (retain_outbound H ms) (\<lambda>kept st. (Ok (if keep then m # kept else kept), st))) st"

definition on_outbound_messages :: "crypto \<Rightarrow> ChannelMessage list \<Rightarrow> ('w, unit) action" where
  "on_outbound_messages H messages =
     (if messages = [] then return_unit
      else then_do (retain_outbound H messages) (\<lambda>kept (p, s).
        (Ok (), p\<lparr>p_io := fold enqueue kept (p_io p)\<rparr>, s)))"

section \<open>Polling\<close>

definition set_world :: "'w \<Rightarrow> 'w sys \<Rightarrow> 'w sys" where
  "set_world w s = s\<lparr>world := w\<rparr>"

partial_function (option) poll_commands ::
  "crypto \<Rightarrow> 'w env \<Rightarrow> 'w pstate \<Rightarrow> ((io_error, unit) outcome \<times> 'w pstate) option"
where
  "poll_commands H E st =
     (case command_rx_poll E (world (snd st)) of
        (Ready (Some command), w) \<Rightarrow>
          (case on_command H E command (fst st, set_world w (snd st)) of
             (Ok _, st) \<Rightarrow> poll_commands H E st
           | (Err e, st) \<Rightarrow> Some (Err e, st)
           | (Panic, st) \<Rightarrow> Some (Panic, st))
      | (_, w) \<Rightarrow> Some (Ok (), fst st, set_world w (snd st)))"

declare poll_commands.simps [code]

partial_function (option) poll_inbound_read ::
  "compact \<Rightarrow> crypto \<Rightarrow> 'w env \<Rightarrow> 'w pstate \<Rightarrow> ((io_error, unit) outcome \<times> 'w pstate) option"
where
  "poll_inbound_read C H E st =
     (case poll_inbound C E (world (snd st)) of
        None \<Rightarrow> None
      | Some (Ready (Some result), w) \<Rightarrow>
          (case result of
             Ok messages \<Rightarrow>
               (case on_inbound_channel_messages H E messages (fst st, set_world w (snd st)) of
                  (Ok _, st) \<Rightarrow> poll_inbound_read C H E st
                | (Err e, st) \<Rightarrow> Some (Err e, st)
                | (Panic, st) \<Rightarrow> Some (Panic, st))
           | Err e \<Rightarrow> Some (Err e, fst st, set_world w (snd st))
           | Panic \<Rightarrow> Some (Panic, fst st, set_world w (snd st)))
      | Some (_, w) \<Rightarrow> Some (Ok (), fst st, set_world w (snd st)))"

declare poll_inbound_read.simps [code]

definition drive_outbound ::
  "compact \<Rightarrow> 'w env \<Rightarrow> 'w pstate \<Rightarrow> (io_error, unit poll) outcome \<times> 'w pstate"
where
  "drive_outbound C E = (\<lambda>(p, s).
     let (r, io, w) = poll_outbound C E (p_io p) (world s)
     in (r, p\<lparr>p_io := io\<rparr>, set_world w s))"

partial_function (option) poll_outbound_write ::
  "compact \<Rightarrow> crypto \<Rightarrow> 'w env \<Rightarrow> 'w pstate \<Rightarrow> ((io_error, unit) outcome \<times> 'w pstate) option"
where
  "poll_outbound_write C H E st =
     (case drive_outbound C E st of
        (Err e, st) \<Rightarrow> Some (Err e, st)
      | (Panic, st) \<Rightarrow> Some (Panic, st)
      | (Ok _, st) \<Rightarrow>
          (case outbound_rx_poll E (world (snd st)) of
             (Ready (Some messages), w) \<Rightarrow>
               (case on_outbound_messages H messages (fst st, set_world w (snd st)) of
                  (Ok _, st) \<Rightarrow> poll_outbound_write C H E st
                | (Err e, st) \<Rightarrow> Some (Err e, st)
                | (Panic, st) \<Rightarrow> Some (Panic, st))
           | (Ready None, w) \<Rightarrow> Some (Panic, fst st, set_world w (snd st))
           | (Pending, w) \<Rightarrow> Some (Ok (), fst st, set_world w (snd st))))"

declare poll_outbound_write.simps [code]

text \<open>\<open>return_error!(f(self)); g(self)\<close>\<close>

definition or_return ::
  "((io_error, unit) outcome \<times> 'w pstate) option
   \<Rightarrow> ('w pstate \<Rightarrow> ((io_error, Event poll) outcome \<times> 'w pstate) option)
   \<Rightarrow> ((io_error, Event poll) outcome \<times> 'w pstate) option"
where
  "or_return r g =
     (case r of
        None \<Rightarrow> None
      | Some (Ok _, st) \<Rightarrow> g st
      | Some (Err e, st) \<Rightarrow> Some (Err e, st)
      | Some (Panic, st) \<Rightarrow> Some (Panic, st))"

definition pop_event ::
  "'w pstate \<Rightarrow> ((io_error, Event poll) outcome \<times> 'w pstate) option"
where
  "pop_event = (\<lambda>(p, s).
     case queued_events p of
       event # es \<Rightarrow> Some (Ok (Ready event), p\<lparr>queued_events := es\<rparr>, s)
     | [] \<Rightarrow> Some (Ok Pending, p, s))"

definition poll_established ::
  "compact \<Rightarrow> crypto \<Rightarrow> 'w env \<Rightarrow> 'w pstate
   \<Rightarrow> ((io_error, Event poll) outcome \<times> 'w pstate) option"
where
  "poll_established C H E = (\<lambda>(p, s).
     case (if handshake_emitted p then None else remote_public_key E (p, s)) of
       Some remote_pubkey \<Rightarrow>
         Some (Ok (Ready (Event_Handshake remote_pubkey)), p\<lparr>handshake_emitted := True\<rparr>, s)
     | None \<Rightarrow>
         if queued_events p \<noteq> [] then pop_event (p, s)
         else
           or_return (poll_inbound_read C H E (p, s)) (\<lambda>st.
           or_return (poll_commands H E st) (\<lambda>st.
           or_return (poll_outbound_write C H E st) pop_event)))"

definition poll_next ::
  "compact \<Rightarrow> crypto \<Rightarrow> 'w env \<Rightarrow> 'w pstate
   \<Rightarrow> ((io_error, Event poll) outcome \<times> 'w pstate) option"
where
  "poll_next C H E st =
     (if p_is_initiator (fst st) \<and> handshake_hash E st = None
      then
        or_return (poll_outbound_write C H E st) (\<lambda>st.
        or_return (poll_inbound_read C H E st) (\<lambda>st.
        if handshake_hash E st = None then Some (Ok Pending, st)
        else poll_established C H E st))
      else poll_established C H E st)"

text \<open>\<open>Stream for Protocol\<close>: the stream never ends.\<close>

definition Protocol_poll_next ::
  "compact \<Rightarrow> crypto \<Rightarrow> 'w env \<Rightarrow> 'w pstate
   \<Rightarrow> ((io_error, Event) outcome option poll \<times> 'w pstate) option"
where
  "Protocol_poll_next C H E st =
     map_option (\<lambda>(r, st).
       (case r of
          Ok (Ready e) \<Rightarrow> Ready (Some (Ok e))
        | Ok Pending \<Rightarrow> Pending
        | Err e \<Rightarrow> Ready (Some (Err e))
        | Panic \<Rightarrow> Ready (Some Panic), st)) (poll_next C H E st)"

section \<open>\<open>CommandTx\<close>\<close>

definition CommandTx_send :: "'w env \<Rightarrow> Command \<Rightarrow> 'w sys \<Rightarrow> (io_error, unit) outcome \<times> 'w sys" where
  "CommandTx_send E command s =
     (let (sent, w) = command_tx_send E command (world s) in (map_channel_err sent, set_world w s))"

definition CommandTx_open :: "'w env \<Rightarrow> bytes \<Rightarrow> 'w sys \<Rightarrow> (io_error, unit) outcome \<times> 'w sys" where
  "CommandTx_open E key s = CommandTx_send E (Command_Open key) s"

definition CommandTx_close :: "'w env \<Rightarrow> bytes \<Rightarrow> 'w sys \<Rightarrow> (io_error, unit) outcome \<times> 'w sys" where
  "CommandTx_close E dk s = CommandTx_send E (Command_Close dk) s"

definition CommandTx_signal_local ::
  "'w env \<Rightarrow> string \<Rightarrow> bytes \<Rightarrow> 'w sys \<Rightarrow> (io_error, unit) outcome \<times> 'w sys"
where
  "CommandTx_signal_local E nm dat s = CommandTx_send E (Command_SignalLocal nm dat) s"

text \<open>\<open>Protocol::command\<close> and \<open>Protocol::open\<close> use the sender the protocol holds.\<close>

definition Protocol_command :: "'w env \<Rightarrow> Command \<Rightarrow> ('w, unit) action" where
  "Protocol_command E command = (\<lambda>(p, s). let (r, s) = CommandTx_send E command s in (r, p, s))"

definition Protocol_open :: "'w env \<Rightarrow> bytes \<Rightarrow> ('w, unit) action" where
  "Protocol_open E key = (\<lambda>(p, s). let (r, s) = CommandTx_open E key s in (r, p, s))"

section \<open>Atomic steps\<close>

text \<open>
  Every handler is a sequence of the calls below, each of which changes the state once; what it
  handles is the label of the step. \<open>step_env\<close> stands for what changes the system only: polls of the
  environment, messages forwarded to a channel, and other tasks running in between.
\<close>

datatype label =
    Received ChannelMessage
  | Commanded Command
  | Outbound "ChannelMessage list"
  | Emitted Event
  | Idle

fun quiet_label :: "label \<Rightarrow> bool" where
  "quiet_label (Emitted _) = False"
| "quiet_label _ = True"

text \<open>What a handler queues besides channels: an event whose discovery key, a \<open>[u8; 32]\<close>, has 32 bytes.\<close>

fun internal_event :: "Event \<Rightarrow> bool" where
  "internal_event (Event_Handshake _) = False"
| "internal_event (Event_Channel _) = False"
| "internal_event (Event_DiscoveryKey dk) = (length dk = 32)"
| "internal_event (Event_Close dk) = (length dk = 32)"
| "internal_event (Event_LocalSignal _ _) = True"

inductive pstep :: "crypto \<Rightarrow> 'w env \<Rightarrow> label \<Rightarrow> 'w pstate \<Rightarrow> 'w pstate \<Rightarrow> bool"
  for H :: crypto and E :: "'w env"
where
  p_attach_local:
    "attach_local H key (p_channels p) s = Ok (h, m, s') \<Longrightarrow>
     pstep H E (Commanded (Command_Open key)) (p, s) (p\<lparr>p_channels := m\<rparr>, s')"
| p_attach_remote:
    "message cm = Open x \<Longrightarrow> length (open_discovery_key x) = 32 \<Longrightarrow>
     attach_remote H (open_discovery_key x) (unat (channel cm)) (open_capability x)
       (p_channels p) s = Ok (h, m, s') \<Longrightarrow>
     pstep H E (Received cm) (p, s) (p\<lparr>p_channels := m\<rparr>, s')"
| p_accept:
    "quiet_label l \<Longrightarrow> prepare_to_verify lid (p_channels p) = Ok (key, cap) \<Longrightarrow>
     p_verify_remote_capability H E cap key (p, s) = Some (Ok ()) \<Longrightarrow>
     accept E lid (p_channels p) s = Ok (ch, m, s') \<Longrightarrow>
     pstep H E l (p, s)
       (p\<lparr>p_channels := m, queued_events := queued_events p @ [Event_Channel ch]\<rparr>, s')"
| p_remove:
    "quiet_label l \<Longrightarrow> remove H dk (p_channels p) s = Ok (m, s') \<Longrightarrow>
     pstep H E l (p, s) (p\<lparr>p_channels := m\<rparr>, s')"
| p_queue:
    "quiet_label l \<Longrightarrow> internal_event ev \<Longrightarrow>
     pstep H E l (p, s) (p\<lparr>queued_events := queued_events p @ [ev]\<rparr>, s)"
| p_enqueue:
    "quiet_label l \<Longrightarrow> single_ok msg \<Longrightarrow>
     pstep H E l (p, s) (p\<lparr>p_io := enqueue msg (p_io p)\<rparr>, s)"
| p_write:
    "quiet_label l \<Longrightarrow> write_queue (p_io p) = sent @ q \<Longrightarrow> cells_le s s' \<Longrightarrow>
     pstep H E l (p, s) (p\<lparr>p_io := (p_io p)\<lparr>write_queue := q\<rparr>\<rparr>, s')"
| p_env:
    "quiet_label l \<Longrightarrow> cells_le s s' \<Longrightarrow> pstep H E l (p, s) (p, s')"
| p_pop:
    "queued_events p = ev # evs \<Longrightarrow>
     pstep H E (Emitted ev) (p, s) (p\<lparr>queued_events := evs\<rparr>, s)"
| p_handshake:
    "\<not> handshake_emitted p \<Longrightarrow> remote_public_key E (p, s) = Some key \<Longrightarrow>
     pstep H E (Emitted (Event_Handshake key)) (p, s) (p\<lparr>handshake_emitted := True\<rparr>, s)"

inductive run :: "crypto \<Rightarrow> 'w env \<Rightarrow> 'w pstate \<Rightarrow> label list \<Rightarrow> 'w pstate \<Rightarrow> bool"
  for H :: crypto and E :: "'w env"
where
  run_Nil: "run H E st [] st"
| run_snoc: "run H E st tr st1 \<Longrightarrow> pstep H E l st1 st2 \<Longrightarrow> run H E st (tr @ [l]) st2"

lemma run_append:
  assumes "run H E st2 tr' st3" and "run H E st1 tr st2"
  shows "run H E st1 (tr @ tr') st3"
  using assms by (induction rule: run.induct) (simp_all add: run_snoc flip: append_assoc)

section \<open>The invariant\<close>

definition proto_inv :: "crypto \<Rightarrow> 'w pstate \<Rightarrow> bool" where
  "proto_inv H = (\<lambda>(p, s). cm_inv H (p_channels p, s) \<and>
     list_all single_ok (write_queue (p_io p)) \<and>
     (\<forall>ev \<in> set (queued_events p). \<not> (\<exists>key. ev = Event_Handshake key)))"

lemma proto_inv_new: "proto_inv H (Protocol_new E w, s)"
  by (simp add: proto_inv_def Protocol_new_def MessageIo_new_def cm_inv_new)

lemma pstep_channels:
  assumes "pstep H E l st st'"
  shows "cm_step H E (p_channels (fst st), snd st) (p_channels (fst st'), snd st')"
  using assms by cases (auto intro: cm_step.intros)

lemma pstep_inv:
  assumes "inj (hex_encode H)" and "proto_inv H st" and "pstep H E l st st'"
  shows "proto_inv H st'"
proof -
  have "cm_inv H (p_channels (fst st'), snd st')"
    using cm_step_inv [OF assms(1) _ pstep_channels [OF assms(3)]] assms(2)
    by (auto simp: proto_inv_def split: prod.splits)
  with assms(3,2) show ?thesis
    by cases (auto simp: proto_inv_def enqueue_def list_all_iff simp del: single_ok.simps)
qed

context crypto_lib
begin

sublocale proto: invariant_system "\<lambda>st. \<exists>w. fst st = Protocol_new E w" "\<lambda>st st'. \<exists>l. pstep H E l st st'"
  "proto_inv H" for E :: "'w env"
  by unfold_locales (auto intro: pstep_inv [OF hex_inj] simp: proto_inv_new)

end

section \<open>Handlers are sequences of atomic steps\<close>

definition handles :: "crypto \<Rightarrow> 'w env \<Rightarrow> label \<Rightarrow> ('w, 'a) action \<Rightarrow> bool" where
  "handles H E l f \<longleftrightarrow>
     (\<forall>st r st'. quiet_label l \<longrightarrow> proto_inv H st \<longrightarrow> f st = (r, st') \<longrightarrow> r \<noteq> Panic \<longrightarrow>
        (pstep H E l)\<^sup>*\<^sup>* st st')"

lemma handlesD:
  "handles H E l f \<Longrightarrow> proto_inv H st \<Longrightarrow> f st = (r, st') \<Longrightarrow> r \<noteq> Panic \<Longrightarrow> quiet_label l \<Longrightarrow>
   (pstep H E l)\<^sup>*\<^sup>* st st'"
  unfolding handles_def by blast

lemma handles_stepI:
  "(\<And>p s r st'. quiet_label l \<Longrightarrow> f (p, s) = (r, st') \<Longrightarrow> r \<noteq> Panic \<Longrightarrow>
      st' = (p, s) \<or> pstep H E l (p, s) st') \<Longrightarrow>
   handles H E l f"
  unfolding handles_def by (metis r_into_rtranclp rtranclp.rtrancl_refl surj_pair)

text \<open>A handler that, in each state, does nothing or what one of a family of handlers does.\<close>

lemma handles_likeI:
  assumes "\<And>p s. proto_inv H (p, s) \<Longrightarrow>
    snd (f (p, s)) = (p, s) \<or> (\<exists>x. handles H E l (g x) \<and> f (p, s) = g x (p, s))"
  shows "handles H E l f"
  using assms unfolding handles_def by (metis rtranclp.rtrancl_refl snd_conv surj_pair)

lemma handles_queue_event: "internal_event ev \<Longrightarrow> handles H E l (queue_event ev)"
  by (rule handles_stepI) (auto simp: queue_event_def intro: p_queue)

lemma handles_return: "handles H E l return_unit"
  by (rule handles_stepI) (simp add: return_unit_def)

lemma handles_pure: "handles H E l (\<lambda>st. (f st, st))"
  by (rule handles_stepI) simp

lemma handles_enqueue: "single_ok msg \<Longrightarrow> handles H E l (enqueue_message msg)"
  by (rule handles_stepI) (auto simp: enqueue_message_def intro: p_enqueue simp del: single_ok.simps)

lemma handles_remove: "handles H E l (remove_channel H dk)"
  by (rule handles_stepI)
    (auto simp: remove_channel_def intro: p_remove split: outcome.splits)

lemma handles_env:
  "(\<And>p s r s'. f p s = (r, s') \<Longrightarrow> cells_le s s') \<Longrightarrow>
   handles H E l (\<lambda>(p, s). let (r, s') = f p s in (r, p, s'))"
  by (rule handles_stepI) (auto intro: p_env split: prod.splits)

lemma cells_le_try_send:
  "try_send_inbound E h m s = (r, s') \<Longrightarrow> cells_le s s'"
  "try_send_inbound_tolerate_closed E h m s = (r, s') \<Longrightarrow> cells_le s s'"
  by (auto simp: try_send_inbound_def try_send_inbound_tolerate_closed_def
      split: option.splits prod.splits sum.splits try_send_error.splits)

lemma cells_le_forward:
  "forward_inbound_message E rid msg m s = (r, s') \<Longrightarrow> cells_le s s'"
  "forward_inbound_message_tolerate_closed E rid msg m s = (r, s') \<Longrightarrow> cells_le s s'"
  by (auto simp: forward_inbound_message_def forward_inbound_message_tolerate_closed_def
      intro: cells_le_try_send split: option.splits)

lemma accept_channel_steps:
  assumes "accept_channel H E lid (p, s) = (r, st')" and "r \<noteq> Panic" and "quiet_label l"
  shows "st' = (p, s) \<and> r \<noteq> Ok () \<or> pstep H E l (p, s) st'"
  using assms
  by (auto simp: accept_channel_def queue_event_def and_then_eq_Ok
      intro!: p_accept split: outcome.splits)

lemma handles_accept_channel: "handles H E l (accept_channel H E lid)"
  by (rule handles_stepI) (use accept_channel_steps in blast)

context crypto_lib
begin

lemma steps_inv: "(pstep H E l)\<^sup>*\<^sup>* st st' \<Longrightarrow> proto_inv H st \<Longrightarrow> proto_inv H st'"
  by (induction rule: rtranclp_induct) (auto intro: pstep_inv [OF hex_inj])

lemma handles_then:
  assumes "handles H E l f" and "\<And>x. handles H E l (g x)"
  shows "handles H E l (then_do f g)"
  unfolding handles_def
proof (intro allI impI)
  fix st r st'
  assume l: "quiet_label l" and inv: "proto_inv H st" and run: "then_do f g st = (r, st')" and r: "r \<noteq> Panic"
  obtain rf st1 where f: "f st = (rf, st1)" by (cases "f st")
  with run r have rf: "rf \<noteq> Panic" by (auto simp: then_do_def)
  note st1 = handlesD [OF assms(1) inv f rf l]
  show "(pstep H E l)\<^sup>*\<^sup>* st st'"
  proof (cases rf)
    case (Ok x)
    with f run have "g x st1 = (r, st')" by (simp add: then_do_def)
    from handlesD [OF assms(2) steps_inv [OF st1 inv] this r l] st1 show ?thesis by simp
  qed (use f run st1 r in \<open>simp_all add: then_do_def\<close>)
qed

lemma p_capability_length: "p_capability H E key st = Ok (Some c) \<Longrightarrow> length c = 32"
  by (auto simp: p_capability_def capability_def and_then_eq_Ok replicate_capability_length
      split: option.splits)

lemma open_message_ok:
  assumes "length dk = 32" and "p_capability H E key st = Ok cap"
  shows "single_ok (ChannelMessage_new ch
    (Open \<lparr>open_channel = lid, open_protocol = PROTOCOL_NAME, open_discovery_key = dk,
       open_capability = cap\<rparr>))"
  using assms p_capability_length [of E key st]
  by (cases cap)
    (auto simp: ChannelMessage_new_def Open_ok_def utf8_def vec_fits_def PROTOCOL_NAME_def)

lemma handles_send_open:
  assumes "length dk = 32"
  shows "handles H E l (then_do (\<lambda>st. (p_capability H E key st, st)) (\<lambda>cap.
    enqueue_message (ChannelMessage_new ch
      (Open \<lparr>open_channel = lid, open_protocol = PROTOCOL_NAME, open_discovery_key = dk,
         open_capability = cap\<rparr>))))"
  by (rule handles_stepI)
    (auto simp: then_do_def enqueue_message_def
      intro!: p_enqueue dest: open_message_ok [OF assms] split: outcome.splits simp del: single_ok.simps)

lemma handles_command_open: "handles H E (Commanded (Command_Open key)) (command_open H E key)"
  unfolding handles_def
proof (intro allI impI)
  fix st r and st' :: "'a pstate"
  assume inv: "proto_inv H st" and run: "command_open H E key st = (r, st')" and r: "r \<noteq> Panic"
  let ?l = "Commanded (Command_Open key)"
  obtain p s where st: "st = (p, s)" by fastforce
  show "(pstep H E ?l)\<^sup>*\<^sup>* st st'"
  proof (cases "attach_local H key (p_channels p) s")
    case (Ok t)
    then obtain h m s1 where t: "attach_local H key (p_channels p) s = Ok (h, m, s1)" by (cases t) auto
    let ?st1 = "(p\<lparr>p_channels := m\<rparr>, s1)"
    from t have step: "pstep H E ?l st ?st1" unfolding st by (rule p_attach_local)
    from pstep_inv [OF hex_inj inv step] have inv1: "proto_inv H ?st1" .
    from inv st have "local_id (p_channels p) \<noteq> []"
      using cm_inv_local_ids [of H "p_channels p" s] by (simp add: proto_inv_def)
    from attach_local_stored [OF t this] obtain k lid
      where h: "channels m k = Some h" "handle_local_id h = Some lid" by blast
    with inv1 have dk: "length (h_discovery_key h) = 32"
      using cm_inv_handle [of H m s1 k h] by (simp add: proto_inv_def handle_inv_def)
    have "handles H E ?l (if is_connected h then accept_channel H E lid else return_unit)"
      by (simp add: handles_accept_channel handles_return)
    from handles_then [OF this handles_send_open [OF dk]] run t h(2) st
    have "(pstep H E ?l)\<^sup>*\<^sup>* ?st1 st'"
      by (auto simp: command_open_def intro!: handlesD [OF _ inv1 _ r])
    with step show ?thesis by (rule converse_rtranclp_into_rtranclp)
  qed (use run st r in \<open>simp_all add: command_open_def\<close>)
qed

lemma handles_close_event:
  "length dk = 32 \<Longrightarrow> handles H E l (then_do (remove_channel H dk) (\<lambda>_. queue_event (Event_Close dk)))"
  by (intro handles_then handles_remove handles_queue_event) simp

lemma known_key_length:
  assumes "proto_inv H (p, s)"
  shows "channels (p_channels p) k = Some h \<Longrightarrow> length (h_discovery_key h) = 32"
    and "channels (p_channels p) (hex_encode H dk) = Some h \<Longrightarrow> length dk = 32"
  using assms cm_inv_handle [of H "p_channels p" s] injD [OF hex_inj, of dk "h_discovery_key h"]
  by (auto simp: proto_inv_def handle_inv_def)

lemma handles_command_close: "handles H E l (command_close H dk)"
  by (rule handles_likeI [where g = "\<lambda>dk. then_do (remove_channel H dk) (\<lambda>_. queue_event (Event_Close dk))"])
    (auto simp: command_close_def has_channel_def intro: handles_close_event known_key_length(2))

lemma handles_on_command: "handles H E (Commanded c) (on_command H E c)"
  by (cases c)
    (simp_all add: handles_command_open handles_command_close command_signal_local_def
      handles_queue_event)

lemma get_id_length:
  assumes "proto_inv H (p, s)"
  shows "get_local i (p_channels p) = Some h \<Longrightarrow> length (h_discovery_key h) = 32"
    and "get_remote i (p_channels p) = Some h \<Longrightarrow> length (h_discovery_key h) = 32"
  using known_key_length(1) [OF assms] by (auto simp: get_local_def get_remote_def split: option.splits)

lemma handles_close_local: "handles H E l (close_local H lid)"
  by (rule handles_likeI [where g = "\<lambda>dk. then_do (remove_channel H dk) (\<lambda>_. queue_event (Event_Close dk))"])
    (auto simp: close_local_def intro: handles_close_event get_id_length(1) split: option.splits)

lemma handles_on_close: "handles H E l (on_close H E rid x)"
proof (rule handles_likeI)
  fix p and s :: "'a sys"
  assume inv: "proto_inv H (p, s)"
  let ?g = "\<lambda>dk. then_do
      (\<lambda>(p, s). let (r, s) = forward_inbound_message_tolerate_closed E (unat rid)
           (Close x) (p_channels p) s in (r, p, s))
      (\<lambda>_. then_do (remove_channel H dk) (\<lambda>_. queue_event (Event_Close dk)))"
  have "handles H E l (?g dk)" if "length dk = 32" for dk
    by (intro handles_then [OF handles_env handles_close_event [OF that]]) (rule cells_le_forward)
  then show "snd (on_close H E rid x (p, s)) = (p, s) \<or>
      (\<exists>dk. handles H E l (?g dk) \<and> on_close H E rid x (p, s) = ?g dk (p, s))"
    using get_id_length(2) [OF inv]
    by (cases "get_remote (unat rid) (p_channels p)") (auto simp: on_close_def)
qed

lemma handles_on_open:
  assumes "message cm = Open x"
  shows "handles H E (Received cm) (on_open H E (channel cm) x)"
  unfolding handles_def
proof (intro allI impI)
  fix st r and st' :: "'a pstate"
  assume inv: "proto_inv H st" and run: "on_open H E (channel cm) x st = (r, st')" and r: "r \<noteq> Panic"
  obtain p s where st: "st = (p, s)" by fastforce
  let ?dk = "open_discovery_key x"
  let ?attach = "attach_remote H ?dk (unat (channel cm)) (open_capability x) (p_channels p) s"
  show "(pstep H E (Received cm))\<^sup>*\<^sup>* st st'"
  proof (cases "length ?dk = 32 \<and> (\<exists>t. ?attach = Ok t)")
    case True
    then obtain h m s1 where t: "?attach = Ok (h, m, s1)" by auto
    let ?st1 = "(p\<lparr>p_channels := m\<rparr>, s1)"
    from True t have step: "pstep H E (Received cm) st ?st1"
      unfolding st by (blast intro: p_attach_remote [OF assms])
    from pstep_inv [OF hex_inj inv step] have inv1: "proto_inv H ?st1" .
    have q: "handles H E (Received cm) (queue_event (Event_DiscoveryKey ?dk))"
      by (rule handles_queue_event) (simp add: True)
    have "(pstep H E (Received cm))\<^sup>*\<^sup>* ?st1 st'"
      using run r st t True
      by (auto simp: on_open_def parse_key_def split: if_splits option.splits
          intro: handlesD [OF handles_accept_channel inv1] handlesD [OF q inv1])
    with step show ?thesis by (rule converse_rtranclp_into_rtranclp)
  next
    case False
    with run r st show ?thesis
      by (auto simp: on_open_def parse_key_def and_then_eq_Ok split: outcome.splits if_splits)
  qed
qed

lemma handles_on_inbound_message: "handles H E (Received cm) (on_inbound_message H E cm)"
proof (cases "is_open_or_close (message cm)")
  case True
  then show ?thesis
    by (cases "message cm")
      (simp_all add: on_inbound_message_def into_split_def handles_on_open handles_on_close)
next
  case False
  have "handles H E (Received cm) (\<lambda>(p, s). let (r, s) = forward_inbound_message E (unat (channel cm))
      (message cm) (p_channels p) s in (r, p, s))"
    by (rule handles_env) (rule cells_le_forward)
  with False show ?thesis
    by (cases "message cm") (simp_all add: on_inbound_message_def into_split_def)
qed

end

section \<open>Polls are runs\<close>

text \<open>A run without emitted events, from a state that satisfies the invariant.\<close>

definition quiet_run :: "crypto \<Rightarrow> 'w env \<Rightarrow> 'w pstate \<Rightarrow> 'w pstate \<Rightarrow> bool" where
  "quiet_run H E st st' \<longleftrightarrow> (\<exists>tr. run H E st tr st' \<and> list_all quiet_label tr)"

lemma quiet_run_refl [simp, intro]: "quiet_run H E st st"
  unfolding quiet_run_def by (rule exI [of _ "[]"]) (simp add: run_Nil)

lemma quiet_run_trans [trans]:
  assumes "quiet_run H E a b" and "quiet_run H E b c"
  shows "quiet_run H E a c"
  using assms run_append unfolding quiet_run_def by (metis list_all_append)

lemma quiet_run_step:
  assumes "pstep H E l st st'" and "quiet_label l"
  shows "quiet_run H E st st'"
  unfolding quiet_run_def using run_snoc [OF run_Nil assms(1)] assms(2)
  by (intro exI [of _ "[l]"]) auto

lemma quiet_run_env: "cells_le s s' \<Longrightarrow> quiet_run H E (p, s) (p, s')"
  by (rule quiet_run_step [OF p_env [where l = Idle]]) simp_all

lemma quiet_run_world: "quiet_run H E st (fst st, set_world w (snd st))"
  by (cases st) (simp add: quiet_run_env set_world_def)

lemma quiet_run_steps:
  assumes "(pstep H E l)\<^sup>*\<^sup>* st st'" and "quiet_label l"
  shows "quiet_run H E st st'"
  using assms(1)
proof (induction rule: rtranclp_induct)
  case (step st1 st2)
  show ?case by (rule quiet_run_trans [OF step.IH quiet_run_step [OF step.hyps(2) assms(2)]])
qed (rule quiet_run_refl)

lemma handles_quiet:
  assumes "handles H E l f" and "proto_inv H st" and "f st = (r, st')" and "r \<noteq> Panic"
    and "quiet_label l"
  shows "quiet_run H E st st'"
  by (rule quiet_run_steps [OF handlesD [OF assms] assms(5)])

fun is_local_signal :: "message \<Rightarrow> bool" where
  "is_local_signal (LocalSignal _ _) = True"
| "is_local_signal _ = False"

text \<open>What the application may queue: messages that fit their Rust types, with an \<open>Open\<close> whose
  capability has 32 bytes if it has one, and local signals.\<close>

definition app_ok :: "ChannelMessage \<Rightarrow> bool" where
  "app_ok m \<longleftrightarrow> single_ok m \<or> is_local_signal (message m)"

definition outbound_ok :: "'w env \<Rightarrow> bool" where
  "outbound_ok E \<longleftrightarrow>
     (\<forall>w ms w'. outbound_rx_poll E w = (Ready (Some ms), w') \<longrightarrow> list_all app_ok ms)"

text \<open>\<open>retain\<close> drops the local signals and nothing else.\<close>

lemma retain_outbound_kept:
  "retain_outbound H ms st = (Ok kept, st') \<Longrightarrow>
   kept = filter (\<lambda>m. \<not> is_local_signal (message m)) ms"
proof (induction ms arbitrary: st kept)
  case (Cons m ms)
  show ?case
    using Cons.prems Cons.IH
    by (cases "message m")
      (auto simp: then_do_def on_outbound_message_def queue_event_def split: prod.splits outcome.splits)
qed simp

context crypto_lib
begin

lemma quiet_run_inv: "quiet_run H E st st' \<Longrightarrow> proto_inv H st \<Longrightarrow> proto_inv H st'"
proof -
  have "run H E st tr st' \<Longrightarrow> proto_inv H st \<Longrightarrow> proto_inv H st'" for tr
    by (induction rule: run.induct) (auto intro: pstep_inv [OF hex_inj])
  then show "quiet_run H E st st' \<Longrightarrow> proto_inv H st \<Longrightarrow> proto_inv H st'"
    unfolding quiet_run_def by blast
qed

lemma inbound_messages_quiet:
  "proto_inv H st \<Longrightarrow> on_inbound_channel_messages H E ms st = (r, st') \<Longrightarrow> r \<noteq> Panic \<Longrightarrow>
   quiet_run H E st st'"
proof (induction ms arbitrary: st)
  case (Cons m ms)
  obtain r1 st1 where f: "on_inbound_message H E m st = (r1, st1)"
    by (cases "on_inbound_message H E m st")
  with Cons.prems have r1: "r1 \<noteq> Panic" by (auto simp: then_do_def)
  have q: "quiet_run H E st st1"
    by (rule handles_quiet [OF handles_on_inbound_message Cons.prems(1) f r1]) simp
  show ?case
  proof (cases r1)
    case (Ok x)
    with f Cons.prems(2) have "on_inbound_channel_messages H E ms st1 = (r, st')"
      by (simp add: then_do_def)
    from Cons.IH [OF quiet_run_inv [OF q Cons.prems(1)] this Cons.prems(3)] q show ?thesis
      by (blast intro: quiet_run_trans)
  qed (use f q Cons.prems r1 in \<open>auto simp: then_do_def\<close>)
qed (simp add: return_unit_def)

lemma handles_on_outbound_message: "handles H E l (on_outbound_message H msg)"
proof -
  have "handles H E l (then_do (close_local H (channel msg)) (\<lambda>_ st. (Ok True, st)))"
    by (intro handles_then handles_close_local) (rule handles_pure)
  moreover have "handles H E l
      (then_do (queue_event (Event_LocalSignal nm dat)) (\<lambda>_ st. (Ok False, st)))" for nm dat
    by (intro handles_then handles_queue_event handles_pure) simp
  ultimately show ?thesis
    by (cases "message msg") (simp_all add: on_outbound_message_def handles_pure)
qed

lemma handles_retain_outbound: "handles H E l (retain_outbound H ms)"
proof (induction ms)
  case Nil
  show ?case by (rule handles_stepI) simp
next
  case (Cons m ms)
  have "handles H E l (then_do (on_outbound_message H m) (\<lambda>keep.
     then_do (retain_outbound H ms) (\<lambda>kept st. (Ok (if keep then m # kept else kept), st))))"
    by (intro handles_then handles_on_outbound_message Cons.IH handles_pure)
  then show ?case by (simp add: handles_def)
qed

lemma enqueue_all_steps:
  assumes "quiet_label l" and "list_all single_ok ms"
  shows "(pstep H E l)\<^sup>*\<^sup>* (p, s) (p\<lparr>p_io := fold enqueue ms (p_io p)\<rparr>, s)"
  using assms(2)
proof (induction ms arbitrary: p)
  case (Cons m ms)
  let ?p = "p\<lparr>p_io := enqueue m (p_io p)\<rparr>"
  have "pstep H E l (p, s) (?p, s)" using Cons.prems assms(1) by (intro p_enqueue) simp_all
  moreover have "(pstep H E l)\<^sup>*\<^sup>* (?p, s) (?p\<lparr>p_io := fold enqueue ms (p_io ?p)\<rparr>, s)"
    using Cons.prems by (intro Cons.IH) simp
  ultimately show ?case by (simp add: converse_rtranclp_into_rtranclp)
qed simp

lemma handles_on_outbound_messages:
  assumes "list_all app_ok ms"
  shows "handles H E l (on_outbound_messages H ms)"
  unfolding handles_def
proof (intro allI impI)
  fix st r and st' :: "'a pstate"
  assume l: "quiet_label l" and inv: "proto_inv H st" and run: "on_outbound_messages H ms st = (r, st')" and r: "r \<noteq> Panic"
  show "(pstep H E l)\<^sup>*\<^sup>* st st'"
  proof (cases "ms = []")
    case True
    with run show ?thesis by (simp add: on_outbound_messages_def return_unit_def)
  next
    case False
    obtain r1 p1 s1 where f: "retain_outbound H ms st = (r1, p1, s1)"
      by (cases "retain_outbound H ms st") auto
    with run r False have r1: "r1 \<noteq> Panic" by (auto simp: on_outbound_messages_def then_do_def)
    note steps = handlesD [OF handles_retain_outbound inv f r1 l]
    show ?thesis
    proof (cases r1)
      case (Ok kept)
      with f have "kept = filter (\<lambda>m. \<not> is_local_signal (message m)) ms"
        using retain_outbound_kept by metis
      with assms have "list_all single_ok kept"
        by (auto simp: list_all_iff app_ok_def simp del: single_ok.simps)
      from enqueue_all_steps [OF l this] have
        "(pstep H E l)\<^sup>*\<^sup>* (p1, s1) (p1\<lparr>p_io := fold enqueue kept (p_io p1)\<rparr>, s1)" .
      with steps have "(pstep H E l)\<^sup>*\<^sup>* st (p1\<lparr>p_io := fold enqueue kept (p_io p1)\<rparr>, s1)"
        by (rule rtranclp_trans)
      then show ?thesis
        using run False f Ok by (auto simp: on_outbound_messages_def then_do_def)
    qed (use run False f r1 steps in \<open>auto simp: on_outbound_messages_def then_do_def\<close>)
  qed
qed

lemma poll_commands_quiet:
  assumes "poll_commands H E st = Some (r, st')" and "proto_inv H st" and "r \<noteq> Panic"
  shows "quiet_run H E st st'"
proof -
  have "h = H \<Longrightarrow> proto_inv h st \<Longrightarrow> fst y \<noteq> Panic \<Longrightarrow> quiet_run h e st (snd y)"
    if "poll_commands h e st = Some y" for h and e :: "'a env" and st y
    using that
  proof (induction h e st y rule: poll_commands.raw_induct [rotated, consumes 1, case_names step])
    case (step rec h e st y)
    note hyps = step.hyps [unfolded step.prems(1)] and inv = step.prems(2) [unfolded step.prems(1)]
    obtain pr w where w: "command_rx_poll e (world (snd st)) = (pr, w)" by fastforce
    let ?st = "(fst st, set_world w (snd st))"
    note q0 = quiet_run_world [of H e st w]
    show ?case unfolding step.prems(1)
    proof (cases "\<exists>c. pr = Ready (Some c)")
      case True
      then obtain c where c: "pr = Ready (Some c)" by blast
      obtain r1 st1 where f: "on_command H e c ?st = (r1, st1)" by (cases "on_command H e c ?st")
      have r1: "r1 \<noteq> Panic" using hyps step.prems(3) w c f by auto
      have "quiet_run H e ?st st1"
        by (rule handles_quiet [OF handles_on_command quiet_run_inv [OF q0 inv] f r1]) simp
      with q0 have q1: "quiet_run H e st st1" by (rule quiet_run_trans)
      show "quiet_run H e st (snd y)"
      proof (cases r1)
        case (Ok x)
        with hyps w c f have "rec H e st1 = Some y" by simp
        from step.IH [OF this refl quiet_run_inv [OF q1 inv] step.prems(3)] show ?thesis
          by (rule quiet_run_trans [OF q1])
      qed (use hyps w c f q1 r1 in auto)
    next
      case False
      with hyps w q0 show "quiet_run H e st (snd y)" by (auto split: poll.splits option.splits)
    qed
  qed
  from this [OF assms(1) refl assms(2)] assms(3) show ?thesis by simp
qed

lemma poll_inbound_read_quiet:
  assumes "poll_inbound_read C H E st = Some (r, st')" and "proto_inv H st" and "r \<noteq> Panic"
  shows "quiet_run H E st st'"
proof -
  have "h = H \<Longrightarrow> proto_inv h st \<Longrightarrow> fst y \<noteq> Panic \<Longrightarrow> quiet_run h e st (snd y)"
    if "poll_inbound_read c h e st = Some y" for c h and e :: "'a env" and st y
    using that
  proof (induction c h e st y rule: poll_inbound_read.raw_induct [rotated, consumes 1, case_names step])
    case (step rec c h e st y)
    note hyps = step.hyps [unfolded step.prems(1)] and inv = step.prems(2) [unfolded step.prems(1)]
    obtain pr w where w: "poll_inbound c e (world (snd st)) = Some (pr, w)"
      using hyps by (auto split: option.splits)
    let ?st = "(fst st, set_world w (snd st))"
    note q0 = quiet_run_world [of H e st w]
    show ?case unfolding step.prems(1)
    proof (cases "\<exists>ms. pr = Ready (Some (Ok ms))")
      case True
      then obtain ms where ms: "pr = Ready (Some (Ok ms))" by blast
      obtain r1 st1 where f: "on_inbound_channel_messages H e ms ?st = (r1, st1)"
        by (cases "on_inbound_channel_messages H e ms ?st")
      have r1: "r1 \<noteq> Panic" using hyps step.prems(3) w ms f by auto
      note q1 = quiet_run_trans [OF q0 inbound_messages_quiet [OF quiet_run_inv [OF q0 inv] f r1]]
      show "quiet_run H e st (snd y)"
      proof (cases r1)
        case (Ok x)
        with hyps w ms f have "rec c H e st1 = Some y" by simp
        from step.IH [OF this refl quiet_run_inv [OF q1 inv] step.prems(3)] show ?thesis
          by (rule quiet_run_trans [OF q1])
      qed (use hyps w ms f q1 r1 in auto)
    next
      case False
      with hyps w q0 show "quiet_run H e st (snd y)"
        by (auto split: poll.splits option.splits outcome.splits)
    qed
  qed
  from this [OF assms(1) refl assms(2)] assms(3) show ?thesis by simp
qed

lemma drive_outbound_quiet:
  assumes "drive_outbound C E st = (r, st')"
  shows "quiet_run H E st st'"
proof -
  obtain p s where st: "st = (p, s)" by fastforce
  obtain r1 q w where q: "outbound_loop C E True (write_queue (p_io p)) (world s) = (r1, q, w)"
    by (rule prod_cases3)
  from outbound_loop_suffix [OF q] obtain pre where "write_queue (p_io p) = pre @ q" by blast
  then have "pstep H E Idle (p, s) (p\<lparr>p_io := (p_io p)\<lparr>write_queue := q\<rparr>\<rparr>, set_world w s)"
    by (intro p_write) (simp_all add: set_world_def)
  with assms q have "pstep H E Idle st st'"
    by (simp add: st drive_outbound_def poll_outbound_def)
  then show ?thesis by (rule quiet_run_step) simp
qed

lemma poll_outbound_write_quiet:
  assumes "poll_outbound_write C H E st = Some (r, st')" and "proto_inv H st" and "r \<noteq> Panic"
    and "outbound_ok E"
  shows "quiet_run H E st st'"
proof -
  have "h = H \<Longrightarrow> outbound_ok e \<Longrightarrow> proto_inv h st \<Longrightarrow> fst y \<noteq> Panic \<Longrightarrow> quiet_run h e st (snd y)"
    if "poll_outbound_write c h e st = Some y" for c h and e :: "'a env" and st y
    using that
  proof (induction c h e st y rule: poll_outbound_write.raw_induct [rotated, consumes 1, case_names step])
    case (step rec c h e st y)
    note hyps = step.hyps [unfolded step.prems(1)] and inv = step.prems(3) [unfolded step.prems(1)]
    obtain r0 st0 where d: "drive_outbound c e st = (r0, st0)" by (cases "drive_outbound c e st")
    note qd = drive_outbound_quiet [OF d]
    obtain pr w where w: "outbound_rx_poll e (world (snd st0)) = (pr, w)" by fastforce
    let ?st = "(fst st0, set_world w (snd st0))"
    note q0 = quiet_run_trans [OF qd quiet_run_world [of H e st0 w]]
    show ?case unfolding step.prems(1)
    proof (cases "\<exists>ms x. r0 = Ok x \<and> pr = Ready (Some ms)")
      case True
      then obtain ms x where ms: "r0 = Ok x" "pr = Ready (Some ms)" by blast
      with w step.prems(2) have ok: "list_all app_ok ms" unfolding outbound_ok_def by blast
      obtain r1 st1 where f: "on_outbound_messages H ms ?st = (r1, st1)"
        by (cases "on_outbound_messages H ms ?st")
      have r1: "r1 \<noteq> Panic" using hyps step.prems(4) d w ms f by auto
      have "quiet_run H e ?st st1"
        by (rule handles_quiet [OF handles_on_outbound_messages [OF ok, where l = Idle]
              quiet_run_inv [OF q0 inv] f r1]) simp
      note q1 = quiet_run_trans [OF q0 this]
      show "quiet_run H e st (snd y)"
      proof (cases r1)
        case (Ok x)
        with hyps d w ms f have "rec c H e st1 = Some y" by simp
        from step.IH [OF this refl step.prems(2) quiet_run_inv [OF q1 inv] step.prems(4)] show ?thesis
          by (rule quiet_run_trans [OF q1])
      qed (use hyps d w ms f q1 r1 in auto)
    next
      case False
      with hyps d w q0 qd show "quiet_run H e st (snd y)"
        by (auto split: poll.splits option.splits outcome.splits)
    qed
  qed
  from this [OF assms(1) refl assms(4,2)] assms(3) show ?thesis by simp
qed

end

text \<open>What a poll does, as a run: an event is returned where it is emitted, at the end.\<close>

definition poll_run ::
  "crypto \<Rightarrow> 'w env \<Rightarrow> 'w pstate \<Rightarrow> (io_error, Event poll) outcome \<times> 'w pstate \<Rightarrow> bool"
where
  "poll_run H E st = (\<lambda>(r, st').
     case r of
       Ok (Ready ev) \<Rightarrow> (\<exists>st1. quiet_run H E st st1 \<and> pstep H E (Emitted ev) st1 st')
     | Panic \<Rightarrow> True
     | _ \<Rightarrow> quiet_run H E st st')"

lemma poll_run_emit: "pstep H E (Emitted ev) st st' \<Longrightarrow> poll_run H E st (Ok (Ready ev), st')"
  unfolding poll_run_def using quiet_run_refl [of H E st] by (simp del: split_paired_Ex) blast

lemma poll_run_prefix:
  assumes "quiet_run H E st st1" and "poll_run H E st1 res"
  shows "poll_run H E st res"
proof (cases "\<exists>ev. fst res = Ok (Ready ev)")
  case True
  then obtain ev st' where res: "res = (Ok (Ready ev), st')" by (metis prod.collapse)
  with assms(2) obtain st2 where "quiet_run H E st1 st2" "pstep H E (Emitted ev) st2 st'"
    by (auto simp: poll_run_def)
  with quiet_run_trans [OF assms(1)] show ?thesis
    unfolding res poll_run_def by (simp del: split_paired_Ex) blast
next
  case False
  with assms quiet_run_trans [OF assms(1)] show ?thesis
    by (auto simp: poll_run_def split: outcome.splits poll.splits prod.splits)
qed

lemma poll_run_pending: "poll_run H E st (Ok Pending, st)"
  by (simp add: poll_run_def)

lemma poll_run_trace:
  assumes "poll_run H E st (r, st')" and "r \<noteq> Panic"
  shows "\<exists>tr. list_all quiet_label tr \<and>
    (case r of Ok (Ready ev) \<Rightarrow> run H E st (tr @ [Emitted ev]) st' | _ \<Rightarrow> run H E st tr st')"
proof (cases "\<exists>ev. r = Ok (Ready ev)")
  case True
  then obtain ev where ev: "r = Ok (Ready ev)" by blast
  with assms(1) obtain st1 tr where "run H E st tr st1" "list_all quiet_label tr"
    "pstep H E (Emitted ev) st1 st'" by (auto simp: poll_run_def quiet_run_def)
  with ev show ?thesis using run_snoc by fastforce
next
  case False
  with assms show ?thesis
    by (auto simp: poll_run_def quiet_run_def split: outcome.splits poll.splits)
qed

lemma pop_event_run: "pop_event st = Some res \<Longrightarrow> poll_run H E st res"
  by (cases st)
    (auto simp: pop_event_def intro: poll_run_emit poll_run_pending p_pop split: list.splits)

lemma or_return_run:
  assumes "or_return x g = Some res" and "\<And>r st1. x = Some (r, st1) \<Longrightarrow> r \<noteq> Panic \<Longrightarrow> quiet_run H E st st1"
    and "\<And>u st1. x = Some (Ok u, st1) \<Longrightarrow> g st1 = Some res \<Longrightarrow> poll_run H E st1 res"
  shows "poll_run H E st res"
proof (cases "\<exists>u st1. x = Some (Ok u, st1)")
  case True
  then obtain u st1 where x: "x = Some (Ok u, st1)" by blast
  with assms(1) have "g st1 = Some res" by (simp add: or_return_def)
  from poll_run_prefix [OF assms(2) [OF x] assms(3) [OF x this]] show ?thesis by simp
next
  case False
  with assms(1,2) show ?thesis
    by (auto simp: or_return_def poll_run_def split: option.splits outcome.splits prod.splits)
qed

context crypto_lib
begin

lemma poll_established_run:
  assumes "poll_established C H E st = Some res" and inv: "proto_inv H st" and out: "outbound_ok E"
  shows "poll_run H E st res"
proof -
  obtain p s where st: "st = (p, s)" by fastforce
  show ?thesis
  proof (cases "(if handshake_emitted p then None else remote_public_key E st) = None \<and> queued_events p = []")
    case False
    then show ?thesis
      using assms(1) pop_event_run [of "(p, s)" res H E]
      by (auto simp: st poll_established_def intro: poll_run_emit p_handshake split: option.splits if_splits)
  next
    case True
    then have run: "or_return (poll_inbound_read C H E st) (\<lambda>st.
           or_return (poll_commands H E st) (\<lambda>st.
           or_return (poll_outbound_write C H E st) pop_event)) = Some res"
      using assms(1) by (cases "handshake_emitted p") (simp_all add: st poll_established_def)
    show ?thesis
    proof (rule or_return_run [OF run])
      fix r st1
      assume "poll_inbound_read C H E st = Some (r, st1)" "r \<noteq> Panic"
      then show "quiet_run H E st st1" using poll_inbound_read_quiet inv by blast
    next
      fix u st1
      assume 1: "poll_inbound_read C H E st = Some (Ok u, st1)"
        and run: "or_return (poll_commands H E st1) (\<lambda>st.
           or_return (poll_outbound_write C H E st) pop_event) = Some res"
      have inv1: "proto_inv H st1"
        using quiet_run_inv [OF poll_inbound_read_quiet [OF 1 inv] inv] by simp
      show "poll_run H E st1 res"
      proof (rule or_return_run [OF run])
        show "quiet_run H E st1 st2" if "poll_commands H E st1 = Some (r, st2)" "r \<noteq> Panic" for r st2
          using poll_commands_quiet [OF that(1) inv1 that(2)] .
        show "poll_run H E st2 res" if 2: "poll_commands H E st1 = Some (Ok u, st2)"
          and run: "or_return (poll_outbound_write C H E st2) pop_event = Some res" for u st2
        proof (rule or_return_run [OF run])
          have inv2: "proto_inv H st2"
            using quiet_run_inv [OF poll_commands_quiet [OF 2 inv1] inv1] by simp
          show "quiet_run H E st2 st3"
            if "poll_outbound_write C H E st2 = Some (r, st3)" "r \<noteq> Panic" for r st3
            using poll_outbound_write_quiet [OF that(1) inv2 that(2) out] .
        qed (rule pop_event_run)
      qed
    qed
  qed
qed

lemma poll_next_run:
  assumes "poll_next C H E st = Some res" and inv: "proto_inv H st" and out: "outbound_ok E"
  shows "poll_run H E st res"
proof (cases "p_is_initiator (fst st) \<and> handshake_hash E st = None")
  case False
  with assms(1) have "poll_established C H E st = Some res" by (auto simp: poll_next_def)
  then show ?thesis using inv out by (rule poll_established_run)
next
  case True
  then have run: "or_return (poll_outbound_write C H E st) (\<lambda>st.
        or_return (poll_inbound_read C H E st) (\<lambda>st.
        if handshake_hash E st = None then Some (Ok Pending, st)
        else poll_established C H E st)) = Some res"
    using assms(1) by (simp add: poll_next_def)
  show ?thesis
  proof (rule or_return_run [OF run])
    show "quiet_run H E st st1"
      if "poll_outbound_write C H E st = Some (r, st1)" "r \<noteq> Panic" for r st1
      using poll_outbound_write_quiet [OF that(1) inv that(2) out] .
    show "poll_run H E st1 res" if 1: "poll_outbound_write C H E st = Some (Ok u, st1)"
      and run: "or_return (poll_inbound_read C H E st1) (\<lambda>st.
        if handshake_hash E st = None then Some (Ok Pending, st)
        else poll_established C H E st) = Some res" for u st1
    proof (rule or_return_run [OF run])
      have inv1: "proto_inv H st1"
        using quiet_run_inv [OF poll_outbound_write_quiet [OF 1 inv _ out] inv] by simp
      show q: "quiet_run H E st1 st2"
        if "poll_inbound_read C H E st1 = Some (r, st2)" "r \<noteq> Panic" for r st2
        using poll_inbound_read_quiet [OF that(1) inv1 that(2)] .
      show "poll_run H E st2 res" if 2: "poll_inbound_read C H E st1 = Some (Ok u, st2)"
        and run: "(if handshake_hash E st2 = None then Some (Ok Pending, st2)
          else poll_established C H E st2) = Some res" for u st2
        using run poll_established_run [OF _ quiet_run_inv [OF q [OF 2] inv1] out, of C res]
        by (auto simp: poll_run_def split: if_splits)
    qed
  qed
qed

end

section \<open>Channels are authenticated\<close>

text \<open>The handshake hash of the session: the cipher reports it or nothing.\<close>

definition session_hash :: "'w env \<Rightarrow> bytes \<Rightarrow> bool" where
  "session_hash E hash \<longleftrightarrow> (\<forall>w h. cipher_handshake_hash E w = Some h \<longrightarrow> h = hash)"

text \<open>What the history holds for a handle: its key was opened by a command, and its remote id and
  capability came with an \<open>Open\<close> for its discovery key.\<close>

definition witnessed :: "label list \<Rightarrow> ChannelHandle \<Rightarrow> bool" where
  "witnessed tr h \<longleftrightarrow>
     (\<forall>ls. h_local_state h = Some ls \<longrightarrow> Commanded (Command_Open (ls_key ls)) \<in> set tr) \<and>
     (\<forall>rs. h_remote_state h = Some rs \<longrightarrow>
        (\<exists>cm x. Received cm \<in> set tr \<and> message cm = Open x \<and>
           open_discovery_key x = h_discovery_key h \<and>
           open_capability x = rs_remote_capability rs))"

text \<open>\<open>init\<close>: whether this side is the initiator.\<close>

definition authentic :: "crypto \<Rightarrow> bytes \<Rightarrow> bool \<Rightarrow> label list \<Rightarrow> Channel \<Rightarrow> bool" where
  "authentic H hash init tr ch \<longleftrightarrow>
     Commanded (Command_Open (ch_key ch)) \<in> set tr \<and>
     discovery_key H (ch_key ch) = Ok (ch_discovery_key ch) \<and>
     (\<exists>cm x c. Received cm \<in> set tr \<and> message cm = Open x \<and>
        open_discovery_key x = ch_discovery_key ch \<and> open_capability x = Some c \<and>
        replicate_capability H (\<not> init) (ch_key ch) hash = Ok c)"

definition auth_inv :: "crypto \<Rightarrow> bytes \<Rightarrow> bool \<Rightarrow> label list \<Rightarrow> 'w pstate \<Rightarrow> bool" where
  "auth_inv H hash init tr = (\<lambda>(p, s). p_is_initiator p = init \<and>
     (\<forall>k h. channels (p_channels p) k = Some h \<longrightarrow> witnessed tr h) \<and>
     (\<forall>ch. Event_Channel ch \<in> set (queued_events p) \<or> Emitted (Event_Channel ch) \<in> set tr \<longrightarrow>
        authentic H hash init tr ch))"

lemma witnessed_mono: "witnessed tr h \<Longrightarrow> set tr \<subseteq> set tr' \<Longrightarrow> witnessed tr' h"
  unfolding witnessed_def by blast

lemma authentic_mono: "authentic H hash i tr ch \<Longrightarrow> set tr \<subseteq> set tr' \<Longrightarrow> authentic H hash i tr' ch"
  unfolding authentic_def by blast

text \<open>Steps that touch neither handles nor channel events.\<close>

lemma auth_inv_mono:
  assumes "auth_inv H hash i tr (p, s)" and "set tr \<subseteq> set tr'"
    and "p_is_initiator p' = p_is_initiator p"
    and "\<And>k h. channels (p_channels p') k = Some h \<Longrightarrow> channels (p_channels p) k = Some h \<or> witnessed tr' h"
    and "\<And>ch. Event_Channel ch \<in> set (queued_events p') \<or> Emitted (Event_Channel ch) \<in> set tr' \<Longrightarrow>
      Event_Channel ch \<in> set (queued_events p) \<or> Emitted (Event_Channel ch) \<in> set tr \<or>
      authentic H hash i tr' ch"
  shows "auth_inv H hash i tr' (p', s')"
  using assms witnessed_mono [OF _ assms(2)] authentic_mono [OF _ assms(2)]
  unfolding auth_inv_def by (simp, blast)

lemma witnessed_local_handle:
  assumes "\<And>h. old = Some h \<Longrightarrow> witnessed tr h" and "Commanded (Command_Open key) \<in> set tr"
  shows "witnessed tr (local_handle i dk key old s)"
  using assms by (cases old) (simp_all add: witnessed_def local_handle_def handle_attach_local_def)

lemma witnessed_remote_handle:
  assumes "\<And>h. old = Some h \<Longrightarrow> witnessed tr h \<and> h_discovery_key h = open_discovery_key x"
    and "Received cm \<in> set tr" and "message cm = Open x"
  shows "witnessed tr (remote_handle i (open_discovery_key x) (open_capability x) old s)"
  using assms
  by (cases old) (auto simp: witnessed_def remote_handle_def handle_attach_remote_def)

lemma accepted_authentic:
  assumes inv: "cm_inv H (p_channels p, s)" and sess: "session_hash E hash"
    and w: "\<And>k h. channels (p_channels p) k = Some h \<Longrightarrow> witnessed tr h"
    and prep: "prepare_to_verify lid (p_channels p) = Ok (key, cap)"
    and ver: "p_verify_remote_capability H E cap key (p, s) = Some (Ok ())"
    and acc: "accept E lid (p_channels p) s = Ok (ch, m, s')"
  shows "authentic H hash (p_is_initiator p) tr ch"
proof -
  obtain k h c and ls :: LocalState where k: "vec_get (local_id (p_channels p)) lid = Some (Some k)"
    "channels (p_channels p) k = Some h" "h_local_state h = Some ls" "is_connected h"
    and ch: "ch = Channel_new (Some c) c (h_discovery_key h) (ls_key ls) (ls_local_id ls) (h_closed h)"
    by (rule accept_OkE [OF acc]) blast
  from k(4) obtain rs where rs: "h_remote_state h = Some rs" by (auto simp: is_connected_def)
  from prep k rs have kc: "key = ls_key ls" "cap = rs_remote_capability rs"
    by (auto simp: prepare_to_verify_def get_local_def handle_prepare_to_verify_def)
  from ver obtain rpk h0 where "handshake_hash E (p, s) = Some h0"
    "verify_remote_capability H (from_pre_encrypted (p_is_initiator p) (public_key E (p, s)) rpk h0)
       cap key = Ok ()"
    by (auto simp: p_verify_remote_capability_def split: option.splits)
  moreover from this(1) sess have "h0 = hash"
    by (auto simp: handshake_hash_def session_hash_def)
  ultimately obtain c0 where "cap = Some c0"
    "replicate_capability H (\<not> p_is_initiator p) key hash = Ok c0"
    by (auto simp: verify_iff from_pre_encrypted_def)
  with w [OF k(2)] k(3) rs kc cm_inv_handle [OF inv k(2)] show ?thesis
    unfolding authentic_def witnessed_def handle_inv_def ch Channel_new_def by fastforce
qed

context crypto_lib
begin

lemma auth_step:
  assumes "proto_inv H st" and "auth_inv H hash i tr st" and "session_hash E hash"
    and "pstep H E l st st'"
  shows "auth_inv H hash i (tr @ [l]) st'"
  using assms(4)
proof cases
  case (p_attach_local key p s h m s')
  with assms(1) have inv: "cm_inv H (p_channels p, s)" by (simp add: proto_inv_def)
  obtain k j dk where m: "channels m = (channels (p_channels p))(k \<mapsto>
      local_handle j dk key (channels (p_channels p) k) s)"
    by (rule attach_local_OkE [OF p_attach_local(4) cm_inv_local_ids [OF inv]]) auto
  have "witnessed (tr @ [l]) (local_handle j dk key (channels (p_channels p) k) s)"
    using assms(2) p_attach_local(1,2) witnessed_mono [of tr _ "tr @ [l]"]
    by (intro witnessed_local_handle) (auto simp: auth_inv_def)
  with m show ?thesis
    unfolding p_attach_local(1-3)
    by (intro auth_inv_mono [OF assms(2) [unfolded p_attach_local(2)]])
      (auto simp: p_attach_local(1) split: if_splits)
next
  case (p_attach_remote cm x p s h m s')
  with assms(1) have inv: "cm_inv H (p_channels p, s)" by (simp add: proto_inv_def)
  let ?k = "hex_encode H (open_discovery_key x)" and ?j = "unat (channel cm)"
  let ?h = "remote_handle ?j (open_discovery_key x) (open_capability x) (channels (p_channels p) ?k) s"
  have m: "channels m = (channels (p_channels p))(?k \<mapsto> ?h)"
    by (rule attach_remote_OkE [OF p_attach_remote(6)]) auto
  have "h_discovery_key h0 = open_discovery_key x" if "channels (p_channels p) ?k = Some h0" for h0
    using cm_inv_handle [OF inv that] hex_inj by (simp add: handle_inv_def inj_eq)
  then have "witnessed (tr @ [l]) ?h"
    using assms(2) p_attach_remote(1,2,4) witnessed_mono [of tr _ "tr @ [l]"]
    by (intro witnessed_remote_handle [of _ _ _ cm]) (auto simp: auth_inv_def)
  with m show ?thesis
    unfolding p_attach_remote(1-3)
    by (intro auth_inv_mono [OF assms(2) [unfolded p_attach_remote(2)]])
      (auto simp: p_attach_remote(1) split: if_splits)
next
  case (p_accept lid p key cap s ch m s')
  have w: "\<And>k h. channels (p_channels p) k = Some h \<Longrightarrow> witnessed tr h"
    and init: "p_is_initiator p = i"
    using assms(2) p_accept(1) by (simp_all add: auth_inv_def)
  from assms(1) p_accept(1) have inv: "cm_inv H (p_channels p, s)" by (simp add: proto_inv_def)
  have a: "authentic H hash i (tr @ [l]) ch"
    by (rule authentic_mono [OF accepted_authentic [OF inv assms(3) w p_accept(4-6), unfolded init]])
      auto
  obtain k h c where m: "channels m = (channels (p_channels p))(k \<mapsto> h\<lparr>h_inbound_tx := Some c\<rparr>)"
    and h: "channels (p_channels p) k = Some h"
    by (rule accept_OkE [OF p_accept(6)]) auto
  have "witnessed (tr @ [l]) (h\<lparr>h_inbound_tx := Some c\<rparr>)"
    using witnessed_mono [OF w [OF h], of "tr @ [l]"] by (auto simp: witnessed_def)
  with m a p_accept(3) show ?thesis
    unfolding p_accept(1,2)
    by (intro auth_inv_mono [OF assms(2) [unfolded p_accept(1)]]) (auto split: if_splits)
next
  case (p_remove dk p s m s')
  have "channels m k = Some h \<Longrightarrow> channels (p_channels p) k = Some h" for k h
    using p_remove(4) assms(1) remove_run [of H "p_channels p" s dk] remove_absent [of "p_channels p" H dk s]
    by (cases "channels (p_channels p) (hex_encode H dk)")
      (auto simp: p_remove(1) proto_inv_def split: if_splits)
  then show ?thesis
    using p_remove(3)
    unfolding p_remove(1,2) by (intro auth_inv_mono [OF assms(2) [unfolded p_remove(1)]]) auto
qed (use assms(2) in \<open>auto simp: auth_inv_def
    intro: witnessed_mono [where tr = tr] authentic_mono [where tr = tr]\<close>)

end

lemma auth_inv_new: "auth_inv H hash (cipher_is_initiator E w) [] (Protocol_new E w, s)"
  by (simp add: auth_inv_def Protocol_new_def ChannelMap_new_def)

context crypto_lib
begin

lemma run_inv: "run H E st tr st' \<Longrightarrow> proto_inv H st \<Longrightarrow> proto_inv H st'"
  by (induction rule: run.induct) (auto intro: pstep_inv [OF hex_inj])

lemma run_authentic:
  assumes "run H E (Protocol_new E w, s) tr st" and "session_hash E hash"
  shows "auth_inv H hash (cipher_is_initiator E w) tr st"
  using assms(1)
proof (induction "(Protocol_new E w, s)" tr st rule: run.induct)
  case (run_snoc tr st1 l st2)
  show ?case
    by (rule auth_step [OF run_inv [OF run_snoc.hyps(1) proto_inv_new] run_snoc.hyps(2) assms(2)
          run_snoc.hyps(3)])
qed (rule auth_inv_new)

end

section \<open>The handshake event\<close>

fun is_handshake :: "label \<Rightarrow> bool" where
  "is_handshake (Emitted (Event_Handshake _)) = True"
| "is_handshake _ = False"

lemma quiet_not_handshake: "quiet_label l \<Longrightarrow> \<not> is_handshake l"
  by (cases l) simp_all

lemma not_handshake: "\<not> (\<exists>key. ev = Event_Handshake key) \<Longrightarrow> \<not> is_handshake (Emitted ev)"
  by (cases ev) simp_all

lemma handshake_step:
  assumes "proto_inv H st" and "pstep H E l st st'"
  shows "handshake_emitted (fst st') \<longleftrightarrow> handshake_emitted (fst st) \<or> is_handshake l"
    and "is_handshake l \<Longrightarrow> \<not> handshake_emitted (fst st)"
  using assms(2,1)
  by (cases; auto simp: quiet_not_handshake not_handshake proto_inv_def)+

context crypto_lib
begin

lemma handshake_once:
  assumes "run H E (Protocol_new E w, s) tr st"
  shows "length (filter is_handshake tr) = (if handshake_emitted (fst st) then 1 else 0)"
  using assms
proof (induction "(Protocol_new E w, s)" tr st rule: run.induct)
  case run_Nil
  then show ?case by (simp add: Protocol_new_def)
next
  case (run_snoc tr st1 l st2)
  show ?case
    using run_snoc.hyps(2) handshake_step [OF run_inv [OF run_snoc.hyps(1) proto_inv_new] run_snoc.hyps(3)]
    by (cases "is_handshake l") auto
qed

end

section \<open>The handlers, on every branch\<close>

lemma get_local_handle:
  assumes "cm_inv H (m, s)" and "channels m k = Some h" and "h_local_state h = Some ls"
  shows "vec_get (local_id m) (ls_local_id ls) = Some (Some k)" and "get_local (ls_local_id ls) m = Some h"
  using cm_inv_handle [OF assms(1,2)] assms(2,3) by (simp_all add: handle_inv_def get_local_def)

text \<open>\<open>accept_channel\<close> of a channel open on both sides: what counts is the capability.\<close>

lemma accept_channel_run:
  assumes "cm_inv H (p_channels p, s)" and "channels (p_channels p) k = Some h"
    and "h_local_state h = Some ls" and "h_remote_state h = Some rs"
    and "remote_public_key E (p, s) = Some rpk" and "handshake_hash E (p, s) = Some hash"
    and "replicate_capability H (\<not> p_is_initiator p) (ls_key ls) hash = Ok c"
    and "channel_unbounded E (world s) = (inb, w)"
  shows "accept_channel H E (ls_local_id ls) (p, s) =
    (if rs_remote_capability rs = Some c
     then (Ok (), p\<lparr>p_channels := (p_channels p)
              \<lparr>channels := (channels (p_channels p))(k \<mapsto> h\<lparr>h_inbound_tx := Some inb\<rparr>)\<rparr>,
            queued_events := queued_events p @ [Event_Channel
              (Channel_new (Some inb) inb (h_discovery_key h) (ls_key ls) (ls_local_id ls)
                (h_closed h))]\<rparr>, s\<lparr>world := w\<rparr>)
     else (Err (IoError PermissionDenied ''Invalid remote channel capability''), p, s))"
  using assms get_local_handle [OF assms(1-3)]
  by (auto simp: accept_channel_def prepare_to_verify_def handle_prepare_to_verify_def is_connected_def
      p_verify_remote_capability_def verify_remote_capability_def remote_capability_def
      from_pre_encrypted_def accept_def get_local_mut_def handle_open_def queue_event_def Let_def
      split: option.split)

text \<open>\<open>on_open\<close> for a discovery key that is not known, and for one that was opened locally.\<close>

lemma on_open_unknown:
  assumes "length (open_discovery_key x) = 32" and "unat ch + 1 \<le> vec_max_len"
    and "channels (p_channels p) (hex_encode H (open_discovery_key x)) = None"
  shows "\<exists>m. on_open H E ch x (p, s) =
      (Ok (), p\<lparr>p_channels := m,
         queued_events := queued_events p @ [Event_DiscoveryKey (open_discovery_key x)]\<rparr>,
       s\<lparr>cells := cells s @ [False]\<rparr>) \<and>
    local_id m = local_id (p_channels p) \<and>
    get_remote (unat ch) m =
      Some \<lparr>h_discovery_key = open_discovery_key x, h_local_state = None,
        h_remote_state = Some \<lparr>rs_remote_id = unat ch, rs_remote_capability = open_capability x\<rparr>,
        h_inbound_tx = None, h_closed = length (cells s)\<rparr>"
proof -
  let ?dk = "open_discovery_key x" and ?m = "p_channels p"
  obtain r where r: "attach_remote H ?dk (unat ch) (open_capability x) ?m s =
      Ok (remote_handle (unat ch) ?dk (open_capability x) None s,
        ?m\<lparr>channels := (channels ?m)(hex_encode H ?dk \<mapsto>
            remote_handle (unat ch) ?dk (open_capability x) None s), remote_id := r\<rparr>,
        s\<lparr>cells := cells s @ [False]\<rparr>)" "vec_get r (unat ch) = Some (Some (hex_encode H ?dk))"
    using attach_remote_run [of "unat ch" ?m H ?dk "open_capability x" s] assms(2,3)
    by (auto simp: attach_sys_def)
  then show ?thesis
    using assms(1)
    by (auto simp: on_open_def parse_key_def queue_event_def is_connected_def remote_handle_def
        get_remote_def)
qed

text \<open>The handle of a channel that was just connected.\<close>

definition connected_handle :: "nat \<Rightarrow> bytes option \<Rightarrow> nat \<Rightarrow> ChannelHandle \<Rightarrow> ChannelHandle" where
  "connected_handle rid cap inb h =
     h\<lparr>h_remote_state := Some \<lparr>rs_remote_id = rid, rs_remote_capability = cap\<rparr>, h_inbound_tx := Some inb\<rparr>"

lemma on_open_known_run:
  assumes inv: "cm_inv H (p_channels p, s)" and "inj (hex_encode H)"
    and "length (open_discovery_key x) = 32" and "unat ch + 1 \<le> vec_max_len"
    and h: "channels (p_channels p) (hex_encode H (open_discovery_key x)) = Some h"
    and ls: "h_local_state h = Some ls"
    and "remote_public_key E (p, s) = Some rpk" and "handshake_hash E (p, s) = Some hash"
    and "replicate_capability H (\<not> p_is_initiator p) (ls_key ls) hash = Ok c"
    and w: "channel_unbounded E (world s) = (inb, w)"
  shows "\<exists>q m. vec_get q (unat ch) = Some (Some (hex_encode H (open_discovery_key x))) \<and>
    on_open H E ch x (p, s) = (if open_capability x = Some c
      then (Ok (), p\<lparr>p_channels := (p_channels p)\<lparr>channels := (channels (p_channels p))
               (hex_encode H (open_discovery_key x) \<mapsto>
                  connected_handle (unat ch) (open_capability x) inb h), remote_id := q\<rparr>,
             queued_events := queued_events p @ [Event_Channel
               (Channel_new (Some inb) inb (open_discovery_key x) (ls_key ls) (ls_local_id ls)
                 (h_closed h))]\<rparr>, s\<lparr>world := w\<rparr>)
      else (Err (IoError PermissionDenied ''Invalid remote channel capability''),
            p\<lparr>p_channels := m\<rparr>, s))"
proof -
  let ?dk = "open_discovery_key x" and ?m = "p_channels p"
  let ?h = "handle_attach_remote (unat ch) (open_capability x) h"
  obtain q where q: "attach_remote H ?dk (unat ch) (open_capability x) ?m s =
      Ok (?h, ?m\<lparr>channels := (channels ?m)(hex_encode H ?dk \<mapsto> ?h), remote_id := q\<rparr>, s)"
    and slot: "vec_get q (unat ch) = Some (Some (hex_encode H ?dk))"
    using attach_remote_run [of "unat ch" ?m H ?dk "open_capability x" s] assms(4) h
    by (auto simp: attach_sys_def remote_handle_def)
  let ?p = "p\<lparr>p_channels := ?m\<lparr>channels := (channels ?m)(hex_encode H ?dk \<mapsto> ?h), remote_id := q\<rparr>\<rparr>"
  have dk: "h_discovery_key h = ?dk"
    using cm_inv_handle [OF inv h] assms(2) by (simp add: handle_inv_def inj_eq)
  have "on_open H E ch x (p, s) = accept_channel H E (ls_local_id ls) (?p, s)"
    using q assms(3) ls
    by (simp add: on_open_def parse_key_def is_connected_def handle_local_id_def handle_attach_remote_def)
  also note accept_channel_run [of H ?p s "hex_encode H ?dk" ?h ls _ E rpk hash c inb w]
  finally show ?thesis
    using cm_inv_attach_remote [OF assms(2) inv assms(3) q] assms(7-9) ls w slot dk
    by (auto simp: handle_attach_remote_def remote_public_key_def handshake_hash_def
        connected_handle_def)
qed

lemma on_open_known:
  assumes "cm_inv H (p_channels p, s)" and "inj (hex_encode H)"
    and "length (open_discovery_key x) = 32" and "unat ch + 1 \<le> vec_max_len"
    and "channels (p_channels p) (hex_encode H (open_discovery_key x)) = Some h"
    and "h_local_state h = Some ls"
    and "remote_public_key E (p, s) = Some rpk" and "handshake_hash E (p, s) = Some hash"
    and "replicate_capability H (\<not> p_is_initiator p) (ls_key ls) hash = Ok c"
    and run: "on_open H E ch x (p, s) = (r, p', s')"
  shows "if open_capability x = Some c
    then r = Ok () \<and> (\<exists>chn. queued_events p' = queued_events p @ [Event_Channel chn] \<and>
      ch_key chn = ls_key ls \<and> ch_discovery_key chn = open_discovery_key x \<and>
      ch_local_id chn = ls_local_id ls \<and> ch_closed chn = h_closed h)
    else r = Err (IoError PermissionDenied ''Invalid remote channel capability'') \<and>
      queued_events p' = queued_events p"
proof -
  obtain inb w where "channel_unbounded E (world s) = (inb, w)" by fastforce
  from on_open_known_run [OF assms(1-9) this] run show ?thesis
    by (auto simp: Channel_new_def split: if_splits)
qed

lemma on_open_overflow:
  assumes "length (open_discovery_key x) = 32" and "vec_max_len \<le> unat ch"
    and "length (remote_id (p_channels p)) \<le> vec_max_len"
  shows "fst (on_open H E ch x (p, s)) = Panic"
  using assms attach_remote_overflow [of "unat ch" "p_channels p" H "open_discovery_key x"
      "open_capability x" s]
  by (simp add: on_open_def parse_key_def)

text \<open>Removing a channel that is in the map.\<close>

lemma remove_event_run:
  assumes "cm_inv H (p_channels p, s)" and "channels (p_channels p) (hex_encode H dk) = Some h"
  shows "\<exists>m. then_do (remove_channel H dk) (\<lambda>_. queue_event (Event_Close dk)) (p, s) =
      (Ok (), p\<lparr>p_channels := m, queued_events := queued_events p @ [Event_Close dk]\<rparr>,
       store_true (h_closed h) s) \<and>
    channels m = (channels (p_channels p))(hex_encode H dk := None)"
proof -
  obtain m where "remove H dk (p_channels p) s = Ok (m, store_true (h_closed h) s)"
    "channels m = (channels (p_channels p))(hex_encode H dk := None)"
    using remove_run [OF assms] by simp
  then show ?thesis
    by (intro exI [of _ m]) (simp add: then_do_def remove_channel_def queue_event_def)
qed

lemma command_close_run:
  assumes "cm_inv H (p_channels p, s)" and "channels (p_channels p) (hex_encode H dk) = Some h"
  shows "\<exists>m. command_close H dk (p, s) =
      (Ok (), p\<lparr>p_channels := m, queued_events := queued_events p @ [Event_Close dk]\<rparr>,
       store_true (h_closed h) s) \<and>
    channels m = (channels (p_channels p))(hex_encode H dk := None)"
  using remove_event_run [OF assms] assms(2) by (simp add: command_close_def has_channel_def)

lemma get_remote_key:
  "cm_inv H (m, s) \<Longrightarrow> get_remote i m = Some h \<Longrightarrow> channels m (hex_encode H (h_discovery_key h)) = Some h"
  using cm_inv_handle [of H m s] by (auto simp: get_remote_def handle_inv_def split: option.splits)

lemma get_local_key:
  "cm_inv H (m, s) \<Longrightarrow> get_local i m = Some h \<Longrightarrow> channels m (hex_encode H (h_discovery_key h)) = Some h"
  using cm_inv_handle [of H m s] by (auto simp: get_local_def handle_inv_def split: option.splits)

lemma close_local_run:
  assumes "cm_inv H (p_channels p, s)" and "get_local (unat lid) (p_channels p) = Some h"
  shows "\<exists>m. close_local H lid (p, s) =
      (Ok (), p\<lparr>p_channels := m,
         queued_events := queued_events p @ [Event_Close (h_discovery_key h)]\<rparr>,
       store_true (h_closed h) s) \<and>
    channels m = (channels (p_channels p))(hex_encode H (h_discovery_key h) := None)"
  using remove_event_run [OF assms(1) get_local_key [OF assms]] assms(2) by (simp add: close_local_def)

lemma on_close_run:
  assumes "cm_inv H (p_channels p, s)" and "get_remote (unat rid) (p_channels p) = Some h"
    and "forward_inbound_message_tolerate_closed E (unat rid) (Close x) (p_channels p) s = (Ok (), s1)"
  shows "\<exists>m. on_close H E rid x (p, s) =
      (Ok (), p\<lparr>p_channels := m,
         queued_events := queued_events p @ [Event_Close (h_discovery_key h)]\<rparr>,
       store_true (h_closed h) s1) \<and>
    channels m = (channels (p_channels p))(hex_encode H (h_discovery_key h) := None)"
proof -
  have "cm_inv H (p_channels p, s1)"
    using cells_le_forward(2) [OF assms(3)] by (intro cm_inv_cells [OF assms(1)]) (simp add: cells_le_def)
  from remove_event_run [OF this get_remote_key [OF assms(1,2)]] assms(2,3) show ?thesis
    by (simp add: on_close_def then_do_def)
qed

lemma p_capability_cong:
  "p_is_initiator p' = p_is_initiator p \<Longrightarrow> world s' = world s \<Longrightarrow>
   p_capability H E key (p', s') = p_capability H E key (p, s)"
  by (simp add: p_capability_def remote_public_key_def handshake_hash_def public_key_def
      split: option.split)

text \<open>\<open>command_open\<close> of a key the remote has not opened: one \<open>Open\<close> is queued, with the capability.\<close>

lemma command_open_run:
  assumes inv: "cm_inv H (p_channels p, s)" and "inj (hex_encode H)"
    and dk: "discovery_key H key = Ok dk"
    and "\<forall>h. channels (p_channels p) (hex_encode H dk) = Some h \<longrightarrow> h_remote_state h = None"
    and cap: "p_capability H E key (p, s) = Ok cap"
    and lid: "alloc_local (p_channels p) = (lid, m1)"
  shows "\<exists>m. command_open H E key (p, s) =
      (Ok (), p\<lparr>p_channels := m, p_io := enqueue (ChannelMessage_new (of_nat lid)
          (Open \<lparr>open_channel = of_nat lid, open_protocol = PROTOCOL_NAME,
             open_discovery_key = dk, open_capability = cap\<rparr>)) (p_io p)\<rparr>,
       attach_sys (channels (p_channels p) (hex_encode H dk)) s) \<and>
    (\<exists>h. get_local lid m = Some h \<and> h_discovery_key h = dk \<and>
       h_local_state h = Some \<lparr>ls_key = key, ls_local_id = lid\<rparr>)"
proof -
  let ?k = "hex_encode H dk" and ?m = "p_channels p"
  let ?h = "local_handle lid dk key (channels ?m ?k) s"
  let ?m' = "m1\<lparr>channels := (channels ?m)(?k \<mapsto> ?h), local_id := (local_id m1)[lid := Some ?k]\<rparr>"
  note ids = cm_inv_local_ids [OF inv]
  have a: "attach_local H key ?m s = Ok (?h, ?m', attach_sys (channels ?m ?k) s)"
    by (rule attach_local_run [OF ids dk lid])
  have h: "handle_local_id ?h = Some lid" "\<not> is_connected ?h" "h_discovery_key ?h = dk"
      "h_local_state ?h = Some \<lparr>ls_key = key, ls_local_id = lid\<rparr>"
    using assms(4) cm_inv_handle [OF inv, of ?k] assms(2)
    by (auto simp: local_handle_def handle_local_id_def handle_attach_local_def is_connected_def
        handle_inv_def inj_eq split: option.split)
  have "get_local lid ?m' = Some ?h"
    using alloc_local_spec(3) [OF ids lid] by (simp add: get_local_def vec_get_update vec_get_eq_Some)
  moreover have "p_capability H E key (p\<lparr>p_channels := ?m'\<rparr>, attach_sys (channels ?m ?k) s) = Ok cap"
    using cap by (subst p_capability_cong [of _ p _ s]) (simp_all add: attach_sys_def)
  ultimately show ?thesis using a h
    by (intro exI [of _ ?m'])
      (simp add: command_open_def then_do_def return_unit_def enqueue_message_def)
qed

end
