(* ===== verification/Replication.thy ===== *)
theory Replication
  imports Protocol "HOL-Library.AList"
begin

text \<open>
  \<open>examples/replication.rs\<close>: peers that replicate hypercores over the protocol. A task per channel
  keeps a \<open>PeerState\<close> and answers the messages of the remote; the store finds the core of a discovery
  key. The crate \<open>hypercore\<close> is a record of functions on a core's state. A task's state is its peer
  state, the core behind the \<open>Mutex\<close> and the system; what other tasks do to the last two between two
  messages is a function given with each message. Subtraction and addition of \<open>u64\<close> panic on overflow
  where the build checks it (\<open>checks\<close>) and wrap where it does not. Printing is not modelled, the calls
  that fetch what is printed are.
\<close>

section \<open>The core\<close>

record Info =
  info_fork :: u64
  info_length :: u64
  info_contiguous_length :: u64

record ('c, 'e) hypercore =
  hc_info :: "'c \<Rightarrow> Info"
  hc_public_key :: "'c \<Rightarrow> bytes"
  hc_create_proof :: "RequestBlock option \<Rightarrow> RequestBlock option \<Rightarrow> RequestSeek option \<Rightarrow>
    RequestUpgrade option \<Rightarrow> 'c \<Rightarrow> ('e + Proof option) \<times> 'c"
  hc_verify_and_apply_proof :: "Proof \<Rightarrow> 'c \<Rightarrow> ('e + bool) \<times> 'c"
  hc_missing_nodes :: "u64 \<Rightarrow> 'c \<Rightarrow> ('e + u64) \<times> 'c"
  hc_get :: "u64 \<Rightarrow> 'c \<Rightarrow> ('e + bytes option) \<times> 'c"

section \<open>The state of a peer\<close>

record PeerState =
  ps_can_upgrade :: bool
  ps_remote_fork :: u64
  ps_remote_length :: u64
  ps_remote_can_upgrade :: bool
  ps_remote_uploading :: bool
  ps_remote_downloading :: bool
  ps_remote_synced :: bool
  ps_length_acked :: u64

definition PeerState_default :: PeerState where
  "PeerState_default =
     \<lparr>ps_can_upgrade = True, ps_remote_fork = 0, ps_remote_length = 0, ps_remote_can_upgrade = False,
      ps_remote_uploading = True, ps_remote_downloading = True, ps_remote_synced = False,
      ps_length_acked = 0\<rparr>"

record ('w, 'c) peer =
  peer_state :: PeerState
  peer_core :: 'c
  peer_sys :: "'w sys"

datatype 'e app_error = AppIo io_error | AppCore 'e

type_synonym ('w, 'c, 'e, 'a) task = "('w, 'c) peer \<Rightarrow> ('e app_error, 'a) outcome \<times> ('w, 'c) peer"

definition then_task ::
  "('w, 'c, 'e, 'a) task \<Rightarrow> ('a \<Rightarrow> ('w, 'c, 'e, 'b) task) \<Rightarrow> ('w, 'c, 'e, 'b) task"
where
  "then_task f g t =
     (case f t of
        (Ok x, t) \<Rightarrow> g x t
      | (Err e, t) \<Rightarrow> (Err e, t)
      | (Panic, t) \<Rightarrow> (Panic, t))"

definition ret_task :: "'a \<Rightarrow> ('w, 'c, 'e, 'a) task" where
  "ret_task x t = (Ok x, t)"

text \<open>A call of the core, and of the channel.\<close>

definition core_call :: "('c \<Rightarrow> ('e + 'a) \<times> 'c) \<Rightarrow> ('w, 'c, 'e, 'a) task" where
  "core_call f t =
     (case f (peer_core t) of
        (Inr x, c) \<Rightarrow> (Ok x, t\<lparr>peer_core := c\<rparr>)
      | (Inl e, c) \<Rightarrow> (Err (AppCore e), t\<lparr>peer_core := c\<rparr>))"

definition io_call :: "('w sys \<Rightarrow> (io_error, 'a) outcome \<times> 'w sys) \<Rightarrow> ('w, 'c, 'e, 'a) task" where
  "io_call f t = (let (r, s) = f (peer_sys t) in (map_err AppIo r, t\<lparr>peer_sys := s\<rparr>))"

text \<open>\<open>.unwrap()\<close> of a result.\<close>

definition unwrap_task :: "('w, 'c, 'e, 'a) task \<Rightarrow> ('w, 'c, 'e, 'a) task" where
  "unwrap_task f t = (case f t of (Err _, t) \<Rightarrow> (Panic, t) | r \<Rightarrow> r)"

definition sub_u64 :: "bool \<Rightarrow> u64 \<Rightarrow> u64 \<Rightarrow> ('e, u64) outcome" where
  "sub_u64 checks a b = (if checks \<and> a < b then Panic else Ok (a - b))"

definition add_u64 :: "bool \<Rightarrow> u64 \<Rightarrow> u64 \<Rightarrow> ('e, u64) outcome" where
  "add_u64 checks a b = (if checks \<and> unat a + unat b \<ge> 2 ^ 64 then Panic else Ok (a + b))"

section \<open>Messages of the remote\<close>

definition on_synchronize ::
  "'w env \<Rightarrow> ('c, 'e) hypercore \<Rightarrow> Channel \<Rightarrow> Synchronize \<Rightarrow> ('w, 'c, 'e, unit) task"
where
  "on_synchronize E K ch m t =
     (let ps = peer_state t;
          length_changed = (sync_length m \<noteq> ps_remote_length ps);
          first_sync = (\<not> ps_remote_synced ps);
          info = hc_info K (peer_core t);
          same_fork = (sync_fork m = info_fork info);
          ps = ps\<lparr>ps_remote_fork := sync_fork m, ps_remote_length := sync_length m,
            ps_remote_can_upgrade := sync_can_upgrade m, ps_remote_uploading := sync_uploading m,
            ps_remote_downloading := sync_downloading m, ps_remote_synced := True,
            ps_length_acked := (if same_fork then sync_remote_length m else 0)\<rparr>;
          messages = (if first_sync
            then [Synchronize \<lparr>sync_fork = info_fork info, sync_length = info_length info,
                sync_remote_length = ps_remote_length ps, sync_downloading = True,
                sync_uploading = True, sync_can_upgrade = ps_can_upgrade ps\<rparr>]
            else []);
          messages = messages @ (if ps_remote_length ps > info_length info \<and>
              ps_length_acked ps = info_length info \<and> length_changed
            then [Request \<lparr>req_id = 1, req_fork = info_fork info, req_block = None, req_hash = None,
                req_seek = None, req_upgrade = Some \<lparr>ru_start = info_length info,
                  ru_length = ps_remote_length ps - info_length info\<rparr>,
                req_manifest = False, req_priority = 0\<rparr>]
            else [])
      in io_call (send_batch E ch messages) (t\<lparr>peer_state := ps\<rparr>))"

definition on_request ::
  "'w env \<Rightarrow> ('c, 'e) hypercore \<Rightarrow> Channel \<Rightarrow> Request \<Rightarrow> ('w, 'c, 'e, unit) task"
where
  "on_request E K ch m =
     then_task (core_call (hc_create_proof K (req_block m) (req_hash m) (req_seek m) (req_upgrade m)))
       (\<lambda>proof t.
          let info = hc_info K (peer_core t) in
          case proof of
            Some proof \<Rightarrow>
              io_call (send E ch (Data \<lparr>data_request = req_id m, data_fork = info_fork info,
                data_block = proof_block proof, data_hash = proof_hash proof,
                data_seek = proof_seek proof, data_upgrade = proof_upgrade proof\<rparr>)) t
          | None \<Rightarrow> (Ok (), t))"

text \<open>The block to ask for next.\<close>

definition request_block_at :: "('c, 'e) hypercore \<Rightarrow> u64 \<Rightarrow> ('w, 'c, 'e, RequestBlock option) task" where
  "request_block_at K request_index =
     then_task (core_call (hc_missing_nodes K request_index))
       (\<lambda>nodes. ret_task (Some \<lparr>rb_index = request_index, rb_nodes = nodes\<rparr>))"

definition next_request ::
  "bool \<Rightarrow> ('c, 'e) hypercore \<Rightarrow> Info \<Rightarrow> Data \<Rightarrow> ('w, 'c, 'e, RequestBlock option) task"
where
  "next_request checks K old_info m =
     (case data_upgrade m of
        Some upgrade \<Rightarrow>
          if info_length old_info < du_length upgrade
          then request_block_at K (info_length old_info) else ret_task None
      | None \<Rightarrow>
          (case data_block m of
             Some block \<Rightarrow>
               then_task (\<lambda>t. (sub_u64 checks (ps_remote_length (peer_state t)) 1, t)) (\<lambda>last_index.
               if db_index block < last_index
               then then_task (\<lambda>t. (add_u64 checks (db_index block) 1, t)) (request_block_at K)
               else ret_task None)
           | None \<Rightarrow> ret_task None))"

text \<open>\<open>for i in 0..new_info.contiguous_length\<close>: fetch a block and print it as a string.\<close>

fun print_results :: "('c, 'e) hypercore \<Rightarrow> nat list \<Rightarrow> ('w, 'c, 'e, unit) task" where
  "print_results K [] = ret_task ()"
| "print_results K (i # is) =
     then_task (core_call (hc_get K (of_nat i))) (\<lambda>value t.
       case value of
         Some bytes \<Rightarrow>
           if utf8_bytes (map unat bytes) then print_results K is t else (Panic, t)
       | None \<Rightarrow> (Panic, t))"

text \<open>If all have been replicated, print the result.\<close>

definition print_complete :: "('c, 'e) hypercore \<Rightarrow> Info \<Rightarrow> ('w, 'c, 'e, unit) task" where
  "print_complete K new_info =
     (if info_contiguous_length new_info = info_length new_info
      then print_results K [0..<unat (info_contiguous_length new_info)] else ret_task ())"

definition data_reply ::
  "bool \<Rightarrow> PeerState \<Rightarrow> Info \<Rightarrow> Data \<Rightarrow> RequestBlock option \<Rightarrow> ('e, message list) outcome"
where
  "data_reply checks ps new_info m request_block =
     (let messages = (case data_upgrade m of
          Some upgrade \<Rightarrow>
            [Synchronize \<lparr>sync_fork = info_fork new_info, sync_length = du_length upgrade,
               sync_remote_length =
                 (if info_fork new_info = ps_remote_fork ps then ps_remote_length ps else 0),
               sync_downloading = True, sync_uploading = True, sync_can_upgrade = False\<rparr>]
        | None \<Rightarrow> [])
      in case request_block of
          Some rb \<Rightarrow>
            and_then (add_u64 checks (rb_index rb) 1) (\<lambda>request_id.
            Ok (messages @ [Request \<lparr>req_id = request_id, req_fork = info_fork new_info,
               req_block = Some rb, req_hash = None, req_seek = None, req_upgrade = None,
               req_manifest = False, req_priority = 0\<rparr>]))
        | None \<Rightarrow> Ok messages)"

definition on_data ::
  "bool \<Rightarrow> 'w env \<Rightarrow> ('c, 'e) hypercore \<Rightarrow> Channel \<Rightarrow> Data \<Rightarrow> ('w, 'c, 'e, unit) task"
where
  "on_data checks E K ch m t =
     (let old_info = hc_info K (peer_core t) in
      then_task (core_call (hc_verify_and_apply_proof K (into_proof m))) (\<lambda>applied t.
        let new_info = hc_info K (peer_core t) in
        then_task (next_request checks K old_info m) (\<lambda>request_block.
        then_task (print_complete K new_info) (\<lambda>_.
        then_task (\<lambda>t. (data_reply checks (peer_state t) new_info m request_block, t)) (\<lambda>messages.
        unwrap_task (io_call (send_batch E ch messages))))) t) t)"

definition onmessage ::
  "bool \<Rightarrow> 'w env \<Rightarrow> ('c, 'e) hypercore \<Rightarrow> Channel \<Rightarrow> message \<Rightarrow> ('w, 'c, 'e, unit) task"
where
  "onmessage checks E K ch m =
     (case m of
        Synchronize x \<Rightarrow> on_synchronize E K ch x
      | Request x \<Rightarrow> on_request E K ch x
      | Data x \<Rightarrow> on_data checks E K ch x
      | _ \<Rightarrow> ret_task ())"

section \<open>The task of a channel\<close>

text \<open>The first message of \<open>onpeer\<close>.\<close>

definition onpeer_start :: "'w env \<Rightarrow> ('c, 'e) hypercore \<Rightarrow> Channel \<Rightarrow> ('w, 'c, 'e, unit) task" where
  "onpeer_start E K ch t =
     (let info = hc_info K (peer_core t);
          ps = peer_state t;
          ps = (if info_fork info \<noteq> ps_remote_fork ps then ps\<lparr>ps_can_upgrade := False\<rparr> else ps);
          sync_msg = Synchronize \<lparr>sync_fork = info_fork info, sync_length = info_length info,
            sync_remote_length = (if info_fork info = ps_remote_fork ps then ps_remote_length ps else 0),
            sync_downloading = True, sync_uploading = True, sync_can_upgrade = ps_can_upgrade ps\<rparr>
      in if info_contiguous_length info > 0
         then unwrap_task (io_call (send_batch E ch [sync_msg, Range_msg \<lparr>range_drop = False,
             range_start = 0, range_length = info_contiguous_length info\<rparr>])) (t\<lparr>peer_state := ps\<rparr>)
         else unwrap_task (io_call (send E ch sync_msg)) (t\<lparr>peer_state := ps\<rparr>))"

text \<open>\<open>while let Some(message) = channel.next().await\<close>, over what the channel gives until it ends. An
  error is logged and ends the loop.\<close>

fun onpeer_loop ::
  "bool \<Rightarrow> 'w env \<Rightarrow> ('c, 'e) hypercore \<Rightarrow> Channel \<Rightarrow> (('c \<times> 'w sys \<Rightarrow> 'c \<times> 'w sys) \<times> message) list \<Rightarrow>
   ('w, 'c, 'e, unit) task"
where
  "onpeer_loop checks E K ch [] t = (Ok (), t)"
| "onpeer_loop checks E K ch ((other, m) # ms) t =
     (let (c, s) = other (peer_core t, peer_sys t) in
      case onmessage checks E K ch m (t\<lparr>peer_core := c, peer_sys := s\<rparr>) of
        (Ok _, t) \<Rightarrow> onpeer_loop checks E K ch ms t
      | (Err _, t) \<Rightarrow> (Ok (), t)
      | (Panic, t) \<Rightarrow> (Panic, t))"

definition onpeer ::
  "bool \<Rightarrow> 'w env \<Rightarrow> ('c, 'e) hypercore \<Rightarrow> Channel \<Rightarrow> (('c \<times> 'w sys \<Rightarrow> 'c \<times> 'w sys) \<times> message) list \<Rightarrow>
   'c \<Rightarrow> 'w sys \<Rightarrow> ('e app_error, unit) outcome \<times> ('w, 'c) peer"
where
  "onpeer checks E K ch ms c s =
     then_task (onpeer_start E K ch) (\<lambda>_. onpeer_loop checks E K ch ms)
       \<lparr>peer_state = PeerState_default, peer_core = c, peer_sys = s\<rparr>"

section \<open>The store and the connection\<close>

text \<open>\<open>hw_hypercore\<close> is the address of the shared core.\<close>

record HypercoreWrapper =
  hw_discovery_key :: bytes
  hw_key :: bytes
  hw_hypercore :: nat

definition from_memory_hypercore ::
  "crypto \<Rightarrow> ('c, 'e) hypercore \<Rightarrow> nat \<Rightarrow> 'c \<Rightarrow> (io_error, HypercoreWrapper) outcome"
where
  "from_memory_hypercore H K addr c =
     (let key = hc_public_key K c in
      and_then (discovery_key H key) (\<lambda>dk.
      Ok \<lparr>hw_discovery_key = dk, hw_key = key, hw_hypercore = addr\<rparr>))"

text \<open>The map of the store, in the order in which \<open>values()\<close> gives its entries, which \<open>HashMap\<close> leaves
  open.\<close>

type_synonym HypercoreStore = "(string \<times> HypercoreWrapper) list"

definition HypercoreStore_new :: HypercoreStore where
  "HypercoreStore_new = []"

definition HypercoreStore_add :: "crypto \<Rightarrow> HypercoreWrapper \<Rightarrow> HypercoreStore \<Rightarrow> HypercoreStore" where
  "HypercoreStore_add H w store = AList.update (hex_encode H (hw_discovery_key w)) w store"

definition HypercoreStore_get :: "crypto \<Rightarrow> bytes \<Rightarrow> HypercoreStore \<Rightarrow> HypercoreWrapper option" where
  "HypercoreStore_get H dk store = map_of store (hex_encode H dk)"

fun open_all :: "'w env \<Rightarrow> HypercoreWrapper list \<Rightarrow> 'w sys \<Rightarrow> (io_error, unit) outcome \<times> 'w sys" where
  "open_all E [] s = (Ok (), s)"
| "open_all E (w # ws) s =
     (case CommandTx_open E (hw_key w) s of
        (Ok _, s) \<Rightarrow> open_all E ws s
      | (Err e, s) \<Rightarrow> (Err e, s)
      | (Panic, s) \<Rightarrow> (Panic, s))"

text \<open>One turn of the loop of \<open>onconnection\<close>: the result of \<open>?\<close>, and the task it spawns.\<close>

definition on_event ::
  "crypto \<Rightarrow> 'w env \<Rightarrow> bool \<Rightarrow> HypercoreStore \<Rightarrow> Event \<Rightarrow> 'w sys \<Rightarrow>
   (io_error, (HypercoreWrapper \<times> Channel) option) outcome \<times> 'w sys"
where
  "on_event H E is_initiator store event s =
     (let none = (\<lambda>(r, s). (and_then r (\<lambda>_. Ok None), s)) in
      case event of
        Event_Handshake _ \<Rightarrow> if is_initiator then none (open_all E (map snd store) s) else (Ok None, s)
      | Event_DiscoveryKey dk \<Rightarrow>
          (case HypercoreStore_get H dk store of
             Some w \<Rightarrow> none (CommandTx_open E (hw_key w) s)
           | None \<Rightarrow> (Ok None, s))
      | Event_Channel ch \<Rightarrow>
          (case HypercoreStore_get H (ch_discovery_key ch) store of
             Some w \<Rightarrow> (Ok (Some (w, ch)), s)
           | None \<Rightarrow> (Ok None, s))
      | _ \<Rightarrow> (Ok None, s))"

text \<open>The loop, over what the protocol's stream gives and what other tasks do before each event; the
  spawned tasks in order.\<close>

fun onconnection_loop ::
  "crypto \<Rightarrow> 'w env \<Rightarrow> bool \<Rightarrow> HypercoreStore \<Rightarrow> (('w sys \<Rightarrow> 'w sys) \<times> (io_error + Event)) list \<Rightarrow> 'w sys \<Rightarrow>
   (io_error, unit) outcome \<times> (HypercoreWrapper \<times> Channel) list \<times> 'w sys"
where
  "onconnection_loop H E is_initiator store [] s = (Ok (), [], s)"
| "onconnection_loop H E is_initiator store ((other, Inl e) # evs) s = (Err e, [], other s)"
| "onconnection_loop H E is_initiator store ((other, Inr ev) # evs) s =
     (case on_event H E is_initiator store ev (other s) of
        (Ok spawned, s) \<Rightarrow>
          (let (r, ts, s) = onconnection_loop H E is_initiator store evs s
           in (r, (case spawned of Some t \<Rightarrow> t # ts | None \<Rightarrow> ts), s))
      | (Err e, s) \<Rightarrow> (Err e, [], s)
      | (Panic, s) \<Rightarrow> (Panic, [], s))"

section \<open>What the tasks rely on\<close>

text \<open>The queue of the channel takes every batch and keeps it in order; \<open>sent\<close> is what it was given.\<close>

definition queue_takes :: "'w env \<Rightarrow> ('w \<Rightarrow> ChannelMessage list list) \<Rightarrow> bool" where
  "queue_takes E sent \<longleftrightarrow> (\<forall>ms w. \<exists>w'. outbound_tx_send E ms w = (True, w') \<and> sent w' = sent w @ [ms])"

text \<open>While \<open>Q\<close> holds of a core, it verifies the proofs in \<open>P\<close>, knows its missing nodes, and has the
  blocks it says it has, which are strings; reading does not change its length.\<close>

definition core_cooperates :: "('c, 'e) hypercore \<Rightarrow> ('c \<Rightarrow> bool) \<Rightarrow> Proof set \<Rightarrow> bool" where
  "core_cooperates K Q P \<longleftrightarrow> (\<forall>c. Q c \<longrightarrow>
     (\<forall>proof \<in> P. \<exists>b c'. hc_verify_and_apply_proof K proof c = (Inr b, c') \<and> Q c') \<and>
     (\<forall>i. \<exists>n c'. hc_missing_nodes K i c = (Inr n, c') \<and> Q c' \<and> hc_info K c' = hc_info K c) \<and>
     (\<forall>i < info_contiguous_length (hc_info K c). \<exists>v c'. hc_get K i c = (Inr (Some v), c') \<and>
        utf8_bytes (map unat v) \<and> Q c' \<and> hc_info K c' = hc_info K c))"

abbreviation steady :: "('c, 'e) hypercore \<Rightarrow> ('c \<Rightarrow> bool) \<Rightarrow> Info \<Rightarrow> 'c \<Rightarrow> bool" where
  "steady K Q info c \<equiv> Q c \<and> hc_info K c = info"

text \<open>Calls of the core that succeed and leave everything else of the task alone.\<close>

definition quietly :: "('c \<Rightarrow> bool) \<Rightarrow> PeerState \<Rightarrow> ('w, 'c, 'e, 'a) task \<Rightarrow> ('a \<Rightarrow> bool) \<Rightarrow> bool" where
  "quietly Q ps f R \<longleftrightarrow> (\<forall>t. peer_state t = ps \<longrightarrow> Q (peer_core t) \<longrightarrow>
     (\<exists>x c. f t = (Ok x, t\<lparr>peer_core := c\<rparr>) \<and> Q c \<and> R x))"

lemma quietlyD:
  assumes "quietly Q ps f R" and "peer_state t = ps" and "Q (peer_core t)"
  obtains x c where "f t = (Ok x, t\<lparr>peer_core := c\<rparr>)" and "Q c" and "R x"
  using assms unfolding quietly_def by blast

lemma quietly_then:
  assumes "quietly Q ps f R" and "\<And>x. R x \<Longrightarrow> quietly Q ps (g x) S"
  shows "quietly Q ps (then_task f g) S"
  unfolding quietly_def
proof (intro allI impI)
  fix t :: "('b, 'a) peer"
  assume t: "peer_state t = ps" "Q (peer_core t)"
  obtain x c where f: "f t = (Ok x, t\<lparr>peer_core := c\<rparr>)" "Q c" "R x" by (rule quietlyD [OF assms(1) t])
  obtain y c' where "g x (t\<lparr>peer_core := c\<rparr>) = (Ok y, t\<lparr>peer_core := c\<rparr>\<lparr>peer_core := c'\<rparr>)" "Q c'" "S y"
    by (rule quietlyD [OF assms(2) [OF f(3)], of "t\<lparr>peer_core := c\<rparr>"]) (use t f(2) in simp_all)
  with f show "\<exists>x c. then_task f g t = (Ok x, t\<lparr>peer_core := c\<rparr>) \<and> Q c \<and> S x"
    by (auto simp: then_task_def)
qed

lemma quietly_ret: "R x \<Longrightarrow> quietly Q ps (ret_task x) R"
  unfolding quietly_def ret_task_def by (metis peer.surjective peer.update_convs(2))

lemma quietly_pure: "(\<And>t. peer_state t = ps \<Longrightarrow> f t = Ok x) \<Longrightarrow> R x \<Longrightarrow> quietly Q ps (\<lambda>t. (f t, t)) R"
  unfolding quietly_def by (metis peer.surjective peer.update_convs(2))

lemma quietly_core:
  assumes "\<And>c. Q c \<Longrightarrow> \<exists>x c'. f c = (Inr x, c') \<and> Q c' \<and> R x"
  shows "quietly Q ps (core_call f) R"
  unfolding quietly_def core_call_def using assms by (auto split: prod.split sum.split) (metis prod.inject sum.inject(2) sum.distinct(1))+

lemma cooperates:
  assumes "core_cooperates K Q P"
  shows "quietly (steady K Q info) ps (core_call (hc_missing_nodes K i)) (\<lambda>_. True)"
    and "p \<in> P \<Longrightarrow> quietly Q ps (core_call (hc_verify_and_apply_proof K p)) (\<lambda>_. True)"
    and "i < info_contiguous_length info \<Longrightarrow> quietly (steady K Q info) ps (core_call (hc_get K i))
      (\<lambda>v. \<exists>bs. v = Some bs \<and> utf8_bytes (map unat bs))"
proof -
  note coop = assms [unfolded core_cooperates_def, rule_format]
  show "quietly (steady K Q info) ps (core_call (hc_missing_nodes K i)) (\<lambda>_. True)"
    by (rule quietly_core) (use coop in metis)
  show "quietly Q ps (core_call (hc_verify_and_apply_proof K p)) (\<lambda>_. True)" if "p \<in> P"
    by (rule quietly_core) (use coop that in blast)
  show "quietly (steady K Q info) ps (core_call (hc_get K i)) (\<lambda>v. \<exists>bs. v = Some bs \<and> utf8_bytes (map unat bs))"
    if "i < info_contiguous_length info"
    by (rule quietly_core) (use coop that in fast)
qed

lemma quietly_print:
  assumes "core_cooperates K Q P"
  shows "\<forall>i \<in> set is. i < unat (info_contiguous_length info) \<Longrightarrow>
    quietly (steady K Q info) ps (print_results K is) (\<lambda>_. True)"
proof (induction "is")
  case Nil
  then show ?case by (simp add: quietly_ret)
next
  case (Cons i "is")
  then have "i < unat (info_contiguous_length info)" by simp
  moreover have "unat (info_contiguous_length info) < 2 ^ 64"
    using unsigned_less [of "info_contiguous_length info"] by simp
  ultimately have i: "of_nat i < info_contiguous_length info"
    using unat_of_nat_u64 [of i] by (simp add: word_less_nat_alt)
  show ?case
    unfolding print_results.simps
    by (rule quietly_then [OF cooperates(3) [OF assms i]]) (use Cons in \<open>auto simp: quietly_def\<close>)
qed

lemma quietly_print_complete:
  "core_cooperates K Q P \<Longrightarrow> quietly (steady K Q info) ps (print_complete K info) (\<lambda>_. True)"
  by (simp add: print_complete_def quietly_print quietly_ret)

lemma quietly_request_block_at:
  "core_cooperates K Q P \<Longrightarrow> quietly (steady K Q info) ps (request_block_at K i) (\<lambda>rb. map_option rb_index rb = Some i)"
  unfolding request_block_at_def
  by (rule quietly_then [OF cooperates(1)]) (auto intro: quietly_ret)

lemma quietly_next_upgrade:
  assumes "core_cooperates K Q P" and "data_upgrade m = Some u" and "info_length old < du_length u"
  shows "quietly (steady K Q info) ps (next_request checks K old m) (\<lambda>rb. map_option rb_index rb = Some (info_length old))"
  using quietly_request_block_at [OF assms(1)] assms(2,3) by (simp add: next_request_def)

lemma add_u64_Ok: "unat a + 1 < 2 ^ 64 \<Longrightarrow> add_u64 checks a 1 = Ok (a + 1)"
  by (simp add: add_u64_def)

lemma quietly_next_block:
  assumes "core_cooperates K Q P" and "data_upgrade m = None" and "data_block m = Some b"
    and "db_index b = of_nat i" and "ps_remote_length ps = of_nat n" and "i < n" and "n < 2 ^ 64"
  shows "quietly (steady K Q info) ps (next_request checks K old m)
    (\<lambda>rb. map_option rb_index rb = (if i + 1 < n then Some (of_nat (i + 1)) else None))"
proof -
  have n1: "of_nat n - 1 = (of_nat (n - 1) :: u64)" using assms(6) by (cases n) simp_all
  have un: "unat (of_nat i :: u64) = i" "unat (of_nat (n - 1) :: u64) = n - 1" "unat (of_nat n :: u64) = n"
    using assms(6,7) unat_of_nat_u64 [of i] unat_of_nat_u64 [of "n - 1"] unat_of_nat_u64 [of n] by linarith+
  have "sub_u64 checks (of_nat n) 1 = Ok (of_nat (n - 1) :: u64)"
  proof -
    have "\<not> (of_nat n :: u64) < 1" using assms(6) un(3) by (simp add: word_less_nat_alt)
    then show ?thesis by (simp only: sub_u64_def n1 simp_thms if_False)
  qed
  then have sub: "quietly (steady K Q info) ps (\<lambda>t. (sub_u64 checks (ps_remote_length (peer_state t)) 1, t)) (\<lambda>x. x = of_nat (n - 1))"
    using assms(5) by (intro quietly_pure) simp_all
  have less: "(of_nat i :: u64) < of_nat (n - 1) \<longleftrightarrow> i + 1 < n"
    unfolding word_less_nat_alt un using assms(6) by auto
  show ?thesis
    unfolding next_request_def assms(2-4) option.case
  proof (rule quietly_then [OF sub])
    fix x :: u64
    assume "x = of_nat (n - 1)"
    then have x: "of_nat i < x \<longleftrightarrow> i + 1 < n" using less by simp
    show "quietly (steady K Q info) ps (if of_nat i < x
        then then_task (\<lambda>t. (add_u64 checks (of_nat i) 1, t)) (request_block_at K) else ret_task None)
      (\<lambda>rb. map_option rb_index rb = (if i + 1 < n then Some (of_nat (i + 1)) else None))"
    proof (cases "i + 1 < n")
      case True
      then have "unat (of_nat i :: u64) + 1 < 2 ^ 64" unfolding un(1) using assms(7) by linarith
      from add_u64_Ok [OF this] have add: "add_u64 checks (of_nat i) 1 = Ok (of_nat (i + 1) :: u64)" for checks
        by (simp add: add.commute)
      have "quietly (steady K Q info) ps (then_task (\<lambda>t. (add_u64 checks (of_nat i) 1, t)) (request_block_at K))
          (\<lambda>rb. map_option rb_index rb = Some (of_nat (i + 1)))"
        by (rule quietly_then [OF quietly_pure [OF add], of "\<lambda>y. y = of_nat (i + 1)"])
          (use quietly_request_block_at [OF assms(1)] in blast)+
      with True x show ?thesis by simp
    qed (use x in \<open>simp add: quietly_ret\<close>)
  qed
qed

section \<open>Every block is requested\<close>

fun requested_block :: "ChannelMessage \<Rightarrow> u64 list" where
  "requested_block cm = (case message cm of
     Request x \<Rightarrow> (case req_block x of Some b \<Rightarrow> [rb_index b] | None \<Rightarrow> []) | _ \<Rightarrow> [])"

fun requested_upgrade :: "ChannelMessage \<Rightarrow> RequestUpgrade list" where
  "requested_upgrade cm = (case message cm of
     Request x \<Rightarrow> (case req_upgrade x of Some u \<Rightarrow> [u] | None \<Rightarrow> []) | _ \<Rightarrow> [])"

text \<open>What a task asked for in the batches it sent.\<close>

definition asks :: "ChannelMessage list list \<Rightarrow> u64 list \<Rightarrow> RequestUpgrade list \<Rightarrow> bool" where
  "asks bs is us \<longleftrightarrow> concat (map requested_block (concat bs)) = is \<and>
     concat (map requested_upgrade (concat bs)) = us"

lemma asks_append: "asks bs is us \<Longrightarrow> asks bs' js vs \<Longrightarrow> asks (bs @ bs') (is @ js) (us @ vs)"
  by (auto simp: asks_def)

text \<open>A task goes on: its channel is open, its core cooperates.\<close>

definition alive :: "('c \<Rightarrow> bool) \<Rightarrow> Channel \<Rightarrow> ('w, 'c) peer \<Rightarrow> bool" where
  "alive Q ch t \<longleftrightarrow> Q (peer_core t) \<and> \<not> closed ch (peer_sys t)"

lemma data_reply_asks:
  assumes "\<And>b. rb = Some b \<Longrightarrow> unat (rb_index b) + 1 < 2 ^ 64"
  shows "\<exists>msgs. data_reply checks ps new m rb = Ok msgs \<and>
    asks [map (ChannelMessage_new i) msgs] (case rb of Some b \<Rightarrow> [rb_index b] | None \<Rightarrow> []) []"
proof (cases rb)
  case None
  then show ?thesis
    by (cases "data_upgrade m") (simp_all add: data_reply_def asks_def ChannelMessage_new_def)
next
  case (Some b)
  note add = add_u64_Ok [OF assms [OF this]]
  from Some show ?thesis
    by (cases "data_upgrade m") (simp_all add: data_reply_def asks_def ChannelMessage_new_def add)
qed

text \<open>Other tasks may use the core and the connection, but leave the log as it is, the channel open and
  its queue alone.\<close>

definition gentle ::
  "('c, 'e) hypercore \<Rightarrow> ('c \<Rightarrow> bool) \<Rightarrow> ('w \<Rightarrow> ChannelMessage list list) \<Rightarrow> Channel \<Rightarrow>
   ('c \<times> 'w sys \<Rightarrow> 'c \<times> 'w sys) \<Rightarrow> bool"
where
  "gentle K Q sent ch other \<longleftrightarrow> (\<forall>c s c' s'. Q c \<longrightarrow> \<not> closed ch s \<longrightarrow> other (c, s) = (c', s') \<longrightarrow>
     Q c' \<and> hc_info K c' = hc_info K c \<and> \<not> closed ch s' \<and> sent (world s') = sent (world s))"

definition interfered :: "('c \<times> 'w sys \<Rightarrow> 'c \<times> 'w sys) \<Rightarrow> ('w, 'c) peer \<Rightarrow> ('w, 'c) peer" where
  "interfered other t = (let (c, s) = other (peer_core t, peer_sys t) in t\<lparr>peer_core := c, peer_sys := s\<rparr>)"

lemma interfered_alive:
  assumes "gentle K Q sent ch other" and "alive Q ch t"
  shows "alive Q ch (interfered other t)" and "peer_state (interfered other t) = peer_state t"
    and "hc_info K (peer_core (interfered other t)) = hc_info K (peer_core t)"
    and "sent (world (peer_sys (interfered other t))) = sent (world (peer_sys t))"
  using assms by (auto simp: gentle_def alive_def interfered_def split: prod.splits)

lemma onpeer_loop_Cons:
  "onmessage checks E K ch m (interfered other t) = (Ok (), t') \<Longrightarrow>
   onpeer_loop checks E K ch ((other, m) # ms) t = onpeer_loop checks E K ch ms t'"
  by (auto simp: interfered_def split: prod.splits)

lemma on_data_refused:
  "hc_verify_and_apply_proof K (into_proof d) (peer_core t) = (Inl e, c) \<Longrightarrow>
   on_data checks E K ch d t = (Err (AppCore e), t\<lparr>peer_core := c\<rparr>)"
  by (simp add: on_data_def then_task_def core_call_def Let_def)

lemma on_data_underflow:
  assumes "hc_verify_and_apply_proof K (into_proof d) (peer_core t) = (Inr b, c)"
    and "ps_remote_length (peer_state t) = 0" and "data_upgrade d = None" and "data_block d = Some blk"
  shows "fst (on_data True E K ch d t) = Panic"
  using assms by (simp add: on_data_def then_task_def core_call_def next_request_def sub_u64_def Let_def)

text \<open>A task with a core and a channel that do their part.\<close>

locale replica =
  fixes E :: "'w env" and sent :: "'w \<Rightarrow> ChannelMessage list list"
    and K :: "('c, 'e) hypercore" and Q :: "'c \<Rightarrow> bool" and P :: "Proof set"
  assumes takes: "queue_takes E sent" and coop: "core_cooperates K Q P"
begin

lemma send_batch_takes:
  assumes "\<not> closed ch (peer_sys t)"
  obtains s' where "io_call (send_batch E ch ms) t = (Ok (), t\<lparr>peer_sys := s'\<rparr>)" and "\<not> closed ch s'"
    and "sent (world s') = sent (world (peer_sys t)) @ [map (ChannelMessage_new (of_nat (ch_local_id ch))) ms]"
proof -
  obtain w where "outbound_tx_send E (map (ChannelMessage_new (of_nat (ch_local_id ch))) ms) (world (peer_sys t)) =
      (True, w)" "sent w = sent (world (peer_sys t)) @ [map (ChannelMessage_new (of_nat (ch_local_id ch))) ms]"
    using takes unfolding queue_takes_def by blast
  with assms that [of "(peer_sys t)\<lparr>world := w\<rparr>"] show ?thesis
    by (simp add: io_call_def send_batch_def map_channel_err_def closed_def load_def)
qed

lemma send_takes:
  assumes "\<not> closed ch (peer_sys t)"
  obtains s' where "io_call (send E ch m) t = (Ok (), t\<lparr>peer_sys := s'\<rparr>)" and "\<not> closed ch s'"
    and "sent (world s') = sent (world (peer_sys t)) @ [[ChannelMessage_new (of_nat (ch_local_id ch)) m]]"
proof -
  have "io_call (send E ch m) t = io_call (send_batch E ch [m]) t"
    by (simp add: io_call_def send_def send_batch_def)
  with send_batch_takes [OF assms, of "[m]"] that show ?thesis
    by (metis list.simps(8,9))
qed

lemma on_data_step:
  assumes v: "hc_verify_and_apply_proof K (into_proof m) (peer_core t) = (Inr x, c1)" and Q: "Q c1"
    and op: "\<not> closed ch (peer_sys t)"
    and nr: "\<And>info. quietly (steady K Q info) (peer_state t)
      (next_request checks K (hc_info K (peer_core t)) m :: ('w, 'c, 'e, RequestBlock option) task)
      (\<lambda>rb. map_option rb_index rb = idx)"
    and idx: "\<And>i. idx = Some i \<Longrightarrow> unat i + 1 < 2 ^ 64"
  obtains t' rb msgs where "on_data checks E K ch m t = (Ok (), t')"
    and "steady K Q (hc_info K c1) (peer_core t')" and "\<not> closed ch (peer_sys t')"
    and "peer_state t' = peer_state t"
    and "sent (world (peer_sys t')) = sent (world (peer_sys t)) @
      [map (ChannelMessage_new (of_nat (ch_local_id ch))) msgs]"
    and "(data_reply checks (peer_state t) (hc_info K c1) m rb :: ('e app_error, message list) outcome) = Ok msgs"
    and "map_option rb_index rb = idx"
proof -
  let ?old = "hc_info K (peer_core t)" and ?new = "hc_info K c1"
  have call: "core_call (hc_verify_and_apply_proof K (into_proof m)) t = (Ok x, t\<lparr>peer_core := c1\<rparr>)"
    using v by (simp add: core_call_def)
  obtain rb c2 where rb: "next_request checks K ?old m (t\<lparr>peer_core := c1\<rparr>) = (Ok rb, t\<lparr>peer_core := c2\<rparr>)"
    "steady K Q ?new c2" "map_option rb_index rb = idx"
    by (rule quietlyD [OF nr [of ?new], of "t\<lparr>peer_core := c1\<rparr>"]) (use Q in simp_all)
  obtain c3 where pr: "print_complete K ?new (t\<lparr>peer_core := c2\<rparr>) = (Ok (), t\<lparr>peer_core := c3\<rparr>)"
    "steady K Q ?new c3"
    by (rule quietlyD [OF quietly_print_complete [OF coop], of "t\<lparr>peer_core := c2\<rparr>"]) (use rb(2) in simp_all)
  obtain msgs where
    msgs: "(data_reply checks (peer_state t) ?new m rb :: ('e app_error, message list) outcome) = Ok msgs"
    using data_reply_asks [of rb checks "peer_state t" ?new m 0] idx rb(3) by (cases rb) auto
  obtain s' where s': "(io_call (send_batch E ch msgs) :: ('w, 'c, 'e, unit) task) (t\<lparr>peer_core := c3\<rparr>) =
      (Ok (), t\<lparr>peer_core := c3, peer_sys := s'\<rparr>)" "\<not> closed ch s'"
    "sent (world s') = sent (world (peer_sys t)) @ [map (ChannelMessage_new (of_nat (ch_local_id ch))) msgs]"
    by (rule send_batch_takes [of ch "t\<lparr>peer_core := c3\<rparr>"]) (use op in auto)
  have "on_data checks E K ch m t = (Ok (), t\<lparr>peer_core := c3, peer_sys := s'\<rparr>)"
    using call rb(1) pr(1) msgs s'(1) by (simp add: on_data_def then_task_def unwrap_task_def Let_def)
  then show ?thesis by (rule that) (use s' pr(2) msgs rb(3) in simp_all)
qed

lemma on_data_run:
  assumes alive: "alive Q ch t" and proof_ok: "into_proof m \<in> P"
    and nr: "\<And>info. quietly (steady K Q info) (peer_state t)
      (next_request checks K (hc_info K (peer_core t)) m :: ('w, 'c, 'e, RequestBlock option) task)
      (\<lambda>rb. map_option rb_index rb = idx)"
    and idx: "\<And>i. idx = Some i \<Longrightarrow> unat i + 1 < 2 ^ 64"
  obtains t' b where "on_data checks E K ch m t = (Ok (), t')" and "alive Q ch t'"
    and "peer_state t' = peer_state t"
    and "sent (world (peer_sys t')) = sent (world (peer_sys t)) @ [b]"
    and "asks [b] (case idx of Some i \<Rightarrow> [i] | None \<Rightarrow> []) []"
proof -
  have al: "Q (peer_core t)" "\<not> closed ch (peer_sys t)" using alive by (simp_all add: alive_def)
  obtain x c1 where v: "hc_verify_and_apply_proof K (into_proof m) (peer_core t) = (Inr x, c1)" "Q c1"
    using coop proof_ok al(1) unfolding core_cooperates_def by blast
  obtain t' rb msgs where step: "on_data checks E K ch m t = (Ok (), t')"
    "steady K Q (hc_info K c1) (peer_core t')" "\<not> closed ch (peer_sys t')" "peer_state t' = peer_state t"
    "sent (world (peer_sys t')) = sent (world (peer_sys t)) @
      [map (ChannelMessage_new (of_nat (ch_local_id ch))) msgs]"
    "(data_reply checks (peer_state t) (hc_info K c1) m rb :: ('e app_error, message list) outcome) = Ok msgs"
    "map_option rb_index rb = idx"
    by (rule on_data_step [OF v al(2) nr idx])
  have "\<exists>ms. (data_reply checks (peer_state t) (hc_info K c1) m rb :: ('e app_error, message list) outcome) = Ok ms \<and>
      asks [map (ChannelMessage_new (of_nat (ch_local_id ch))) ms]
        (case rb of Some b \<Rightarrow> [rb_index b] | None \<Rightarrow> []) []"
    by (rule data_reply_asks) (use idx step(7) in auto)
  then have "asks [map (ChannelMessage_new (of_nat (ch_local_id ch))) msgs] (case idx of Some i \<Rightarrow> [i] | None \<Rightarrow> []) []"
    using step(6,7) by (cases rb) auto
  with step that show ?thesis by (simp add: alive_def)
qed

lemma blocks_run:
  assumes n: "n < 2 ^ 64"
    and blk: "\<And>j. j < n \<Longrightarrow> into_proof (blk j) \<in> P \<and> data_upgrade (blk j) = None \<and>
      (\<exists>b. data_block (blk j) = Some b \<and> db_index b = of_nat j)"
  shows "map snd ms = map (\<lambda>j. Data (blk j)) [i..<n] \<Longrightarrow> i \<le> n \<Longrightarrow>
    \<forall>other \<in> fst ` set ms. gentle K Q sent ch other \<Longrightarrow> alive Q ch t \<Longrightarrow>
    ps_remote_length (peer_state t) = of_nat n \<Longrightarrow>
    \<exists>t' bs. onpeer_loop checks E K ch ms t = (Ok (), t') \<and>
      sent (world (peer_sys t')) = sent (world (peer_sys t)) @ bs \<and> asks bs (map of_nat [i + 1..<n]) []"
proof (induction ms arbitrary: i t)
  case Nil
  then have "asks [] (map of_nat [i + 1..<n]) []" by (auto simp: asks_def)
  then show ?case by (intro exI [of _ t] exI [of _ "[]"]) simp
next
  case (Cons om ms)
  obtain other where om: "om = (other, Data (blk i))" and i: "i < n"
    and ms: "map snd ms = map (\<lambda>j. Data (blk j)) [i + 1..<n]"
    using Cons.prems(1,2) by (cases om; cases "i < n") (auto simp: upt_conv_Cons)
  have g: "gentle K Q sent ch other" and gs: "\<forall>other \<in> fst ` set ms. gentle K Q sent ch other"
    using Cons.prems(3) om by auto
  note t1 = interfered_alive [OF g Cons.prems(4)]
  let ?t = "interfered other t"
  obtain b where p: "into_proof (blk i) \<in> P" and b: "data_upgrade (blk i) = None" "data_block (blk i) = Some b" "db_index b = of_nat i"
    using blk [OF i] by blast
  have len: "ps_remote_length (peer_state ?t) = of_nat n" using Cons.prems(5) t1(2) by simp
  let ?idx = "if i + 1 < n then Some (of_nat (i + 1)) else None :: u64 option"
  have small: "unat j + 1 < 2 ^ 64" if "?idx = Some j" for j
  proof -
    from that have j: "i + 1 < n" "j = of_nat (i + 1)" by (simp_all split: if_splits)
    have "i + 1 < 2 ^ 64" using j(1) n by linarith
    from unat_of_nat_u64 [OF this] have "unat j = i + 1" unfolding j(2) .
    with j(1) n show ?thesis by linarith
  qed
  obtain t' batch where d: "on_data checks E K ch (blk i) ?t = (Ok (), t')" "alive Q ch t'"
    "peer_state t' = peer_state ?t" "sent (world (peer_sys t')) = sent (world (peer_sys ?t)) @ [batch]"
    "asks [batch] (case ?idx of Some j \<Rightarrow> [j] | None \<Rightarrow> []) []"
    by (rule on_data_run [OF t1(1) p quietly_next_block [OF coop b len i n] small])
  obtain t'' bs where rest: "onpeer_loop checks E K ch ms t' = (Ok (), t'')"
    "sent (world (peer_sys t'')) = sent (world (peer_sys t')) @ bs" "asks bs (map of_nat [i + 1 + 1..<n]) []"
    using Cons.IH [OF ms _ gs d(2)] i d(3) len by auto
  have "onpeer_loop checks E K ch (om # ms) t = (Ok (), t'')"
    unfolding om by (rule trans [OF onpeer_loop_Cons rest(1)]) (simp add: onmessage_def d(1))
  moreover have "asks (batch # bs) (map of_nat [i + 1..<n]) []"
    using asks_append [OF d(5) rest(3)] by (cases "i + 1 < n") (simp_all add: upt_conv_Cons)
  ultimately show ?case
    using d(4) rest(2) t1(4) by (intro exI [of _ t''] exI [of _ "batch # bs"]) simp
qed

lemma onpeer_start_run:
  assumes alive: "alive Q ch t"
  obtains t' bs where "onpeer_start E K ch t = (Ok (), t')" and "alive Q ch t'"
    and "ps_remote_length (peer_state t') = ps_remote_length (peer_state t)"
    and "peer_core t' = peer_core t"
    and "sent (world (peer_sys t')) = sent (world (peer_sys t)) @ bs" and "asks bs [] []"
proof -
  let ?info = "hc_info K (peer_core t)" and ?ps = "peer_state t"
  let ?ps' = "if info_fork ?info \<noteq> ps_remote_fork ?ps then ?ps\<lparr>ps_can_upgrade := False\<rparr> else ?ps"
  let ?t = "t\<lparr>peer_state := ?ps'\<rparr>"
  have op: "\<not> closed ch (peer_sys ?t)" and Q: "Q (peer_core t)" using alive by (simp_all add: alive_def)
  have len: "ps_remote_length ?ps' = ps_remote_length ?ps" by simp
  show ?thesis
  proof (cases "info_contiguous_length ?info > 0")
    case True
    obtain ms where ms: "onpeer_start E K ch t = unwrap_task (io_call (send_batch E ch ms)) ?t"
      and a: "asks [map (ChannelMessage_new (of_nat (ch_local_id ch))) ms] [] []"
      using True by (force simp: onpeer_start_def Let_def asks_def ChannelMessage_new_def)
    obtain s' where "(io_call (send_batch E ch ms) :: ('w, 'c, 'e, unit) task) ?t = (Ok (), ?t\<lparr>peer_sys := s'\<rparr>)"
      "\<not> closed ch s'"
      "sent (world s') = sent (world (peer_sys ?t)) @ [map (ChannelMessage_new (of_nat (ch_local_id ch))) ms]"
      by (rule send_batch_takes [OF op])
    with ms a that [of "?t\<lparr>peer_sys := s'\<rparr>"] Q len show ?thesis
      by (simp add: unwrap_task_def alive_def)
  next
    case False
    obtain m where m: "onpeer_start E K ch t = unwrap_task (io_call (send E ch m)) ?t"
      and a: "asks [[ChannelMessage_new (of_nat (ch_local_id ch)) m]] [] []"
      using False by (force simp: onpeer_start_def Let_def asks_def ChannelMessage_new_def)
    obtain s' where "(io_call (send E ch m) :: ('w, 'c, 'e, unit) task) ?t = (Ok (), ?t\<lparr>peer_sys := s'\<rparr>)"
      "\<not> closed ch s'"
      "sent (world s') = sent (world (peer_sys ?t)) @ [[ChannelMessage_new (of_nat (ch_local_id ch)) m]]"
      by (rule send_takes [OF op])
    with m a that [of "?t\<lparr>peer_sys := s'\<rparr>"] Q len show ?thesis
      by (simp add: unwrap_task_def alive_def)
  qed
qed

lemma on_synchronize_run:
  assumes alive: "alive Q ch t"
    and longer: "info_length (hc_info K (peer_core t)) < sync_length m"
    and acked: "sync_fork m = info_fork (hc_info K (peer_core t)) \<Longrightarrow>
      sync_remote_length m = info_length (hc_info K (peer_core t))"
    and forked: "sync_fork m \<noteq> info_fork (hc_info K (peer_core t)) \<Longrightarrow> info_length (hc_info K (peer_core t)) = 0"
    and changed: "sync_length m \<noteq> ps_remote_length (peer_state t)"
  obtains t' b where "on_synchronize E K ch m t = (Ok (), t')" and "alive Q ch t'"
    and "ps_remote_length (peer_state t') = sync_length m" and "peer_core t' = peer_core t"
    and "sent (world (peer_sys t')) = sent (world (peer_sys t)) @ [b]"
    and "asks [b] [] [\<lparr>ru_start = info_length (hc_info K (peer_core t)),
      ru_length = sync_length m - info_length (hc_info K (peer_core t))\<rparr>]"
proof -
  let ?info = "hc_info K (peer_core t)"
  obtain ps ms where run: "on_synchronize E K ch m t = io_call (send_batch E ch ms) (t\<lparr>peer_state := ps\<rparr>)"
    and ps: "ps_remote_length ps = sync_length m"
    and a: "asks [map (ChannelMessage_new (of_nat (ch_local_id ch))) ms] []
      [\<lparr>ru_start = info_length ?info, ru_length = sync_length m - info_length ?info\<rparr>]"
    using longer acked forked changed
    by (cases "sync_fork m = info_fork ?info"; cases "ps_remote_synced (peer_state t)")
      (auto simp: on_synchronize_def Let_def asks_def ChannelMessage_new_def)
  have op: "\<not> closed ch (peer_sys (t\<lparr>peer_state := ps\<rparr>))" using alive by (simp add: alive_def)
  obtain s' where "(io_call (send_batch E ch ms) :: ('w, 'c, 'e, unit) task) (t\<lparr>peer_state := ps\<rparr>) =
      (Ok (), t\<lparr>peer_state := ps\<rparr>\<lparr>peer_sys := s'\<rparr>)" "\<not> closed ch s'"
    "sent (world s') = sent (world (peer_sys (t\<lparr>peer_state := ps\<rparr>))) @
      [map (ChannelMessage_new (of_nat (ch_local_id ch))) ms]"
    by (rule send_batch_takes [OF op])
  with run ps a alive that [of "t\<lparr>peer_state := ps\<rparr>\<lparr>peer_sys := s'\<rparr>"] show ?thesis by (simp add: alive_def)
qed

lemma replication_run:
  assumes Q: "Q c"
    and empty: "info_length (hc_info K c) = 0" and op: "\<not> closed ch s"
    and n: "0 < n" "n < 2 ^ 64" and y: "sync_length y = of_nat n" "sync_remote_length y = 0"
    and u: "into_proof d \<in> P" "data_upgrade d = Some u" "du_length u = of_nat n"
    and blk: "\<And>j. j < n \<Longrightarrow> into_proof (blk j) \<in> P \<and> data_upgrade (blk j) = None \<and>
      (\<exists>b. data_block (blk j) = Some b \<and> db_index b = of_nat j)"
    and ms: "map snd ms = Synchronize y # Data d # map (\<lambda>j. Data (blk j)) [0..<n]"
    and g: "\<forall>other \<in> fst ` set ms. gentle K Q sent ch other"
  shows "\<exists>t bs. onpeer checks E K ch ms c s = (Ok (), t) \<and>
    sent (world (peer_sys t)) = sent (world s) @ bs \<and>
    asks bs (map of_nat [0..<n]) [\<lparr>ru_start = 0, ru_length = of_nat n\<rparr>]"
proof -
  let ?t0 = "\<lparr>peer_state = PeerState_default, peer_core = c, peer_sys = s\<rparr>"
  obtain o1 o2 ms' where split: "ms = (o1, Synchronize y) # (o2, Data d) # ms'"
    and ms': "map snd ms' = map (\<lambda>j. Data (blk j)) [0..<n]"
    using ms by (auto simp: Cons_eq_map_conv)
  have nz: "0 < (of_nat n :: u64)" using n unat_of_nat_u64 [of n] by (simp add: word_less_nat_alt)
  have a0: "alive Q ch ?t0" using Q op by (simp add: alive_def)
  obtain t1 b1 where 1: "onpeer_start E K ch ?t0 = (Ok (), t1)" "alive Q ch t1"
    "ps_remote_length (peer_state t1) = ps_remote_length (peer_state ?t0)" "peer_core t1 = peer_core ?t0"
    "sent (world (peer_sys t1)) = sent (world (peer_sys ?t0)) @ b1" "asks b1 [] []"
    by (rule onpeer_start_run [OF a0])
  have g1: "gentle K Q sent ch o1" and g2: "gentle K Q sent ch o2"
    and g': "\<forall>other \<in> fst ` set ms'. gentle K Q sent ch other" using g split by auto
  note i1 = interfered_alive [OF g1 1(2)]
  have len1: "info_length (hc_info K (peer_core (interfered o1 t1))) = 0" using i1(3) 1(4) empty by simp
  have longer: "info_length (hc_info K (peer_core (interfered o1 t1))) < sync_length y"
    and acked: "sync_remote_length y = info_length (hc_info K (peer_core (interfered o1 t1)))"
    and forked: "info_length (hc_info K (peer_core (interfered o1 t1))) = 0"
    using len1 y nz by simp_all
  have changed: "sync_length y \<noteq> ps_remote_length (peer_state (interfered o1 t1))"
    using y(1) nz 1(3) i1(2) by (auto simp: PeerState_default_def)
  obtain t2 b2 where 2: "on_synchronize E K ch y (interfered o1 t1) = (Ok (), t2)" "alive Q ch t2"
    "ps_remote_length (peer_state t2) = sync_length y" "peer_core t2 = peer_core (interfered o1 t1)"
    "sent (world (peer_sys t2)) = sent (world (peer_sys (interfered o1 t1))) @ [b2]"
    "asks [b2] [] [\<lparr>ru_start = info_length (hc_info K (peer_core (interfered o1 t1))),
      ru_length = sync_length y - info_length (hc_info K (peer_core (interfered o1 t1)))\<rparr>]"
    by (rule on_synchronize_run [OF i1(1) longer acked forked changed])
  note i2 = interfered_alive [OF g2 2(2)]
  have len2: "info_length (hc_info K (peer_core (interfered o2 t2))) = 0" using i2(3) 2(4) len1 by simp
  have less2: "info_length (hc_info K (peer_core (interfered o2 t2))) < du_length u" using len2 u(3) nz by simp
  obtain t3 b3 where 3: "on_data checks E K ch d (interfered o2 t2) = (Ok (), t3)" "alive Q ch t3"
    "peer_state t3 = peer_state (interfered o2 t2)"
    "sent (world (peer_sys t3)) = sent (world (peer_sys (interfered o2 t2))) @ [b3]"
    "asks [b3] (case Some (0 :: u64) of Some j \<Rightarrow> [j] | None \<Rightarrow> []) []"
    by (rule on_data_run [OF i2(1) u(1) quietly_next_upgrade [OF coop u(2) less2, unfolded len2]]) simp
  have len3: "ps_remote_length (peer_state t3) = of_nat n" using 3(3) i2(2) 2(3) y(1) by simp
  obtain t4 b4 where 4: "onpeer_loop checks E K ch ms' t3 = (Ok (), t4)"
    "sent (world (peer_sys t4)) = sent (world (peer_sys t3)) @ b4" "asks b4 (map of_nat [0 + 1..<n]) []"
    using blocks_run [OF n(2) blk ms' _ g' 3(2) len3] by blast
  have "onpeer_loop checks E K ch ms t1 = (Ok (), t4)"
    unfolding split
    by (rule trans [OF onpeer_loop_Cons [of _ _ _ _ _ _ _ t2] trans [OF onpeer_loop_Cons 4(1)]])
      (simp_all add: onmessage_def 2(1) 3(1))
  then have "onpeer checks E K ch ms c s = (Ok (), t4)" using 1(1) by (simp add: onpeer_def then_task_def)
  moreover have "asks (b1 @ [b2] @ [b3] @ b4) (map of_nat [0..<n]) [\<lparr>ru_start = 0, ru_length = of_nat n\<rparr>]"
    using asks_append [OF 1(6) asks_append [OF 2(6) asks_append [OF 3(5) 4(3)]]] len1 y(1) n(1)
    by (simp add: upt_conv_Cons)
  moreover have "sent (world (peer_sys t4)) = sent (world s) @ b1 @ [b2] @ [b3] @ b4"
    using 1(5) i1(4) 2(5) i2(4) 3(4) 4(2) by simp
  ultimately show ?thesis by blast
qed

lemma on_request_run:
  assumes op: "\<not> closed ch (peer_sys t)"
    and pr: "hc_create_proof K (req_block m) (req_hash m) (req_seek m) (req_upgrade m) (peer_core t) =
      (Inr (Some proof), c)"
    and fork: "proof_fork proof = info_fork (hc_info K c)"
  obtains d s' where "on_request E K ch m t = (Ok (), t\<lparr>peer_core := c, peer_sys := s'\<rparr>)"
    and "sent (world s') = sent (world (peer_sys t)) @ [[ChannelMessage_new (of_nat (ch_local_id ch)) (Data d)]]"
    and "into_proof d = proof" and "\<not> closed ch s'" and "data_request d = req_id m"
proof -
  let ?d = "\<lparr>data_request = req_id m, data_fork = info_fork (hc_info K c), data_block = proof_block proof,
    data_hash = proof_hash proof, data_seek = proof_seek proof, data_upgrade = proof_upgrade proof\<rparr>"
  obtain s' where "(io_call (send E ch (Data ?d)) :: ('w, 'c, 'e, unit) task) (t\<lparr>peer_core := c\<rparr>) =
      (Ok (), t\<lparr>peer_core := c\<rparr>\<lparr>peer_sys := s'\<rparr>)" "\<not> closed ch s'"
    "sent (world s') = sent (world (peer_sys (t\<lparr>peer_core := c\<rparr>))) @
      [[ChannelMessage_new (of_nat (ch_local_id ch)) (Data ?d)]]"
    by (rule send_takes [of ch "t\<lparr>peer_core := c\<rparr>"]) (use op in simp_all)
  with pr fork that [of s' ?d] show ?thesis
    by (simp add: on_request_def then_task_def core_call_def into_proof_def)
qed

lemma on_data_short_upgrade:
  assumes alive: "alive Q ch t"
    and p: "into_proof d \<in> P" and u: "data_upgrade d = Some u"
    and short: "du_length u \<le> info_length (hc_info K (peer_core t))"
  obtains t' y where "on_data checks E K ch d t = (Ok (), t')"
    and "sent (world (peer_sys t')) = sent (world (peer_sys t)) @
      [[ChannelMessage_new (of_nat (ch_local_id ch)) (Synchronize y)]]"
    and "sync_length y = du_length u"
proof -
  obtain x c1 where v: "core_call (hc_verify_and_apply_proof K (into_proof d)) t = (Ok x, t\<lparr>peer_core := c1\<rparr>)"
    "Q c1"
    using quietlyD [OF cooperates(2) [OF coop p] refl] alive by (auto simp: alive_def)
  let ?new = "hc_info K c1"
  have none: "next_request checks K (hc_info K (peer_core t)) d (t\<lparr>peer_core := c1\<rparr>) = (Ok None, t\<lparr>peer_core := c1\<rparr>)"
    using short u by (simp add: next_request_def ret_task_def not_less [symmetric])
  obtain c3 where pr: "print_complete K ?new (t\<lparr>peer_core := c1\<rparr>) = (Ok (), t\<lparr>peer_core := c3\<rparr>)"
    by (rule quietlyD [OF quietly_print_complete [OF coop], of "t\<lparr>peer_core := c1\<rparr>"]) (use v(2) in simp_all)
  obtain y where y: "(data_reply checks (peer_state t) ?new d None :: ('e app_error, message list) outcome) =
      Ok [Synchronize y]" "sync_length y = du_length u"
    using u by (simp add: data_reply_def)
  obtain s' where "(io_call (send_batch E ch [Synchronize y]) :: ('w, 'c, 'e, unit) task) (t\<lparr>peer_core := c3\<rparr>) =
      (Ok (), t\<lparr>peer_core := c3\<rparr>\<lparr>peer_sys := s'\<rparr>)"
    "sent (world s') = sent (world (peer_sys (t\<lparr>peer_core := c3\<rparr>))) @
      [map (ChannelMessage_new (of_nat (ch_local_id ch))) [Synchronize y]]"
    by (rule send_batch_takes [of ch "t\<lparr>peer_core := c3\<rparr>" "[Synchronize y]"])
      (use alive in \<open>auto simp: alive_def\<close>)
  with v(1) none pr y that [of "t\<lparr>peer_core := c3\<rparr>\<lparr>peer_sys := s'\<rparr>" y] show ?thesis
    by (simp add: on_data_def then_task_def unwrap_task_def Let_def)
qed

end

section \<open>The cores of a connection\<close>

text \<open>Every core of the store is filed under the discovery key of its own key.\<close>

definition store_inv :: "crypto \<Rightarrow> HypercoreStore \<Rightarrow> bool" where
  "store_inv H store \<longleftrightarrow> list_all (\<lambda>(k, w). k = hex_encode H (hw_discovery_key w) \<and>
     discovery_key H (hw_key w) = Ok (hw_discovery_key w)) store"

inductive store_of :: "crypto \<Rightarrow> ('c, 'e) hypercore \<Rightarrow> HypercoreStore \<Rightarrow> bool" for H K where
  store_new: "store_of H K HypercoreStore_new"
| store_add: "store_of H K store \<Longrightarrow> from_memory_hypercore H K addr c = Ok w \<Longrightarrow>
    store_of H K (HypercoreStore_add H w store)"

lemma set_alist_update: "set (AList.update k v al) \<subseteq> insert (k, v) (set al)"
  by (induction al) auto

lemma store_of_inv: "store_of H K store \<Longrightarrow> store_inv H store"
proof (induction rule: store_of.induct)
  case store_new
  show ?case by (simp add: store_inv_def HypercoreStore_new_def)
next
  case (store_add store addr c w)
  have "discovery_key H (hw_key w) = Ok (hw_discovery_key w)"
    using store_add.hyps(2) by (auto simp: from_memory_hypercore_def Let_def and_then_eq_Ok)
  then show ?case
    using store_add.IH set_alist_update [of "hex_encode H (hw_discovery_key w)" w store]
    by (auto simp: store_inv_def HypercoreStore_add_def list_all_iff)
qed

lemma store_get:
  assumes "inj (hex_encode H)" and "store_inv H store" and "HypercoreStore_get H dk store = Some w"
  shows "w \<in> snd ` set store" and "hw_discovery_key w = dk" and "discovery_key H (hw_key w) = Ok dk"
proof -
  have entry: "(hex_encode H dk, w) \<in> set store"
    using assms(3) by (simp add: HypercoreStore_get_def map_of_SomeD)
  then show "w \<in> snd ` set store" by force
  from entry assms(2) have "hex_encode H dk = hex_encode H (hw_discovery_key w)"
    and key: "discovery_key H (hw_key w) = Ok (hw_discovery_key w)"
    by (auto simp: store_inv_def list_all_iff)
  with assms(1) show "hw_discovery_key w = dk" by (auto dest: injD)
  with key show "discovery_key H (hw_key w) = Ok dk" by simp
qed

definition served :: "HypercoreStore \<Rightarrow> bytes \<Rightarrow> bool" where
  "served store dk \<longleftrightarrow> (\<exists>w \<in> snd ` set store. hw_discovery_key w = dk)"

lemma store_get_served:
  assumes "inj (hex_encode H)" and "store_inv H store"
  shows "served store dk \<longleftrightarrow> (\<exists>w. HypercoreStore_get H dk store = Some w)"
proof
  assume "served store dk"
  then obtain k w where w: "(k, w) \<in> set store" "hw_discovery_key w = dk" by (auto simp: served_def)
  then have "k = hex_encode H dk" using assms(2) by (auto simp: store_inv_def list_all_iff)
  then have "hex_encode H dk \<in> fst ` set store" using w(1) by force
  then show "\<exists>w. HypercoreStore_get H dk store = Some w"
    by (simp add: HypercoreStore_get_def dom_map_of_conv_image_fst [symmetric] domD)
qed (unfold served_def, use store_get [OF assms] in blast)

text \<open>Every awaited send of a command resolves with success, where the queue is full once the protocol has
  taken commands from it. \<open>given\<close> is the log of what was sent.\<close>

definition commands_take :: "'w env \<Rightarrow> ('w \<Rightarrow> Command list) \<Rightarrow> bool" where
  "commands_take E given \<longleftrightarrow>
     (\<forall>c w. \<exists>w'. command_tx_send E c w = (True, w') \<and> given w' = given w @ [c])"

lemma CommandTx_open_takes:
  assumes "commands_take E given"
  obtains s' where "CommandTx_open E key s = (Ok (), s')"
    and "given (world s') = given (world s) @ [Command_Open key]"
proof -
  obtain w where "command_tx_send E (Command_Open key) (world s) = (True, w)"
    "given w = given (world s) @ [Command_Open key]"
    using assms unfolding commands_take_def by blast
  with that [of "s\<lparr>world := w\<rparr>"] show ?thesis
    by (simp add: CommandTx_open_def CommandTx_send_def map_channel_err_def set_world_def)
qed

lemma open_all_takes:
  assumes "commands_take E given"
  shows "\<exists>s'. open_all E ws s = (Ok (), s') \<and>
    given (world s') = given (world s) @ map (\<lambda>w. Command_Open (hw_key w)) ws"
proof (induction ws arbitrary: s)
  case (Cons w ws)
  obtain s1 where s1: "CommandTx_open E (hw_key w) s = (Ok (), s1)"
    "given (world s1) = given (world s) @ [Command_Open (hw_key w)]"
    by (rule CommandTx_open_takes [OF assms])
  from Cons.IH [of s1] s1 show ?case by auto
qed simp

text \<open>What an event makes a connection do: the keys it opens, and the task it starts.\<close>

definition event_opens :: "crypto \<Rightarrow> bool \<Rightarrow> HypercoreStore \<Rightarrow> Event \<Rightarrow> bytes list" where
  "event_opens H is_initiator store ev =
     (case ev of
        Event_Handshake _ \<Rightarrow> if is_initiator then map (hw_key \<circ> snd) store else []
      | Event_DiscoveryKey dk \<Rightarrow>
          (case HypercoreStore_get H dk store of Some w \<Rightarrow> [hw_key w] | None \<Rightarrow> [])
      | _ \<Rightarrow> [])"

definition event_spawns :: "crypto \<Rightarrow> HypercoreStore \<Rightarrow> Event \<Rightarrow> (HypercoreWrapper \<times> Channel) list" where
  "event_spawns H store ev =
     (case ev of
        Event_Channel ch \<Rightarrow>
          (case HypercoreStore_get H (ch_discovery_key ch) store of Some w \<Rightarrow> [(w, ch)] | None \<Rightarrow> [])
      | _ \<Rightarrow> [])"

definition event_channels :: "Event \<Rightarrow> Channel list" where
  "event_channels ev = (case ev of Event_Channel ch \<Rightarrow> [ch] | _ \<Rightarrow> [])"

lemma event_opens_stored:
  assumes "inj (hex_encode H)" and "store_inv H store"
  shows "set (event_opens H is_initiator store ev) \<subseteq> hw_key ` snd ` set store"
  using store_get(1) [OF assms] by (auto simp: event_opens_def split: Event.splits option.splits)

lemma event_opens_announced:
  assumes "inj (hex_encode H)" and "store_inv H store" and "served store dk"
  shows "\<exists>key. key \<in> set (event_opens H is_initiator store (Event_DiscoveryKey dk)) \<and>
    discovery_key H key = Ok dk"
  using store_get_served [OF assms(1,2)] store_get(3) [OF assms(1,2)] assms(3)
  by (force simp: event_opens_def)

lemma event_spawns_served:
  assumes "inj (hex_encode H)" and "store_inv H store"
  shows "map snd (event_spawns H store ev) = filter (\<lambda>ch. served store (ch_discovery_key ch)) (event_channels ev)"
  using store_get_served [OF assms]
  by (auto simp: event_spawns_def event_channels_def split: Event.splits option.splits)

lemma event_spawns_stored:
  assumes "inj (hex_encode H)" and "store_inv H store" and "(w, ch) \<in> set (event_spawns H store ev)"
  shows "w \<in> snd ` set store" and "discovery_key H (hw_key w) = Ok (ch_discovery_key ch)"
  using assms(3) store_get [OF assms(1,2)]
  by (auto simp: event_spawns_def split: Event.splits option.splits)

lemma on_event_run:
  assumes "commands_take E given"
  shows "\<exists>sp s'. on_event H E is_initiator store ev s = (Ok sp, s') \<and>
    (case sp of Some t \<Rightarrow> [t] | None \<Rightarrow> []) = event_spawns H store ev \<and>
    given (world s') = given (world s) @ map Command_Open (event_opens H is_initiator store ev)"
proof (cases ev)
  case (Event_Handshake k)
  with open_all_takes [OF assms, of "map snd store" s] show ?thesis
    by (auto simp: on_event_def event_spawns_def event_opens_def)
next
  case (Event_DiscoveryKey dk)
  show ?thesis
  proof (cases "HypercoreStore_get H dk store")
    case (Some w)
    obtain s1 where "CommandTx_open E (hw_key w) s = (Ok (), s1)"
      "given (world s1) = given (world s) @ [Command_Open (hw_key w)]"
      by (rule CommandTx_open_takes [OF assms])
    with Some Event_DiscoveryKey show ?thesis
      by (simp add: on_event_def event_spawns_def event_opens_def)
  qed (simp add: Event_DiscoveryKey on_event_def event_spawns_def event_opens_def)
qed (auto simp: on_event_def event_spawns_def event_opens_def split: option.splits)

lemma onconnection_run:
  assumes "commands_take E given"
  shows "\<forall>other \<in> fst ` set evs. \<forall>s. given (world (other s)) = given (world s) \<Longrightarrow>
    map snd evs = map Inr es \<Longrightarrow>
    \<exists>s'. onconnection_loop H E is_initiator store evs s =
        (Ok (), concat (map (event_spawns H store) es), s') \<and>
      given (world s') = given (world s) @
        map Command_Open (concat (map (event_opens H is_initiator store) es))"
proof (induction evs arbitrary: es s)
  case (Cons oe evs)
  obtain other e es' where oe: "oe = (other, Inr e)" "es = e # es'" "map snd evs = map Inr es'"
    using Cons.prems(2) by (cases oe; cases es) auto
  obtain sp s1 where ev: "on_event H E is_initiator store e (other s) = (Ok sp, s1)"
    "(case sp of Some t \<Rightarrow> [t] | None \<Rightarrow> []) = event_spawns H store e"
    "given (world s1) = given (world (other s)) @ map Command_Open (event_opens H is_initiator store e)"
    using on_event_run [OF assms] by metis
  have "given (world (other s)) = given (world s)" using Cons.prems(1) oe(1) by simp
  moreover obtain s' where "onconnection_loop H E is_initiator store evs s1 =
      (Ok (), concat (map (event_spawns H store) es'), s')"
    "given (world s') = given (world s1) @ map Command_Open (concat (map (event_opens H is_initiator store) es'))"
    using Cons.IH [OF _ oe(3), of s1] Cons.prems(1) by auto
  ultimately show ?case
    using ev(1,3) ev(2) [symmetric] oe(1,2) by (cases sp) simp_all
qed simp

end
