(* ===== verification/Exchange.thy ===== *)
theory Exchange
  imports Replication
begin

text \<open>
  Two tasks of \<open>replication.rs\<close> that replicate a core: one side has all blocks, the other none. Each
  answers the messages of the other, in any interleaving; what a side sends reaches the other in order.
  An invariant over the phases of the exchange shows that no task stops with an error or a panic, that
  every run ends, and that it ends with the blocks of the one side in the core of the other.
\<close>

section \<open>Cores that can be copied\<close>

definition has :: "('c, 'e) hypercore \<Rightarrow> 'c \<Rightarrow> nat \<Rightarrow> bytes \<Rightarrow> bool" where
  "has K c i v \<longleftrightarrow> fst (hc_get K (of_nat i) c) = Inr (Some v)"

definition keeps :: "('c, 'e) hypercore \<Rightarrow> 'c \<Rightarrow> 'c \<Rightarrow> bool" where
  "keeps K c c' \<longleftrightarrow> (\<forall>i v. has K c i v \<longrightarrow> has K c' i v)"

definition upgrade_proof :: "nat \<Rightarrow> u64 \<Rightarrow> Proof \<Rightarrow> bool" where
  "upgrade_proof n f p \<longleftrightarrow> proof_fork p = f \<and> proof_block p = None \<and>
     (\<exists>u. proof_upgrade p = Some u \<and> du_start u = 0 \<and> du_length u = of_nat n)"

definition block_proof :: "u64 \<Rightarrow> nat \<Rightarrow> bytes \<Rightarrow> Proof \<Rightarrow> bool" where
  "block_proof f i v p \<longleftrightarrow> proof_fork p = f \<and> proof_upgrade p = None \<and>
     (\<exists>b. proof_block p = Some b \<and> db_index b = of_nat i \<and> db_value b = v)"

text \<open>A core with \<open>n\<close> blocks \<open>val\<close> that makes a proof in \<open>G\<close> for what it is asked.\<close>

definition origin ::
  "('c, 'e) hypercore \<Rightarrow> ('c \<Rightarrow> bool) \<Rightarrow> Proof set \<Rightarrow> nat \<Rightarrow> u64 \<Rightarrow> (nat \<Rightarrow> bytes) \<Rightarrow> bool"
where
  "origin K Q G n f val \<longleftrightarrow> (\<forall>c. Q c \<longrightarrow>
     info_length (hc_info K c) = of_nat n \<and> info_fork (hc_info K c) = f \<and>
     (\<exists>p c'. hc_create_proof K None None None (Some \<lparr>ru_start = 0, ru_length = of_nat n\<rparr>) c =
        (Inr (Some p), c') \<and> Q c' \<and> p \<in> G \<and> upgrade_proof n f p) \<and>
     (\<forall>i < n. \<forall>k. \<exists>p c'. hc_create_proof K (Some \<lparr>rb_index = of_nat i, rb_nodes = k\<rparr>) None None None c =
        (Inr (Some p), c') \<and> Q c' \<and> p \<in> G \<and> block_proof f i (val i) p))"

text \<open>A core that verifies the proofs in \<open>G\<close> and stores what they carry, and loses nothing.\<close>

definition copies ::
  "('c, 'e) hypercore \<Rightarrow> ('c \<Rightarrow> bool) \<Rightarrow> Proof set \<Rightarrow> nat \<Rightarrow> u64 \<Rightarrow> (nat \<Rightarrow> bytes) \<Rightarrow> bool"
where
  "copies K Q G n f val \<longleftrightarrow> (\<forall>c. Q c \<longrightarrow> info_fork (hc_info K c) = f \<and>
     (\<forall>p \<in> G. upgrade_proof n f p \<longrightarrow> (\<exists>b c'. hc_verify_and_apply_proof K p c = (Inr b, c') \<and> Q c' \<and>
        info_length (hc_info K c') = of_nat n \<and> keeps K c c')) \<and>
     (\<forall>p \<in> G. \<forall>i < n. block_proof f i (val i) p \<longrightarrow> info_length (hc_info K c) = of_nat n \<longrightarrow>
        (\<exists>b c'. hc_verify_and_apply_proof K p c = (Inr b, c') \<and> Q c' \<and>
           info_length (hc_info K c') = of_nat n \<and> keeps K c c' \<and> has K c' i (val i))) \<and>
     (\<forall>i. \<exists>k c'. hc_missing_nodes K i c = (Inr k, c') \<and> Q c' \<and> hc_info K c' = hc_info K c \<and> keeps K c c') \<and>
     (\<forall>i < info_contiguous_length (hc_info K c). \<exists>v c'. hc_get K i c = (Inr (Some v), c') \<and>
        utf8_bytes (map unat v) \<and> Q c' \<and> hc_info K c' = hc_info K c \<and> keeps K c c'))"

definition holds :: "('c, 'e) hypercore \<Rightarrow> ('c \<Rightarrow> bool) \<Rightarrow> (nat \<Rightarrow> bytes) \<Rightarrow> nat \<Rightarrow> 'c \<Rightarrow> bool" where
  "holds K Q val k c \<longleftrightarrow> Q c \<and> (\<forall>i < k. has K c i (val i))"

lemma copies_cooperates: "copies K Q G n f val \<Longrightarrow> core_cooperates K (holds K Q val k) {}"
  unfolding copies_def core_cooperates_def holds_def keeps_def by (auto, metis, metis)

section \<open>The network\<close>

text \<open>One side: its environment, its core, its channel and what its queue was given.\<close>

record ('w, 'c, 'e) side =
  s_env :: "'w env"
  s_core :: "('c, 'e) hypercore"
  s_channel :: Channel
  s_sent :: "'w \<Rightarrow> ChannelMessage list list"

definition sends :: "('w, 'c, 'e) side \<Rightarrow> ('w, 'c) peer \<Rightarrow> message list \<Rightarrow> ('w, 'c) peer \<Rightarrow> bool" where
  "sends A t ms t' \<longleftrightarrow> (\<exists>bs. s_sent A (world (peer_sys t')) = s_sent A (world (peer_sys t)) @ bs \<and>
     ms = map message (concat bs))"

definition starts :: "('w, 'c, 'e) side \<Rightarrow> 'c \<Rightarrow> 'w sys \<Rightarrow> message list \<Rightarrow> ('w, 'c) peer \<Rightarrow> bool" where
  "starts A c s ms t \<longleftrightarrow>
     (let t0 = \<lparr>peer_state = PeerState_default, peer_core = c, peer_sys = s\<rparr> in
      onpeer_start (s_env A) (s_core A) (s_channel A) t0 = (Ok (), t) \<and> sends A t0 ms t)"

definition reacts ::
  "bool \<Rightarrow> ('w, 'c, 'e) side \<Rightarrow> message \<Rightarrow> ('w, 'c) peer \<Rightarrow> message list \<Rightarrow> ('w, 'c) peer \<Rightarrow> bool"
where
  "reacts checks A m t ms t' \<longleftrightarrow>
     onmessage checks (s_env A) (s_core A) (s_channel A) m t = (Ok (), t') \<and> sends A t ms t'"

record ('w, 'c, 'v, 'd) net =
  net_origin :: "('w, 'c) peer"
  net_copy :: "('v, 'd) peer"
  to_origin :: "message list"
  to_copy :: "message list"

inductive net_step ::
  "bool \<Rightarrow> ('w, 'c, 'e) side \<Rightarrow> ('v, 'd, 'g) side \<Rightarrow> ('w, 'c, 'v, 'd) net \<Rightarrow> ('w, 'c, 'v, 'd) net \<Rightarrow> bool"
  for checks A B
where
  origin_step: "to_origin N = m # ms \<Longrightarrow> reacts checks A m (net_origin N) out t \<Longrightarrow>
    net_step checks A B N (N\<lparr>net_origin := t, to_origin := ms, to_copy := to_copy N @ out\<rparr>)"
| copy_step: "to_copy N = m # ms \<Longrightarrow> reacts checks B m (net_copy N) out t \<Longrightarrow>
    net_step checks A B N (N\<lparr>net_copy := t, to_copy := ms, to_origin := to_origin N @ out\<rparr>)"

lemma sends_one:
  "s_sent A (world (peer_sys t')) = s_sent A (world (peer_sys t)) @ [map (ChannelMessage_new i) ms] \<Longrightarrow>
   sends A t ms t'"
  unfolding sends_def by (rule exI [of _ "[map (ChannelMessage_new i) ms]"]) (simp add: comp_def ChannelMessage_new_def)

lemma sends_none: "sends A t [] t"
  unfolding sends_def by (rule exI [of _ "[]"]) simp

lemma reacts_det: "reacts checks A m t ms t' \<Longrightarrow> reacts checks A m t ms' t'' \<Longrightarrow> ms = ms' \<and> t' = t''"
  by (auto simp: reacts_def sends_def)

section \<open>Messages of the exchange\<close>

fun quiet_to_origin :: "nat \<Rightarrow> message \<Rightarrow> bool" where
  "quiet_to_origin n (Synchronize y) \<longleftrightarrow> sync_length y \<le> of_nat n"
| "quiet_to_origin n (Range_msg r) \<longleftrightarrow> True"
| "quiet_to_origin n _ \<longleftrightarrow> False"

fun quiet_to_copy :: "nat \<Rightarrow> message \<Rightarrow> bool" where
  "quiet_to_copy n (Synchronize y) \<longleftrightarrow> sync_length y = of_nat n"
| "quiet_to_copy n (Range_msg r) \<longleftrightarrow> True"
| "quiet_to_copy n _ \<longleftrightarrow> False"

fun hello :: "nat \<Rightarrow> u64 \<Rightarrow> message \<Rightarrow> bool" where
  "hello n f (Synchronize y) \<longleftrightarrow> sync_length y = of_nat n \<and> sync_fork y = f \<and> sync_remote_length y = 0"
| "hello n f _ \<longleftrightarrow> False"

fun asks_upgrade :: "nat \<Rightarrow> message \<Rightarrow> bool" where
  "asks_upgrade n (Request r) \<longleftrightarrow> req_block r = None \<and> req_hash r = None \<and> req_seek r = None \<and>
     req_upgrade r = Some \<lparr>ru_start = 0, ru_length = of_nat n\<rparr>"
| "asks_upgrade n _ \<longleftrightarrow> False"

fun gives_upgrade :: "Proof set \<Rightarrow> nat \<Rightarrow> u64 \<Rightarrow> message \<Rightarrow> bool" where
  "gives_upgrade G n f (Data d) \<longleftrightarrow> into_proof d \<in> G \<and> upgrade_proof n f (into_proof d)"
| "gives_upgrade G n f _ \<longleftrightarrow> False"

fun asks_block :: "nat \<Rightarrow> message \<Rightarrow> bool" where
  "asks_block j (Request r) \<longleftrightarrow> (\<exists>k. req_block r = Some \<lparr>rb_index = of_nat j, rb_nodes = k\<rparr>) \<and>
     req_hash r = None \<and> req_seek r = None \<and> req_upgrade r = None"
| "asks_block j _ \<longleftrightarrow> False"

fun gives_block :: "Proof set \<Rightarrow> u64 \<Rightarrow> (nat \<Rightarrow> bytes) \<Rightarrow> nat \<Rightarrow> message \<Rightarrow> bool" where
  "gives_block G f val j (Data d) \<longleftrightarrow> into_proof d \<in> G \<and> block_proof f j (val j) (into_proof d)"
| "gives_block G f val j _ \<longleftrightarrow> False"

text \<open>A queue of quiet messages, with one message among them that carries the exchange on.\<close>

fun carries :: "('a \<Rightarrow> bool) \<Rightarrow> ('a \<Rightarrow> bool) option \<Rightarrow> 'a list \<Rightarrow> bool" where
  "carries h None xs \<longleftrightarrow> list_all h xs"
| "carries h (Some P) xs \<longleftrightarrow> (\<exists>a x b. xs = a @ x # b \<and> list_all h a \<and> P x \<and> list_all h b)"

lemma carries_Cons:
  assumes "carries h tok (x # xs)"
  shows "h x \<and> carries h tok xs \<or> (\<exists>P. tok = Some P \<and> P x \<and> list_all h xs)"
proof (cases tok)
  case (Some P)
  with assms obtain a y b where "x # xs = a @ y # b" "list_all h a" "P y" "list_all h b" by auto
  with Some show ?thesis by (cases a) auto
qed (use assms in simp)

lemma carries_ConsE:
  assumes "carries h tok (x # xs)"
  obtains (quiet) "h x" "carries h tok xs" | (token) P where "tok = Some P" "P x" "list_all h xs"
  using carries_Cons [OF assms] by auto

lemma carries_append: "carries h tok xs \<Longrightarrow> list_all h ys \<Longrightarrow> carries h tok (xs @ ys)"
proof (cases tok)
  case (Some P)
  assume c: "carries h tok xs" "list_all h ys"
  with Some obtain a y b where "xs = a @ y # b" "list_all h a" "P y" "list_all h b" by auto
  then have "xs @ ys = a @ y # (b @ ys)" "list_all h (b @ ys)" using c(2) by simp_all
  with \<open>list_all h a\<close> \<open>P y\<close> show ?thesis unfolding Some carries.simps by blast
qed simp

lemma carries_put: "list_all h xs \<Longrightarrow> list_all h a \<Longrightarrow> P x \<Longrightarrow> carries h (Some P) (xs @ a @ [x])"
  unfolding carries.simps by (rule exI [of _ "xs @ a"], rule exI [of _ x], rule exI [of _ "[]"]) simp

section \<open>The reactions of the two sides\<close>

definition unsynced :: "('w, 'c) peer \<Rightarrow> nat" where
  "unsynced t = (if ps_remote_synced (peer_state t) then 0 else 1)"

text \<open>How far the exchange is.\<close>

datatype phase = Hello | WantUpgrade | GotUpgrade | WantBlock nat | GotBlock nat | Complete

locale exchange =
  fixes A :: "('w, 'c, 'e) side" and B :: "('v, 'd, 'g) side" and QA :: "'c \<Rightarrow> bool" and QB :: "'d \<Rightarrow> bool"
    and G :: "Proof set" and n :: nat and f :: u64 and val :: "nat \<Rightarrow> bytes" and checks :: bool
  assumes takesA: "queue_takes (s_env A) (s_sent A)" and takesB: "queue_takes (s_env B) (s_sent B)"
    and originA: "origin (s_core A) QA G n f val" and copiesB: "copies (s_core B) QB G n f val"
    and n: "0 < n" "n < 2 ^ 64"
begin

lemma idle: "queue_takes E sent \<Longrightarrow> replica E sent K (\<lambda>_. False) {}"
  by (intro replica.intro) (simp_all add: core_cooperates_def)

lemmas sends_batch = replica.send_batch_takes [OF idle]
lemmas answers = replica.on_request_run [OF idle [OF takesA]]

lemma copy_replica: "replica (s_env B) (s_sent B) (s_core B) (holds (s_core B) QB val k) {}"
  by (intro replica.intro takesB copies_cooperates [OF copiesB])

lemma origin_info:
  assumes "QA c"
  shows "info_length (hc_info (s_core A) c) = of_nat n" and "info_fork (hc_info (s_core A) c) = f"
  using originA assms by (simp_all add: origin_def)

lemma origin_quiet:
  assumes "alive QA (s_channel A) t" and "quiet_to_origin n m"
  shows "\<exists>out t'. reacts checks A m t out t' \<and> alive QA (s_channel A) t' \<and>
    list_all (quiet_to_copy n) out \<and> length out + unsynced t' \<le> unsynced t"
proof (cases m)
  case (Synchronize y)
  have al: "QA (peer_core t)" "\<not> closed (s_channel A) (peer_sys t)" using assms(1) by (simp_all add: alive_def)
  have "\<not> of_nat n < sync_length y" using assms(2) Synchronize by (simp add: not_less)
  then obtain ps out where
    run: "on_synchronize (s_env A) (s_core A) (s_channel A) y t =
      io_call (send_batch (s_env A) (s_channel A) out) (t\<lparr>peer_state := ps\<rparr>)"
    and ps: "ps_remote_synced ps"
    and out: "list_all (quiet_to_copy n) out" "length out = unsynced t"
    using origin_info [OF al(1)]
    by (cases "ps_remote_synced (peer_state t)") (auto simp: on_synchronize_def Let_def unsynced_def)
  have op: "\<not> closed (s_channel A) (peer_sys (t\<lparr>peer_state := ps\<rparr>))" using al(2) by simp
  obtain s' where "(io_call (send_batch (s_env A) (s_channel A) out) :: ('w, 'c, 'e, unit) task)
      (t\<lparr>peer_state := ps\<rparr>) = (Ok (), t\<lparr>peer_state := ps\<rparr>\<lparr>peer_sys := s'\<rparr>)" "\<not> closed (s_channel A) s'"
    "s_sent A (world s') = s_sent A (world (peer_sys (t\<lparr>peer_state := ps\<rparr>))) @
      [map (ChannelMessage_new (of_nat (ch_local_id (s_channel A)))) out]"
    by (rule sends_batch [OF takesA op])
  with run ps out al(1) Synchronize show ?thesis
    by (intro exI [of _ out] exI [of _ "t\<lparr>peer_state := ps\<rparr>\<lparr>peer_sys := s'\<rparr>"])
      (auto simp: reacts_def onmessage_def alive_def unsynced_def intro!: sends_one)
qed (use assms sends_none in \<open>auto simp: reacts_def onmessage_def ret_task_def\<close>)

lemma origin_answers:
  assumes "alive QA (s_channel A) t"
    and "hc_create_proof (s_core A) (req_block r) (req_hash r) (req_seek r) (req_upgrade r) (peer_core t) =
      (Inr (Some p), c)" and "QA c" and "proof_fork p = f"
  obtains d t' where "reacts checks A (Request r) t [Data d] t'" and "alive QA (s_channel A) t'"
    and "unsynced t' = unsynced t" and "into_proof d = p"
proof -
  have op: "\<not> closed (s_channel A) (peer_sys t)" using assms(1) by (simp add: alive_def)
  have fork: "proof_fork p = info_fork (hc_info (s_core A) c)" using origin_info(2) [OF assms(3)] assms(4) by simp
  obtain d s' where d: "on_request (s_env A) (s_core A) (s_channel A) r t =
      (Ok (), t\<lparr>peer_core := c, peer_sys := s'\<rparr>)"
    "s_sent A (world s') = s_sent A (world (peer_sys t)) @
      [[ChannelMessage_new (of_nat (ch_local_id (s_channel A))) (Data d)]]"
    "into_proof d = p" "\<not> closed (s_channel A) s'"
    by (rule answers [OF op assms(2) fork])
  have "sends A t [Data d] (t\<lparr>peer_core := c, peer_sys := s'\<rparr>)" by (rule sends_one) (simp add: d(2))
  with d assms(3) that [of d "t\<lparr>peer_core := c, peer_sys := s'\<rparr>"] show ?thesis
    by (simp add: reacts_def onmessage_def alive_def unsynced_def)
qed

lemma origin_upgrade:
  assumes "alive QA (s_channel A) t" and "asks_upgrade n m"
  shows "\<exists>d t'. reacts checks A m t [d] t' \<and> alive QA (s_channel A) t' \<and> unsynced t' = unsynced t \<and>
    gives_upgrade G n f d"
proof -
  obtain r where m: "m = Request r" "req_block r = None" "req_hash r = None" "req_seek r = None"
    "req_upgrade r = Some \<lparr>ru_start = 0, ru_length = of_nat n\<rparr>"
    using assms(2) by (cases m) auto
  obtain p c where p: "hc_create_proof (s_core A) (req_block r) (req_hash r) (req_seek r) (req_upgrade r)
      (peer_core t) = (Inr (Some p), c)" "QA c" "p \<in> G" "upgrade_proof n f p"
    using originA assms(1) unfolding origin_def alive_def m by blast
  have "proof_fork p = f" using p(4) by (simp add: upgrade_proof_def)
  from origin_answers [OF assms(1) p(1,2) this] p(3,4) m(1) show ?thesis by (metis gives_upgrade.simps(1))
qed

lemma origin_block:
  assumes "alive QA (s_channel A) t" and "asks_block j m" and "j < n"
  shows "\<exists>d t'. reacts checks A m t [d] t' \<and> alive QA (s_channel A) t' \<and> unsynced t' = unsynced t \<and>
    gives_block G f val j d"
proof -
  obtain r k where m: "m = Request r" "req_block r = Some \<lparr>rb_index = of_nat j, rb_nodes = k\<rparr>"
    "req_hash r = None" "req_seek r = None" "req_upgrade r = None"
    using assms(2) by (cases m) auto
  obtain p c where p: "hc_create_proof (s_core A) (req_block r) (req_hash r) (req_seek r) (req_upgrade r)
      (peer_core t) = (Inr (Some p), c)" "QA c" "p \<in> G" "block_proof f j (val j) p"
    using originA assms(1,3) unfolding origin_def alive_def m by blast
  have "proof_fork p = f" using p(4) by (simp add: block_proof_def)
  from origin_answers [OF assms(1) p(1,2) this] p(3,4) m(1) show ?thesis by (metis gives_block.simps(1))
qed

text \<open>The copying side: its channel is open, the remote's length is known, and its core holds the first
  \<open>k\<close> blocks of a log of length \<open>len\<close>.\<close>

definition copying :: "nat \<Rightarrow> u64 \<Rightarrow> ('v, 'd) peer \<Rightarrow> bool" where
  "copying k len t \<longleftrightarrow> alive (holds (s_core B) QB val k) (s_channel B) t \<and>
     info_length (hc_info (s_core B) (peer_core t)) = len \<and>
     ps_remote_length (peer_state t) = of_nat n \<and> ps_remote_synced (peer_state t)"

lemma copy_hello:
  assumes "alive QB (s_channel B) t" and "info_length (hc_info (s_core B) (peer_core t)) = 0"
    and "ps_remote_length (peer_state t) = 0" and "\<not> ps_remote_synced (peer_state t)" and "hello n f m"
  shows "\<exists>y r t'. reacts checks B m t [y, r] t' \<and> copying 0 0 t' \<and> quiet_to_origin n y \<and> asks_upgrade n r"
proof -
  obtain y where m: "m = Synchronize y" "sync_length y = of_nat n" "sync_fork y = f" "sync_remote_length y = 0"
    using assms(5) by (cases m) auto
  have al: "QB (peer_core t)" "\<not> closed (s_channel B) (peer_sys t)" using assms(1) by (simp_all add: alive_def)
  have fork: "info_fork (hc_info (s_core B) (peer_core t)) = f" using copiesB al(1) by (simp add: copies_def)
  have nz: "(of_nat n :: u64) > 0" "(of_nat n :: u64) \<noteq> 0"
    using n unat_of_nat_u64 [of n] by (auto simp: word_less_nat_alt)
  obtain ps y' r where
    run: "on_synchronize (s_env B) (s_core B) (s_channel B) y t =
      io_call (send_batch (s_env B) (s_channel B) [y', r]) (t\<lparr>peer_state := ps\<rparr>)"
    and ps: "ps_remote_synced ps" "ps_remote_length ps = of_nat n"
    and out: "quiet_to_origin n y'" "asks_upgrade n r"
    using assms(2-4) m nz fork by (auto simp: on_synchronize_def Let_def)
  have op: "\<not> closed (s_channel B) (peer_sys (t\<lparr>peer_state := ps\<rparr>))" using al(2) by simp
  obtain s' where s': "(io_call (send_batch (s_env B) (s_channel B) [y', r]) :: ('v, 'd, 'g, unit) task)
      (t\<lparr>peer_state := ps\<rparr>) = (Ok (), t\<lparr>peer_state := ps\<rparr>\<lparr>peer_sys := s'\<rparr>)" "\<not> closed (s_channel B) s'"
    "s_sent B (world s') = s_sent B (world (peer_sys (t\<lparr>peer_state := ps\<rparr>))) @
      [map (ChannelMessage_new (of_nat (ch_local_id (s_channel B)))) [y', r]]"
    by (rule sends_batch [OF takesB op])
  have "sends B t [y', r] (t\<lparr>peer_state := ps\<rparr>\<lparr>peer_sys := s'\<rparr>)" by (rule sends_one) (simp add: s'(3))
  with run ps out al(1) s'(1,2) m(1) assms(2) show ?thesis
    by (intro exI [of _ y'] exI [of _ r] exI [of _ "t\<lparr>peer_state := ps\<rparr>\<lparr>peer_sys := s'\<rparr>"])
      (simp add: reacts_def onmessage_def alive_def copying_def holds_def)
qed

lemma copy_quiet:
  assumes "copying k len t" and "quiet_to_copy n m"
  shows "\<exists>t'. reacts checks B m t [] t' \<and> copying k len t'"
proof (cases m)
  case (Synchronize y)
  have op: "\<not> closed (s_channel B) (peer_sys t)" using assms(1) by (simp add: copying_def alive_def)
  obtain ps where
    run: "on_synchronize (s_env B) (s_core B) (s_channel B) y t =
      io_call (send_batch (s_env B) (s_channel B) []) (t\<lparr>peer_state := ps\<rparr>)"
    and ps: "ps_remote_synced ps" "ps_remote_length ps = of_nat n"
    using assms Synchronize by (auto simp: on_synchronize_def Let_def copying_def)
  have op: "\<not> closed (s_channel B) (peer_sys (t\<lparr>peer_state := ps\<rparr>))" using op by simp
  obtain s' where s': "(io_call (send_batch (s_env B) (s_channel B) []) :: ('v, 'd, 'g, unit) task)
      (t\<lparr>peer_state := ps\<rparr>) = (Ok (), t\<lparr>peer_state := ps\<rparr>\<lparr>peer_sys := s'\<rparr>)" "\<not> closed (s_channel B) s'"
    "s_sent B (world s') = s_sent B (world (peer_sys (t\<lparr>peer_state := ps\<rparr>))) @
      [map (ChannelMessage_new (of_nat (ch_local_id (s_channel B)))) []]"
    by (rule sends_batch [OF takesB op])
  have "sends B t [] (t\<lparr>peer_state := ps\<rparr>\<lparr>peer_sys := s'\<rparr>)" by (rule sends_one) (simp add: s'(3))
  with run ps s'(1,2) assms(1) Synchronize show ?thesis
    by (intro exI [of _ "t\<lparr>peer_state := ps\<rparr>\<lparr>peer_sys := s'\<rparr>"])
      (simp add: reacts_def onmessage_def alive_def copying_def)
qed (use assms sends_none in \<open>auto simp: reacts_def onmessage_def ret_task_def\<close>)

lemma copy_data:
  assumes c: "copying k len t" and v: "hc_verify_and_apply_proof (s_core B) (into_proof d) (peer_core t) = (Inr x, c1)"
    and h: "holds (s_core B) QB val k' c1" and len: "info_length (hc_info (s_core B) c1) = of_nat n"
    and nr: "\<And>info. quietly (steady (s_core B) (holds (s_core B) QB val k') info) (peer_state t)
      (next_request checks (s_core B) (hc_info (s_core B) (peer_core t)) d :: ('v, 'd, 'g, RequestBlock option) task)
      (\<lambda>rb. map_option rb_index rb = idx)"
    and idx: "\<And>i. idx = Some i \<Longrightarrow> unat i + 1 < 2 ^ 64"
  obtains t' rb msgs where "reacts checks B (Data d) t msgs t'" and "copying k' (of_nat n) t'"
    and "(data_reply checks (peer_state t) (hc_info (s_core B) c1) d rb :: ('g app_error, message list) outcome) = Ok msgs"
    and "map_option rb_index rb = idx"
proof -
  have op: "\<not> closed (s_channel B) (peer_sys t)" using c by (simp add: copying_def alive_def)
  obtain t' rb msgs where st: "on_data checks (s_env B) (s_core B) (s_channel B) d t = (Ok (), t')"
    "steady (s_core B) (holds (s_core B) QB val k') (hc_info (s_core B) c1) (peer_core t')"
    "\<not> closed (s_channel B) (peer_sys t')" "peer_state t' = peer_state t"
    "s_sent B (world (peer_sys t')) = s_sent B (world (peer_sys t)) @
      [map (ChannelMessage_new (of_nat (ch_local_id (s_channel B)))) msgs]"
    "(data_reply checks (peer_state t) (hc_info (s_core B) c1) d rb :: ('g app_error, message list) outcome) = Ok msgs"
    "map_option rb_index rb = idx"
    by (rule replica.on_data_step [OF copy_replica v h op nr idx])
  have "reacts checks B (Data d) t msgs t'"
    using st(1) sends_one [OF st(5)] by (simp add: reacts_def onmessage_def)
  moreover have "copying k' (of_nat n) t'"
    using c st(2-4) len by (simp add: copying_def alive_def)
  ultimately show ?thesis using st(6,7) that by blast
qed

lemma data_reply_next:
  assumes "unat (rb_index b) + 1 < 2 ^ 64"
    and "(data_reply checks ps new d (Some b) :: ('g app_error, message list) outcome) = Ok msgs"
  shows "\<exists>a r. msgs = a @ [r] \<and> asks_block (unat (rb_index b)) r \<and>
      (case data_upgrade d of None \<Rightarrow> a = [] | Some u \<Rightarrow> \<exists>y. a = [Synchronize y] \<and> sync_length y = du_length u)"
proof -
  have "\<exists>k. b = \<lparr>rb_index = rb_index b, rb_nodes = k\<rparr>" by (rule exI [of _ "rb_nodes b"]) simp
  with assms(2) show ?thesis
    by (cases "data_upgrade d") (auto simp: data_reply_def add_u64_Ok [OF assms(1)])
qed

lemma copy_upgrade:
  assumes c: "copying 0 0 t" and m: "gives_upgrade G n f m"
  shows "\<exists>y r t'. reacts checks B m t [y, r] t' \<and> copying 0 (of_nat n) t' \<and> quiet_to_origin n y \<and> asks_block 0 r"
proof -
  obtain d u where d: "m = Data d" "into_proof d \<in> G" "upgrade_proof n f (into_proof d)"
    "data_upgrade d = Some u" "du_length u = of_nat n"
    using m by (cases m) (auto simp: upgrade_proof_def into_proof_def)
  have Q: "QB (peer_core t)" using c by (simp add: copying_def alive_def holds_def)
  obtain x c1 where v: "hc_verify_and_apply_proof (s_core B) (into_proof d) (peer_core t) = (Inr x, c1)"
    and c1: "QB c1" "info_length (hc_info (s_core B) c1) = of_nat n"
    using copiesB Q d(2,3) unfolding copies_def by blast
  have h: "holds (s_core B) QB val 0 c1" using c1(1) by (simp add: holds_def)
  have len0: "info_length (hc_info (s_core B) (peer_core t)) = 0" using c by (simp add: copying_def)
  have less: "info_length (hc_info (s_core B) (peer_core t)) < du_length u"
    using len0 d(5) n unat_of_nat_u64 [of n] by (simp add: word_less_nat_alt)
  obtain t' rb msgs where r: "reacts checks B (Data d) t msgs t'" "copying 0 (of_nat n) t'"
    "(data_reply checks (peer_state t) (hc_info (s_core B) c1) d rb :: ('g app_error, message list) outcome) = Ok msgs"
    "map_option rb_index rb = Some 0"
    by (rule copy_data [OF c v h c1(2)
          quietly_next_upgrade [OF copies_cooperates [OF copiesB] d(4) less, unfolded len0]]) simp_all
  from r(4) obtain b where b: "rb = Some b" "rb_index b = 0" by auto
  from data_reply_next [of b] r(3) b d(4,5) obtain y q where
    "msgs = [Synchronize y, q]" "asks_block 0 q" "sync_length y = of_nat n"
    by fastforce
  with r(1,2) d(1) show ?thesis
    by (intro exI [of _ "Synchronize y"] exI [of _ q] exI [of _ t']) simp
qed

lemma copy_block:
  assumes c: "copying j (of_nat n) t" and m: "gives_block G f val j m" and j: "j < n"
  shows "if j + 1 < n
    then \<exists>r t'. reacts checks B m t [r] t' \<and> copying (j + 1) (of_nat n) t' \<and> asks_block (j + 1) r
    else \<exists>t'. reacts checks B m t [] t' \<and> copying n (of_nat n) t'"
proof -
  obtain d b where d: "m = Data d" "into_proof d \<in> G" "block_proof f j (val j) (into_proof d)"
    "data_upgrade d = None" "data_block d = Some b" "db_index b = of_nat j"
    using m by (cases m) (auto simp: block_proof_def into_proof_def)
  have Q: "QB (peer_core t)" and len: "info_length (hc_info (s_core B) (peer_core t)) = of_nat n"
    and rl: "ps_remote_length (peer_state t) = of_nat n"
    and old: "\<forall>i < j. has (s_core B) (peer_core t) i (val i)"
    using c by (simp_all add: copying_def alive_def holds_def)
  obtain x c1 where v: "hc_verify_and_apply_proof (s_core B) (into_proof d) (peer_core t) = (Inr x, c1)"
    and c1: "QB c1" "info_length (hc_info (s_core B) c1) = of_nat n"
      "keeps (s_core B) (peer_core t) c1" "has (s_core B) c1 j (val j)"
    using copiesB Q d(2,3) len j unfolding copies_def by blast
  have h: "holds (s_core B) QB val (j + 1) c1"
    using c1 old by (auto simp: holds_def keeps_def less_Suc_eq)
  let ?idx = "if j + 1 < n then Some (of_nat (j + 1)) else None :: u64 option"
  have u: "unat (of_nat (j + 1) :: u64) = j + 1" if "j + 1 < n"
    using that n(2) unat_of_nat_u64 [of "j + 1"] by linarith
  have small: "unat i + 1 < 2 ^ 64" if "?idx = Some i" for i
    using that u n(2) by (auto split: if_splits)
  obtain t' rb msgs where r: "reacts checks B (Data d) t msgs t'" "copying (j + 1) (of_nat n) t'"
    "(data_reply checks (peer_state t) (hc_info (s_core B) c1) d rb :: ('g app_error, message list) outcome) = Ok msgs"
    "map_option rb_index rb = ?idx"
    by (rule copy_data [OF c v h c1(2)
          quietly_next_block [OF copies_cooperates [OF copiesB] d(4,5,6) rl j n(2)] small])
  show ?thesis
  proof (cases "j + 1 < n")
    case True
    with r(4) obtain rb' where b: "rb = Some rb'" "rb_index rb' = of_nat (j + 1)" by auto
    then have ub: "unat (rb_index rb') = j + 1" using u [OF True] by metis
    have "unat (rb_index rb') + 1 < 2 ^ 64" unfolding ub using True n(2) by linarith
    from data_reply_next [OF this] r(3) b(1) ub d(4) obtain q where "msgs = [q]" "asks_block (j + 1) q"
      by fastforce
    with r(1,2) d(1) True show ?thesis by (simp only: if_True) blast
  next
    case False
    with r(4) have "rb = None" by simp
    with r(3) d(4) have "msgs = []" by (simp add: data_reply_def)
    moreover have "j + 1 = n" using False j by simp
    ultimately show ?thesis using r(1,2) d(1) by auto
  qed
qed

text \<open>The message that carries the exchange on, on its way to one side or the other.\<close>

fun origin_token :: "phase \<Rightarrow> (message \<Rightarrow> bool) option" where
  "origin_token WantUpgrade = Some (asks_upgrade n)"
| "origin_token (WantBlock j) = Some (asks_block j)"
| "origin_token _ = None"

fun copy_token :: "phase \<Rightarrow> (message \<Rightarrow> bool) option" where
  "copy_token GotUpgrade = Some (gives_upgrade G n f)"
| "copy_token (GotBlock j) = Some (gives_block G f val j)"
| "copy_token _ = None"

fun copy_at :: "phase \<Rightarrow> ('v, 'd) peer \<Rightarrow> bool" where
  "copy_at Hello t \<longleftrightarrow> alive QB (s_channel B) t \<and> info_length (hc_info (s_core B) (peer_core t)) = 0 \<and>
     ps_remote_length (peer_state t) = 0 \<and> \<not> ps_remote_synced (peer_state t)"
| "copy_at (WantBlock j) t \<longleftrightarrow> j < n \<and> copying j (of_nat n) t"
| "copy_at (GotBlock j) t \<longleftrightarrow> j < n \<and> copying j (of_nat n) t"
| "copy_at Complete t \<longleftrightarrow> copying n (of_nat n) t"
| "copy_at _ t \<longleftrightarrow> copying 0 0 t"

definition exchange_inv :: "phase \<Rightarrow> ('w, 'c, 'v, 'd) net \<Rightarrow> bool" where
  "exchange_inv ph N \<longleftrightarrow> alive QA (s_channel A) (net_origin N) \<and> copy_at ph (net_copy N) \<and>
     carries (quiet_to_origin n) (origin_token ph) (to_origin N) \<and>
     (if ph = Hello then \<exists>m ms. to_copy N = m # ms \<and> hello n f m \<and> list_all (quiet_to_copy n) ms
      else carries (quiet_to_copy n) (copy_token ph) (to_copy N))"

text \<open>A bound on the steps that are left.\<close>

fun left :: "phase \<Rightarrow> nat" where
  "left Hello = 2 * n + 4"
| "left WantUpgrade = 2 * n + 2"
| "left GotUpgrade = 2 * n + 1"
| "left (WantBlock j) = 2 * (n - j) - 1"
| "left (GotBlock j) = 2 * (n - j) - 2"
| "left Complete = 0"

definition energy :: "phase \<Rightarrow> ('w, 'c, 'v, 'd) net \<Rightarrow> nat" where
  "energy ph N = length (to_origin N) + length (to_copy N) + unsynced (net_origin N) + left ph"

lemma origin_moves:
  assumes inv: "exchange_inv ph N" and q: "to_origin N = m # ms"
  shows "\<exists>out t ph'. reacts checks A m (net_origin N) out t \<and>
    exchange_inv ph' (N\<lparr>net_origin := t, to_origin := ms, to_copy := to_copy N @ out\<rparr>) \<and>
    energy ph' (N\<lparr>net_origin := t, to_origin := ms, to_copy := to_copy N @ out\<rparr>) < energy ph N"
proof -
  have al: "alive QA (s_channel A) (net_origin N)" using inv by (simp add: exchange_inv_def)
  have "carries (quiet_to_origin n) (origin_token ph) (m # ms)" using inv q by (simp add: exchange_inv_def)
  then show ?thesis
  proof (cases rule: carries_ConsE)
    case quiet
    obtain out t where "reacts checks A m (net_origin N) out t" "alive QA (s_channel A) t"
      "list_all (quiet_to_copy n) out" "length out + unsynced t \<le> unsynced (net_origin N)"
      using origin_quiet [OF al quiet(1)] by blast
    with quiet inv q show ?thesis
      by (intro exI [of _ out] exI [of _ t] exI [of _ ph]) (auto simp: exchange_inv_def energy_def intro: carries_append)
  next
    case token
    show ?thesis
    proof (cases ph)
      case WantUpgrade
      with token obtain d t where "reacts checks A m (net_origin N) [d] t" "alive QA (s_channel A) t"
        "unsynced t = unsynced (net_origin N)" "gives_upgrade G n f d"
        using origin_upgrade [OF al, of m] by auto
      with token WantUpgrade inv q show ?thesis
        by (intro exI [of _ "[d]"] exI [of _ t] exI [of _ GotUpgrade])
          (auto simp: exchange_inv_def energy_def simp del: carries.simps(2) intro: carries_put [of _ _ "[]", simplified])
    next
      case (WantBlock j)
      have "asks_block j m" "j < n" using token WantBlock inv by (auto simp: exchange_inv_def)
      then obtain d t where "reacts checks A m (net_origin N) [d] t" "alive QA (s_channel A) t"
        "unsynced t = unsynced (net_origin N)" "gives_block G f val j d"
        using origin_block [OF al] by blast
      with token WantBlock inv q \<open>j < n\<close> show ?thesis
        by (intro exI [of _ "[d]"] exI [of _ t] exI [of _ "GotBlock j"])
          (auto simp: exchange_inv_def energy_def simp del: carries.simps(2) intro: carries_put [of _ _ "[]", simplified])
    qed (use token in simp_all)
  qed
qed

lemma copy_moves:
  assumes inv: "exchange_inv ph N" and q: "to_copy N = m # ms"
  shows "\<exists>out t ph'. reacts checks B m (net_copy N) out t \<and>
    exchange_inv ph' (N\<lparr>net_copy := t, to_copy := ms, to_origin := to_origin N @ out\<rparr>) \<and>
    energy ph' (N\<lparr>net_copy := t, to_copy := ms, to_origin := to_origin N @ out\<rparr>) < energy ph N"
proof -
  have at: "copy_at ph (net_copy N)" using inv by (simp add: exchange_inv_def)
  show ?thesis
  proof (cases "ph = Hello")
    case True
    with inv q have "hello n f m" "list_all (quiet_to_copy n) ms" by (auto simp: exchange_inv_def)
    moreover obtain y r t where "reacts checks B m (net_copy N) [y, r] t" "copying 0 0 t"
      "quiet_to_origin n y" "asks_upgrade n r"
      using copy_hello [of "net_copy N" m] \<open>hello n f m\<close> at True by auto
    ultimately show ?thesis
      using True inv q carries_put [of "quiet_to_origin n" "to_origin N" "[y]" "asks_upgrade n" r]
      by (intro exI [of _ "[y, r]"] exI [of _ t] exI [of _ WantUpgrade])
        (auto simp: exchange_inv_def energy_def simp del: carries.simps(2))
  next
    case False
    then have "carries (quiet_to_copy n) (copy_token ph) (m # ms)" using inv q by (simp add: exchange_inv_def)
    then show ?thesis
    proof (cases rule: carries_ConsE)
      case quiet
      have "\<exists>k len. copying k len (net_copy N) \<and> (\<forall>t. copying k len t \<longrightarrow> copy_at ph t)"
        using at False by (cases ph) auto
      then obtain t where "reacts checks B m (net_copy N) [] t" "copy_at ph t"
        using copy_quiet [OF _ quiet(1)] by blast
      with quiet inv q False show ?thesis
        by (intro exI [of _ "[]"] exI [of _ t] exI [of _ ph]) (auto simp: exchange_inv_def energy_def)
    next
      case token
      show ?thesis
      proof (cases ph)
        case GotUpgrade
        with token at obtain y r t where "reacts checks B m (net_copy N) [y, r] t" "copying 0 (of_nat n) t"
          "quiet_to_origin n y" "asks_block 0 r"
          using copy_upgrade [of "net_copy N" m] by auto
        with token GotUpgrade inv q n(1) carries_put [of "quiet_to_origin n" "to_origin N" "[y]" "asks_block 0" r]
        show ?thesis
          by (intro exI [of _ "[y, r]"] exI [of _ t] exI [of _ "WantBlock 0"])
            (auto simp: exchange_inv_def energy_def simp del: carries.simps(2))
      next
        case (GotBlock j)
        have m: "gives_block G f val j m" and j: "j < n" "copying j (of_nat n) (net_copy N)"
          using token GotBlock at by auto
        show ?thesis
        proof (cases "j + 1 < n")
          case True
          then obtain r t where "reacts checks B m (net_copy N) [r] t" "copying (j + 1) (of_nat n) t"
            "asks_block (j + 1) r"
            using copy_block [OF j(2) m j(1)] by auto
          with token GotBlock inv q True carries_put [of "quiet_to_origin n" "to_origin N" "[]" "asks_block (j + 1)" r]
          show ?thesis
            by (intro exI [of _ "[r]"] exI [of _ t] exI [of _ "WantBlock (j + 1)"])
              (auto simp: exchange_inv_def energy_def simp del: carries.simps(2))
        next
          case False
          then obtain t where "reacts checks B m (net_copy N) [] t" "copying n (of_nat n) t"
            using copy_block [OF j(2) m j(1)] by auto
          with token GotBlock inv q show ?thesis
            by (intro exI [of _ "[]"] exI [of _ t] exI [of _ Complete]) (auto simp: exchange_inv_def energy_def)
        qed
      qed (use token in simp_all)
    qed
  qed
qed

lemma step_inv:
  assumes "net_step checks A B N N'" and "exchange_inv ph N"
  shows "\<exists>ph'. exchange_inv ph' N' \<and> energy ph' N' < energy ph N"
  using assms(1)
proof cases
  case (origin_step m ms out t)
  from origin_moves [OF assms(2) origin_step(2)] reacts_det [OF origin_step(3)] origin_step(1) show ?thesis by metis
next
  case (copy_step m ms out t)
  from copy_moves [OF assms(2) copy_step(2)] reacts_det [OF copy_step(3)] copy_step(1) show ?thesis by metis
qed

lemma steps_inv:
  "(net_step checks A B ^^ k) N N' \<Longrightarrow> exchange_inv ph N \<Longrightarrow> \<exists>ph'. exchange_inv ph' N' \<and> k + energy ph' N' \<le> energy ph N"
proof (induction k arbitrary: N')
  case (Suc k)
  then obtain N1 where N1: "(net_step checks A B ^^ k) N N1" "net_step checks A B N1 N'" by auto
  obtain ph1 where ph1: "exchange_inv ph1 N1" "k + energy ph1 N1 \<le> energy ph N" using Suc.IH [OF N1(1) Suc.prems(2)] by blast
  from step_inv [OF N1(2) ph1(1)] ph1(2) show ?case by force
qed auto

lemma progress:
  assumes "exchange_inv ph N"
  shows "(\<exists>N'. net_step checks A B N N') \<or>
    (\<forall>i < n. has (s_core B) (peer_core (net_copy N)) i (val i))"
proof (cases "to_origin N")
  case (Cons m ms)
  with origin_moves [OF assms Cons] show ?thesis by (metis net_step.origin_step)
next
  case origin_empty: Nil
  show ?thesis
  proof (cases "to_copy N")
    case (Cons m ms)
    with copy_moves [OF assms Cons] show ?thesis by (metis net_step.copy_step)
  next
    case Nil
    with origin_empty assms have "copying n (of_nat n) (net_copy N)"
      by (cases ph) (auto simp: exchange_inv_def)
    then show ?thesis by (simp add: copying_def alive_def holds_def)
  qed
qed

lemma side_starts:
  fixes S :: "('x, 'y, 'z) side"
  assumes takes: "queue_takes (s_env S) (s_sent S)" and op: "\<not> closed (s_channel S) s"
  obtains y ms t where "starts S c s (Synchronize y # ms) t" and "peer_core t = c"
    and "\<not> closed (s_channel S) (peer_sys t)" and "ps_remote_length (peer_state t) = 0"
    and "\<not> ps_remote_synced (peer_state t)" and "sync_length y = info_length (hc_info (s_core S) c)"
    and "sync_fork y = info_fork (hc_info (s_core S) c)" and "sync_remote_length y = 0"
    and "ms = [] \<or> (\<exists>r. ms = [Range_msg r])"
proof -
  let ?info = "hc_info (s_core S) c"
  let ?t0 = "\<lparr>peer_state = PeerState_default, peer_core = c, peer_sys = s\<rparr>"
  define ps where "ps = (if info_fork ?info \<noteq> 0 then PeerState_default\<lparr>ps_can_upgrade := False\<rparr> else PeerState_default)"
  define y where "y = \<lparr>sync_fork = info_fork ?info, sync_length = info_length ?info, sync_remote_length = 0,
    sync_downloading = True, sync_uploading = True, sync_can_upgrade = ps_can_upgrade ps\<rparr>"
  define ms where "ms = (if info_contiguous_length ?info > 0 then [Range_msg \<lparr>range_drop = False,
    range_start = 0, range_length = info_contiguous_length ?info\<rparr>] else [])"
  define t where "t = \<lparr>peer_state = ps, peer_core = c, peer_sys = s\<rparr>"
  have run: "onpeer_start (s_env S) (s_core S) (s_channel S) ?t0 =
      unwrap_task (io_call (send_batch (s_env S) (s_channel S) (Synchronize y # ms))) t"
    by (auto simp: onpeer_start_def Let_def t_def ps_def y_def ms_def PeerState_default_def unwrap_task_def
        io_call_def send_def send_batch_def)
  have op': "\<not> closed (s_channel S) (peer_sys t)" using op by (simp add: t_def)
  obtain s' where s': "(io_call (send_batch (s_env S) (s_channel S) (Synchronize y # ms)) :: ('x, 'y, 'z, unit) task) t =
      (Ok (), t\<lparr>peer_sys := s'\<rparr>)" "\<not> closed (s_channel S) s'"
    "s_sent S (world s') = s_sent S (world (peer_sys t)) @
      [map (ChannelMessage_new (of_nat (ch_local_id (s_channel S)))) (Synchronize y # ms)]"
    by (rule sends_batch [OF takes op'])
  have "sends S ?t0 (Synchronize y # ms) (t\<lparr>peer_sys := s'\<rparr>)"
    by (rule sends_one [where i = "of_nat (ch_local_id (s_channel S))"]) (use s'(3) in \<open>simp add: t_def\<close>)
  moreover have "onpeer_start (s_env S) (s_core S) (s_channel S) ?t0 = (Ok (), t\<lparr>peer_sys := s'\<rparr>)"
    using run s'(1) by (simp add: unwrap_task_def)
  ultimately have "starts S c s (Synchronize y # ms) (t\<lparr>peer_sys := s'\<rparr>)" by (simp add: starts_def)
  then show ?thesis
    by (rule that) (use s'(2) in \<open>simp_all add: PeerState_default_def ms_def ps_def y_def t_def\<close>)
qed

lemma exchange_starts:
  assumes "QA ca" and "\<not> closed (s_channel A) sa" and "QB cb" and "\<not> closed (s_channel B) sb"
    and "info_length (hc_info (s_core B) cb) = 0"
  obtains ma ta mb tb where "starts A ca sa ma ta" and "starts B cb sb mb tb"
    and "exchange_inv Hello \<lparr>net_origin = ta, net_copy = tb, to_origin = mb, to_copy = ma\<rparr>"
    and "energy Hello \<lparr>net_origin = ta, net_copy = tb, to_origin = mb, to_copy = ma\<rparr> \<le> 2 * n + 9"
proof -
  obtain ya la ta where a: "starts A ca sa (Synchronize ya # la) ta" "peer_core ta = ca"
    "\<not> closed (s_channel A) (peer_sys ta)" "sync_length ya = info_length (hc_info (s_core A) ca)"
    "sync_fork ya = info_fork (hc_info (s_core A) ca)" "sync_remote_length ya = 0"
    "la = [] \<or> (\<exists>r. la = [Range_msg r])"
    by (rule side_starts [OF takesA assms(2)])
  obtain yb lb tb where b: "starts B cb sb (Synchronize yb # lb) tb" "peer_core tb = cb"
    "\<not> closed (s_channel B) (peer_sys tb)" "ps_remote_length (peer_state tb) = 0"
    "\<not> ps_remote_synced (peer_state tb)" "sync_length yb = info_length (hc_info (s_core B) cb)"
    "lb = [] \<or> (\<exists>r. lb = [Range_msg r])"
    by (rule side_starts [OF takesB assms(4)])
  let ?N = "\<lparr>net_origin = ta, net_copy = tb, to_origin = Synchronize yb # lb, to_copy = Synchronize ya # la\<rparr>"
  have "exchange_inv Hello ?N"
    using a b assms(1,3,5) origin_info [OF assms(1)] by (auto simp: exchange_inv_def alive_def)
  moreover have "energy Hello ?N \<le> 2 * n + 9" using a(7) b(7) by (auto simp: energy_def unsynced_def)
  ultimately show ?thesis using that a(1) b(1) by blast
qed

lemma replication_completes_run:
  assumes "QA ca" and "\<not> closed (s_channel A) sa" and "QB cb" and "\<not> closed (s_channel B) sb"
    and "info_length (hc_info (s_core B) cb) = 0"
  shows "\<exists>ma ta mb tb. starts A ca sa ma ta \<and> starts B cb sb mb tb \<and>
    (\<forall>k N. (net_step checks A B ^^ k) \<lparr>net_origin = ta, net_copy = tb, to_origin = mb, to_copy = ma\<rparr> N \<longrightarrow>
       k \<le> 2 * n + 9 \<and> ((\<exists>N'. net_step checks A B N N') \<or>
         (\<forall>i < n. has (s_core B) (peer_core (net_copy N)) i (val i))))"
proof -
  obtain ma ta mb tb where st: "starts A ca sa ma ta" "starts B cb sb mb tb"
    and inv: "exchange_inv Hello \<lparr>net_origin = ta, net_copy = tb, to_origin = mb, to_copy = ma\<rparr>"
    and en: "energy Hello \<lparr>net_origin = ta, net_copy = tb, to_origin = mb, to_copy = ma\<rparr> \<le> 2 * n + 9"
    by (rule exchange_starts [OF assms])
  have "k \<le> 2 * n + 9 \<and> ((\<exists>N'. net_step checks A B N N') \<or>
      (\<forall>i < n. has (s_core B) (peer_core (net_copy N)) i (val i)))"
    if run: "(net_step checks A B ^^ k) \<lparr>net_origin = ta, net_copy = tb, to_origin = mb, to_copy = ma\<rparr> N" for k N
  proof -
    obtain ph where ph: "exchange_inv ph N"
      "k + energy ph N \<le> energy Hello \<lparr>net_origin = ta, net_copy = tb, to_origin = mb, to_copy = ma\<rparr>"
      using steps_inv [OF run inv] by blast
    from progress [OF ph(1)] ph(2) en show ?thesis by auto
  qed
  with st show ?thesis by blast
qed

end

end
