(* ===== verification/History.thy ===== *)
theory History
  imports Protocol
begin

text \<open>
  Histories of a protocol as its application makes them: calls of \<open>poll_next\<close>, and between them
  whatever other tasks do to the connection, the queues and the shared flags. A history records the
  answers of the polls; it ends where a poll panics. What holds in every history is shown through the
  atomic steps each poll consists of.
\<close>

section \<open>Calls of \<open>poll_next\<close>\<close>

inductive history ::
  "compact \<Rightarrow> crypto \<Rightarrow> 'w env \<Rightarrow> 'w pstate \<Rightarrow> (io_error, Event poll) outcome list \<Rightarrow> 'w pstate \<Rightarrow> bool"
  for C H E st0
where
  history_Nil: "history C H E st0 [] st0"
| history_poll: "history C H E st0 rs st \<Longrightarrow> poll_next C H E st = Some (r, st') \<Longrightarrow> r \<noteq> Panic \<Longrightarrow>
    history C H E st0 (rs @ [r]) st'"
| history_tasks: "history C H E st0 rs (p, s) \<Longrightarrow> cells_le s s' \<Longrightarrow> history C H E st0 rs (p, s')"

text \<open>The events among the answers.\<close>

fun event_of :: "(io_error, Event poll) outcome \<Rightarrow> Event list" where
  "event_of (Ok (Ready ev)) = [ev]"
| "event_of _ = []"

definition events :: "(io_error, Event poll) outcome list \<Rightarrow> Event list" where
  "events rs = concat (map event_of rs)"

fun is_handshake_event :: "Event \<Rightarrow> bool" where
  "is_handshake_event (Event_Handshake _) = True"
| "is_handshake_event _ = False"

section \<open>Histories are runs\<close>

fun label_event :: "label \<Rightarrow> Event list" where
  "label_event (Emitted ev) = [ev]"
| "label_event _ = []"

definition label_events :: "label list \<Rightarrow> Event list" where
  "label_events tr = concat (map label_event tr)"

lemma label_events_append [simp]: "label_events (tr @ tr') = label_events tr @ label_events tr'"
  by (simp add: label_events_def)

lemma label_events_quiet: "list_all quiet_label tr \<Longrightarrow> label_events tr = []"
proof (induction tr)
  case (Cons l tr)
  then show ?case by (cases l) (simp_all add: label_events_def)
qed (simp add: label_events_def)

lemma label_events_Emitted: "ev \<in> set (label_events tr) \<longleftrightarrow> Emitted ev \<in> set tr"
proof -
  have "ev \<in> set (label_event l) \<longleftrightarrow> l = Emitted ev" for l by (cases l) auto
  then show ?thesis by (auto simp: label_events_def)
qed

lemma label_events_handshakes:
  "length (filter is_handshake_event (label_events tr)) = length (filter is_handshake tr)"
proof (induction tr)
  case (Cons l tr)
  have "is_handshake_event ev = is_handshake (Emitted ev)" for ev by (cases ev) simp_all
  with Cons show ?case by (cases l) (simp_all add: label_events_def)
qed (simp add: label_events_def)

context crypto_lib
begin

lemma history_run:
  assumes "history C H E (Protocol_new E w, s) rs st" and out: "outbound_ok E"
  shows "\<exists>tr. run H E (Protocol_new E w, s) tr st \<and> label_events tr = events rs"
  using assms(1)
proof (induction rule: history.induct)
  case history_Nil
  show ?case by (intro exI [of _ "[]"]) (simp add: run_Nil label_events_def events_def)
next
  case (history_poll rs st r st')
  then obtain tr where tr: "run H E (Protocol_new E w, s) tr st" "label_events tr = events rs" by blast
  have "poll_run H E st (r, st')"
    by (rule poll_next_run [OF history_poll.hyps(2) run_inv [OF tr(1) proto_inv_new] out])
  from poll_run_trace [OF this history_poll.hyps(3)] obtain tr' where q: "list_all quiet_label tr'"
    and r: "case r of Ok (Ready ev) \<Rightarrow> run H E st (tr' @ [Emitted ev]) st' | _ \<Rightarrow> run H E st tr' st'" by blast
  show ?case
  proof (cases "\<exists>ev. r = Ok (Ready ev)")
    case True
    then obtain ev where ev: "r = Ok (Ready ev)" by blast
    with r run_append [OF _ tr(1)] have "run H E (Protocol_new E w, s) (tr @ tr' @ [Emitted ev]) st'" by simp
    with tr(2) label_events_quiet [OF q] ev show ?thesis
      by (intro exI [of _ "tr @ tr' @ [Emitted ev]"]) (simp add: events_def label_events_def)
  next
    case False
    then have "event_of r = []" "run H E st tr' st'"
      using r by (auto split: outcome.splits poll.splits)
    with run_append [OF _ tr(1)] tr(2) label_events_quiet [OF q] show ?thesis
      by (intro exI [of _ "tr @ tr'"]) (simp add: events_def)
  qed
next
  case (history_tasks rs p s1 s2)
  then obtain tr where "run H E (Protocol_new E w, s) tr (p, s1)" "label_events tr = events rs" by blast
  with run_snoc [OF _ p_env [of Idle]] history_tasks.hyps(2) show ?case
    by (intro exI [of _ "tr @ [Idle]"]) (simp add: label_events_def)
qed

lemma history_inv:
  assumes "history C H E (Protocol_new E w, s) rs st" and "outbound_ok E"
  shows "proto_inv H st"
proof -
  obtain tr where "run H E (Protocol_new E w, s) tr st" using history_run [OF assms] by blast
  then show ?thesis by (rule run_inv) (rule proto_inv_new)
qed

lemma history_handshake:
  assumes "history C H E (Protocol_new E w, s) rs st" and "outbound_ok E"
  shows "length (filter is_handshake_event (events rs)) = (if handshake_emitted (fst st) then 1 else 0)"
proof -
  obtain tr where "run H E (Protocol_new E w, s) tr st" "label_events tr = events rs"
    using history_run [OF assms] by blast
  with handshake_once label_events_handshakes [of tr] show ?thesis by metis
qed

end

section \<open>Discovery keys\<close>

text \<open>The discovery keys of an event are \<open>[u8; 32]\<close>, and a channel's is the one of its key.\<close>

fun event_ok :: "crypto \<Rightarrow> Event \<Rightarrow> bool" where
  "event_ok H (Event_Handshake _) = True"
| "event_ok H (Event_DiscoveryKey dk) = (length dk = 32)"
| "event_ok H (Event_Channel ch) =
     (length (ch_discovery_key ch) = 32 \<and> discovery_key H (ch_key ch) = Ok (ch_discovery_key ch))"
| "event_ok H (Event_Close dk) = (length dk = 32)"
| "event_ok H (Event_LocalSignal _ _) = True"

lemma internal_event_ok: "internal_event ev \<Longrightarrow> event_ok H ev"
  by (cases ev) simp_all

lemma accepted_event_ok:
  assumes inv: "cm_inv H (m, s)" and acc: "accept E lid m s = Ok (ch, m', s')"
  shows "event_ok H (Event_Channel ch)"
proof -
  obtain k h c and ls :: LocalState where k: "channels m k = Some h" "h_local_state h = Some ls"
    and ch: "ch = Channel_new (Some c) c (h_discovery_key h) (ls_key ls) (ls_local_id ls) (h_closed h)"
    by (rule accept_OkE [OF acc]) auto
  show ?thesis using cm_inv_handle [OF inv k(1)] k(2) by (simp add: ch Channel_new_def handle_inv_def)
qed

lemma event_ok_step:
  assumes "pstep H E l st st'" and "proto_inv H st" and "list_all (event_ok H) (queued_events (fst st))"
  shows "list_all (event_ok H) (queued_events (fst st'))" and "l = Emitted ev \<Longrightarrow> event_ok H ev"
  using assms by (cases; auto simp: proto_inv_def simp del: event_ok.simps(3) dest: internal_event_ok accepted_event_ok)+

context crypto_lib
begin

lemma run_event_ok:
  assumes "run H E (Protocol_new E w, s) tr st"
  shows "list_all (event_ok H) (queued_events (fst st)) \<and> (\<forall>ev. Emitted ev \<in> set tr \<longrightarrow> event_ok H ev)"
  using assms
proof (induction "(Protocol_new E w, s)" tr st rule: run.induct)
  case (run_snoc tr st1 l st2)
  with event_ok_step [OF run_snoc.hyps(3) run_inv [OF run_snoc.hyps(1) proto_inv_new]] show ?case by auto
qed (simp add: Protocol_new_def)

lemma history_events_ok:
  assumes "history C H E (Protocol_new E w, s) rs (p, s')" and "outbound_ok E"
  shows "list_all (event_ok H) (events rs @ queued_events p)"
proof -
  obtain tr where "run H E (Protocol_new E w, s) tr (p, s')" "label_events tr = events rs"
    using history_run [OF assms] by blast
  with run_event_ok [of E w s tr "(p, s')"] label_events_Emitted [of _ tr] show ?thesis
    by (auto simp: list_all_iff)
qed

end

end
