(* ===== verification/Progress.thy ===== *)
theory Progress
  imports Protocol
begin

text \<open>
  Every poll of the protocol returns, and in an established session it does not panic. A poll runs
  three loops (received frames, commands, messages of the application); each takes an item off a
  queue of the environment in every turn, and nothing else a poll does puts one back.
\<close>

section \<open>An environment with finitely many items ready\<close>

definition env_bounded :: "'w env \<Rightarrow> ('w \<Rightarrow> nat) \<Rightarrow> bool" where
  "env_bounded E backlog \<longleftrightarrow> stream_bounded E backlog \<and>
     (\<forall>w c w'. command_rx_poll E w = (Ready (Some c), w') \<longrightarrow> backlog w' < backlog w) \<and>
     (\<forall>w ms w'. outbound_rx_poll E w = (Ready (Some ms), w') \<longrightarrow> backlog w' < backlog w) \<and>
     (\<forall>w. backlog (snd (sink_poll_ready E w)) \<le> backlog w) \<and>
     (\<forall>buf w. backlog (snd (sink_start_send E buf w)) \<le> backlog w) \<and>
     (\<forall>w. backlog (snd (sink_poll_flush E w)) \<le> backlog w) \<and>
     (\<forall>w. backlog (snd (channel_unbounded E w)) \<le> backlog w) \<and>
     (\<forall>i m w. backlog (snd (inbound_try_send E i m w)) \<le> backlog w)"

text \<open>An action puts nothing into the queues.\<close>

definition within :: "('w \<Rightarrow> nat) \<Rightarrow> ('w, 'a) action \<Rightarrow> bool" where
  "within backlog f \<longleftrightarrow>
     (\<forall>p s r p' s'. f (p, s) = (r, p', s') \<longrightarrow> backlog (world s') \<le> backlog (world s))"

lemma withinD: "within backlog f \<Longrightarrow> f st = (r, st') \<Longrightarrow> backlog (world (snd st')) \<le> backlog (world (snd st))"
  unfolding within_def by (cases st; cases st') auto

named_theorems within_intros

lemma within_then_do [within_intros]:
  assumes "within backlog f" and "\<And>x. within backlog (g x)"
  shows "within backlog (then_do f g)"
  unfolding within_def
proof (intro allI impI)
  fix p s r p' s'
  assume run: "then_do f g (p, s) = (r, p', s')"
  obtain rf st1 where f: "f (p, s) = (rf, st1)" by (cases "f (p, s)")
  have le: "backlog (world (snd st1)) \<le> backlog (world s)" using withinD [OF assms(1) f] by simp
  show "backlog (world s') \<le> backlog (world s)"
  proof (cases rf)
    case (Ok x)
    with f run have "g x st1 = (r, p', s')" by (simp add: then_do_def)
    from withinD [OF assms(2) this] le show ?thesis by simp
  qed (use f run le in \<open>auto simp: then_do_def\<close>)
qed

lemma within_same_world [within_intros]:
  "within backlog (queue_event ev)" "within backlog return_unit" "within backlog (enqueue_message m)"
  "within backlog (\<lambda>st. (x st, st))" "within backlog (\<lambda>(p, s). (y p s, g p s, s))"
  by (auto simp: within_def queue_event_def return_unit_def enqueue_message_def)

lemma attach_local_world: "attach_local H key m s = Ok (h, m', s') \<Longrightarrow> world s' = world s"
  by (cases "alloc_local m")
    (auto simp: attach_local_def new_local_def ChannelHandle_new_def new_cell_def and_then_eq_Ok Let_def
      split: option.splits)

lemma attach_remote_world: "attach_remote H dk i cap m s = Ok (h, m', s') \<Longrightarrow> world s' = world s"
  by (auto simp: attach_remote_def new_remote_def ChannelHandle_new_def new_cell_def and_then_eq_Ok Let_def
      split: option.splits)

lemma remove_world: "remove H dk m s = Ok (m', s') \<Longrightarrow> world s' = world s"
  by (auto simp: remove_def store_true_def and_then_eq_Ok Let_def split: option.splits)

lemma within_remove_channel [within_intros]: "within backlog (remove_channel H dk)"
  by (auto simp: within_def remove_channel_def dest: remove_world split: outcome.splits)

lemma within_close [within_intros]:
  "within backlog (command_close H dk)" "within backlog (close_local H lid)"
proof -
  have "within backlog (then_do (remove_channel H dk) (\<lambda>_. queue_event ev))" for H dk ev
    by (intro within_intros)
  then show "within backlog (command_close H dk)" "within backlog (close_local H lid)"
    unfolding command_close_def close_local_def within_def by (auto split: option.splits if_splits)
qed

lemma within_retain [within_intros]: "within backlog (retain_outbound H ms)"
proof (induction ms)
  case (Cons m ms)
  have "within backlog (on_outbound_message H m)"
    unfolding on_outbound_message_def
    by (cases "message m") (auto intro!: within_intros)
  then have "within backlog (then_do (on_outbound_message H m) (\<lambda>keep.
      then_do (retain_outbound H ms) (\<lambda>kept st. (Ok (if keep then m # kept else kept), st))))"
    by (intro within_intros Cons.IH)
  then show ?case by (simp add: within_def)
qed (simp add: within_def)

lemma within_on_outbound [within_intros]: "within backlog (on_outbound_messages H ms)"
  unfolding on_outbound_messages_def by (auto intro!: within_intros)

locale bounded_env = compact_lib C for C +
  fixes E :: "'w env"
    and backlog :: "'w \<Rightarrow> nat"
  assumes env_bounded: "env_bounded E backlog"
begin

sublocale bounded_stream C E backlog
  by unfold_locales (use env_bounded in \<open>simp add: env_bounded_def\<close>)

lemma env_steps:
  "command_rx_poll E w = (Ready (Some c), w') \<Longrightarrow> backlog w' < backlog w"
  "outbound_rx_poll E w = (Ready (Some ms), w') \<Longrightarrow> backlog w' < backlog w"
  "sink_poll_ready E w = (x, w') \<Longrightarrow> backlog w' \<le> backlog w"
  "sink_start_send E buf w = (y, w') \<Longrightarrow> backlog w' \<le> backlog w"
  "sink_poll_flush E w = (x, w') \<Longrightarrow> backlog w' \<le> backlog w"
  "channel_unbounded E w = (i, w') \<Longrightarrow> backlog w' \<le> backlog w"
  "inbound_try_send E i m w = (z, w') \<Longrightarrow> backlog w' \<le> backlog w"
  using env_bounded unfolding env_bounded_def by (metis snd_conv)+

lemma accept_world: "accept E lid m s = Ok (ch, m', s') \<Longrightarrow> backlog (world s') \<le> backlog (world s)"
  by (cases "channel_unbounded E (world s)")
    (auto simp: accept_def handle_open_def and_then_eq_Ok split: if_splits dest: env_steps(6))

lemma within_accept [within_intros]: "within backlog (accept_channel H E lid)"
  by (auto simp: within_def accept_channel_def queue_event_def and_then_eq_Ok
      split: outcome.splits dest: accept_world)

lemma within_forward [within_intros]:
  "within backlog (\<lambda>(p, s). let (r, s) = forward_inbound_message E i m (p_channels p) s in (r, p, s))"
  "within backlog (\<lambda>(p, s). let (r, s) = forward_inbound_message_tolerate_closed E i m (p_channels p) s
     in (r, p, s))"
  by (auto simp: within_def forward_inbound_message_def forward_inbound_message_tolerate_closed_def
      try_send_inbound_def try_send_inbound_tolerate_closed_def Let_def
      split: option.splits prod.splits sum.splits try_send_error.splits dest!: env_steps(7))

lemma within_command_open [within_intros]: "within backlog (command_open H E key)"
proof -
  have tail: "within backlog (then_do (if b then accept_channel H E lid else return_unit)
      (\<lambda>_. then_do (\<lambda>st. (p_capability H E key st, st)) (\<lambda>cap. enqueue_message (f cap))))" for b lid f
    by (auto intro!: within_intros)
  show ?thesis
    unfolding within_def command_open_def
    by (auto simp: attach_local_world dest!: withinD [OF tail]
        split: outcome.splits option.splits simp del: split_paired_All)
qed

lemma within_on_open [within_intros]: "within backlog (on_open H E ch x)"
  unfolding within_def on_open_def queue_event_def
  by (auto simp: and_then_eq_Ok attach_remote_world dest!: withinD [OF within_accept]
      split: outcome.splits option.splits if_splits)

lemma within_on_close [within_intros]: "within backlog (on_close H E rid x)"
proof -
  have "within backlog (then_do
      (\<lambda>(p, s). let (r, s) = forward_inbound_message_tolerate_closed E (unat rid) (Close x) (p_channels p) s
        in (r, p, s))
      (\<lambda>_. then_do (remove_channel H dk) (\<lambda>_. queue_event ev)))" for dk ev
    by (intro within_intros)
  then show ?thesis
    unfolding within_def on_close_def by (auto split: option.splits)
qed

lemma within_on_command [within_intros]: "within backlog (on_command H E c)"
  by (cases c) (auto simp: command_signal_local_def intro!: within_intros)

lemma within_inbound_message [within_intros]: "within backlog (on_inbound_message H E cm)"
  unfolding on_inbound_message_def into_split_def
  by (cases "message cm") (simp_all add: within_on_open within_on_close within_forward(1) [unfolded Let_def])

lemma within_inbound [within_intros]: "within backlog (on_inbound_channel_messages H E ms)"
  by (induction ms) (auto intro!: within_intros)

lemma outbound_loop_world:
  "outbound_loop C E pending q w = (r, q', w') \<Longrightarrow> backlog w' \<le> backlog w"
proof (induction "length q" arbitrary: pending q w rule: less_induct)
  case less
  obtain b q1 where q1: "take_batch [] q = (b, q1)" by fastforce
  show ?case
  proof (cases "q = []")
    case False
    have IH: "outbound_loop C E False q1 w1 = (r, q', w') \<Longrightarrow> backlog w' \<le> backlog w1" for w1
      using less(1) [OF take_batch_progress [OF q1 [symmetric] False]] .
    from less(2) False q1 show ?thesis
      by (subst (asm) outbound_loop.simps)
        (auto split: prod.splits poll.splits sum.splits outcome.splits if_splits
          dest!: env_steps(3-5) IH)
  qed (use less(2) in \<open>auto simp: outbound_loop.simps [of C E pending "[]" w]
        split: prod.splits poll.splits sum.splits if_splits dest: env_steps(3)\<close>)
qed

lemma within_drive [within_intros]: "within backlog (drive_outbound C E)"
  by (auto simp: within_def drive_outbound_def poll_outbound_def Let_def set_world_def
      split: prod.splits dest: outbound_loop_world)

section \<open>Every poll returns\<close>

lemma poll_commands_returns: "\<exists>r st'. poll_commands H E st = Some (r, st')"
proof (induction "backlog (world (snd st))" arbitrary: st rule: less_induct)
  case less
  obtain x w where x: "command_rx_poll E (world (snd st)) = (x, w)" by fastforce
  show ?case
  proof (cases "\<exists>c. x = Ready (Some c)")
    case True
    then obtain c where c: "command_rx_poll E (world (snd st)) = (Ready (Some c), w)" using x by blast
    obtain r st1 where r: "on_command H E c (fst st, set_world w (snd st)) = (r, st1)"
      by (rule prod.exhaust)
    have "backlog (world (snd st1)) < backlog (world (snd st))"
      using withinD [OF within_on_command r] env_steps(1) [OF c] by (simp add: set_world_def)
    from less [OF this] c r show ?thesis
      by (subst poll_commands.simps) (auto split: outcome.splits)
  qed (use x in \<open>auto simp: poll_commands.simps [of H E st] split: poll.splits option.splits\<close>)
qed

lemma poll_inbound_read_returns: "\<exists>r st'. poll_inbound_read C H E st = Some (r, st')"
proof (induction "backlog (world (snd st))" arbitrary: st rule: less_induct)
  case less
  obtain x w where x: "poll_inbound C E (world (snd st)) = Some (x, w)"
    and dec: "\<And>y. x = Ready (Some y) \<Longrightarrow> backlog w < backlog (world (snd st))"
    using poll_inbound_returns by blast
  show ?case
  proof (cases "\<exists>ms. x = Ready (Some (Ok ms))")
    case True
    then obtain ms where ms: "x = Ready (Some (Ok ms))" by blast
    obtain r st1 where r: "on_inbound_channel_messages H E ms (fst st, set_world w (snd st)) = (r, st1)"
      by (rule prod.exhaust)
    have "backlog (world (snd st1)) < backlog (world (snd st))"
      using withinD [OF within_inbound r] dec [OF ms] by (simp add: set_world_def)
    from less [OF this] x ms r show ?thesis
      by (subst poll_inbound_read.simps) (auto split: outcome.splits)
  qed (use x in \<open>auto simp: poll_inbound_read.simps [of C H E st] split: poll.splits option.splits outcome.splits\<close>)
qed

lemma poll_outbound_write_returns: "\<exists>r st'. poll_outbound_write C H E st = Some (r, st')"
proof (induction "backlog (world (snd st))" arbitrary: st rule: less_induct)
  case less
  obtain d st1 where d: "drive_outbound C E st = (d, st1)"
      by (rule prod.exhaust)
  obtain x w where x: "outbound_rx_poll E (world (snd st1)) = (x, w)" by fastforce
  show ?case
  proof (cases "(\<exists>u. d = Ok u) \<and> (\<exists>ms. x = Ready (Some ms))")
    case True
    then obtain u ms where ms: "d = Ok u" "outbound_rx_poll E (world (snd st1)) = (Ready (Some ms), w)"
      using x by blast
    obtain r st2 where r: "on_outbound_messages H ms (fst st1, set_world w (snd st1)) = (r, st2)"
      by (rule prod.exhaust)
    have "backlog (world (snd st2)) < backlog (world (snd st))"
      using withinD [OF within_on_outbound r, of backlog] env_steps(2) [OF ms(2)] withinD [OF within_drive d]
      by (simp add: set_world_def)
    from less [OF this] d ms r show ?thesis
      by (subst poll_outbound_write.simps) (auto split: outcome.splits)
  qed (use d x in \<open>auto simp: poll_outbound_write.simps [of C H E st]
        split: poll.splits option.splits outcome.splits\<close>)
qed

lemma or_return_returns:
  assumes "\<exists>r st1. x = Some (r, st1)" and "\<And>st1. \<exists>r st'. g st1 = Some (r, st')"
  shows "\<exists>r st'. or_return x g = Some (r, st')"
  using assms by (auto simp: or_return_def split: outcome.splits)

lemma poll_next_returns: "\<exists>r st'. poll_next C H E st = Some (r, st')"
proof -
  have pop: "\<exists>r st'. pop_event st = Some (r, st')" for st :: "'w pstate"
    by (auto simp: pop_event_def split: prod.splits list.splits)
  have est: "\<exists>r st'. poll_established C H E st = Some (r, st')" for st
    unfolding poll_established_def
    by (cases st) (auto split: option.splits simp: pop simp del: split_paired_Ex
        intro!: or_return_returns poll_inbound_read_returns poll_commands_returns
          poll_outbound_write_returns pop)
  show ?thesis
    unfolding poll_next_def
    by (auto simp: est simp del: split_paired_Ex intro!: or_return_returns poll_inbound_read_returns
        poll_outbound_write_returns est)
qed

end

section \<open>An established session does not panic\<close>

text \<open>The channel numbers of a received frame, as far as the table of remote ids can hold them.\<close>

definition id_ok :: "ChannelMessage \<Rightarrow> bool" where
  "id_ok cm \<longleftrightarrow> (case message cm of Open _ \<Rightarrow> unat (channel cm) + 1 \<le> vec_max_len | _ \<Rightarrow> True)"

definition ids_ok :: "compact \<Rightarrow> bytes \<Rightarrow> bool" where
  "ids_ok C buf \<longleftrightarrow> (case vec_decode C buf of
       Some (Ok (ms, _)) \<Rightarrow>
         list_all id_ok ms
     | _ \<Rightarrow> True)"

lemma ids_okI:
  "(\<And>ms rest m x. vec_decode C buf = Some (Ok (ms, rest)) \<Longrightarrow> m \<in> set ms \<Longrightarrow> message m = Open x \<Longrightarrow>
     unat (channel m) < vec_max_len) \<Longrightarrow> ids_ok C buf"
  by (fastforce simp: ids_ok_def id_ok_def list_all_iff split: option.split outcome.split message.split)

lemma ids_okD:
  "ids_ok C buf \<Longrightarrow> vec_decode C buf = Some (Ok (ms, rest)) \<Longrightarrow> m \<in> set ms \<Longrightarrow> message m = Open x \<Longrightarrow>
   unat (channel m) < vec_max_len"
  by (force simp: ids_ok_def id_ok_def list_all_iff)

text \<open>No frame of the connection has an \<open>Open\<close> with a channel number beyond the largest table.\<close>

definition frames_ok :: "compact \<Rightarrow> 'w env \<Rightarrow> bool" where
  "frames_ok C E \<longleftrightarrow>
     (\<forall>w buf w'. stream_poll_next E w = (Ready (Some (CipherMessage buf)), w') \<longrightarrow> ids_ok C buf)"

text \<open>After the handshake: the cipher knows the remote and the hash, the queue of outgoing messages
  stays open (the protocol holds a sender of it), and the queues carry values of their Rust types.\<close>

definition session_ok :: "'w env \<Rightarrow> bytes \<Rightarrow> bool" where
  "session_ok E hash \<longleftrightarrow> hash \<noteq> [] \<and> length hash \<le> 64 \<and>
     (\<forall>w. cipher_remote_public_key E w \<noteq> None \<and> cipher_handshake_hash E w = Some hash) \<and>
     outbound_ok E \<and> (\<forall>w. fst (outbound_rx_poll E w) \<noteq> Ready None) \<and>
     (\<forall>w key w'. command_rx_poll E w = (Ready (Some (Command_Open key)), w') \<longrightarrow> length key = 32)"

definition calm :: "crypto \<Rightarrow> ('w, 'a) action \<Rightarrow> bool" where
  "calm H f \<longleftrightarrow> (\<forall>st. proto_inv H st \<longrightarrow> fst (f st) \<noteq> Panic)"

lemma calmD: "calm H f \<Longrightarrow> proto_inv H st \<Longrightarrow> f st = (r, st') \<Longrightarrow> r \<noteq> Panic"
  unfolding calm_def by (metis fst_conv)

named_theorems calm_intros

lemma calm_simple [calm_intros]:
  "calm H (queue_event ev)" "calm H return_unit" "calm H (enqueue_message m)"
  "(\<And>st. x st \<noteq> Panic) \<Longrightarrow> calm H (\<lambda>st. (x st, st))"
  "calm H (\<lambda>(p, s). (Ok (y p s), g p s, s))"
  by (auto simp: calm_def queue_event_def return_unit_def enqueue_message_def)

lemma calm_remove [calm_intros]: "calm H (remove_channel H dk)"
  unfolding calm_def
proof (intro allI impI)
  fix st :: "'a pstate" assume inv: "proto_inv H st"
  obtain p s where st: "st = (p, s)" by fastforce
  have "\<exists>m s'. remove H dk (p_channels p) s = Ok (m, s')"
    using remove_run [of H "p_channels p" s dk] remove_absent [of "p_channels p" H dk s] inv
    by (cases "channels (p_channels p) (hex_encode H dk)") (auto simp: st proto_inv_def)
  then show "fst (remove_channel H dk st) \<noteq> Panic" by (auto simp: st remove_channel_def)
qed

lemma calm_forward [calm_intros]:
  "calm H (\<lambda>(p, s). let (r, s) = forward_inbound_message E i m (p_channels p) s in (r, p, s))"
  "calm H (\<lambda>(p, s). let (r, s) = forward_inbound_message_tolerate_closed E i m (p_channels p) s
     in (r, p, s))"
  by (auto simp: calm_def forward_inbound_message_def forward_inbound_message_tolerate_closed_def
      try_send_inbound_def try_send_inbound_tolerate_closed_def Let_def
      split: option.splits prod.splits sum.splits try_send_error.splits)

locale session = bounded_env C E backlog + crypto_lib H
  for C and E :: "'w env" and backlog and H +
  fixes hash :: bytes
  assumes session: "session_ok E hash"
    and frames: "frames_ok C E"
begin

lemma calm_then_label:
  assumes "handles H E l f" and "quiet_label l" and "calm H f" and "\<And>x. calm H (g x)"
  shows "calm H (then_do f g)"
  unfolding calm_def
proof (intro allI impI)
  fix st :: "'w pstate"
  assume inv: "proto_inv H st"
  obtain r st1 where r: "f st = (r, st1)" by (rule prod.exhaust)
  note calm = calmD [OF assms(3) inv r]
  have inv1: "proto_inv H st1"
    using quiet_run_inv [OF handles_quiet [OF assms(1) inv r calm assms(2)]] inv by simp
  show "fst (then_do f g st) \<noteq> Panic"
  proof (cases r)
    case (Ok x)
    obtain r2 st2 where r2: "g x st1 = (r2, st2)" by (rule prod.exhaust)
    from calmD [OF assms(4) inv1 r2] r2 Ok r show ?thesis by (simp add: then_do_def)
  qed (use r calm in \<open>simp_all add: then_do_def\<close>)
qed

lemmas calm_then [calm_intros] = calm_then_label [where l = Idle, OF _ quiet_label.simps(5) [THEN iffD2, OF TrueI]]

lemma hash_ok: "hash \<noteq> []" "length hash \<le> 64"
  using session by (simp_all add: session_ok_def)

lemma session_queues:
  "stream_poll_next E w = (Ready (Some (CipherMessage buf)), w') \<Longrightarrow> ids_ok C buf"
  "command_rx_poll E w = (Ready (Some (Command_Open key)), w') \<Longrightarrow> length key = 32"
  "outbound_rx_poll E w \<noteq> (Ready None, w')"
  "outbound_ok E"
  using session frames unfolding session_ok_def frames_ok_def by (blast, blast, metis fst_conv, blast)

lemma cipher_known:
  "\<exists>rpk. remote_public_key E st = Some rpk" "handshake_hash E st = Some hash"
  using session by (auto simp: session_ok_def remote_public_key_def handshake_hash_def split: prod.split)

lemma capability_not_Panic: "p_capability H E key st \<noteq> Panic"
  using cipher_known [of st] replicate_capability_defined [OF hash_ok, of _ key]
  by (auto simp: p_capability_def capability_def from_pre_encrypted_def and_then_eq_Panic)
    (metis outcome.distinct(3))

lemma verify_not_Panic:
  "\<exists>r. p_verify_remote_capability H E cap key st = Some r \<and> r \<noteq> Panic"
proof -
  obtain rpk where rpk: "remote_public_key E st = Some rpk" using cipher_known(1) by blast
  obtain c where "replicate_capability H (\<not> p_is_initiator (fst st)) key hash = Ok c"
    using replicate_capability_defined [OF hash_ok] by blast
  then show ?thesis
    using rpk cipher_known(2) [of st]
    by (auto simp: p_verify_remote_capability_def verify_remote_capability_def remote_capability_def
        from_pre_encrypted_def split: option.split)
qed

lemma calm_accept [calm_intros]: "calm H (accept_channel H E lid)"
  unfolding calm_def
proof (intro allI impI)
  fix st :: "'w pstate"
  assume "proto_inv H st"
  obtain p s where st: "st = (p, s)" by fastforce
  have acc: "accept E lid (p_channels p) s \<noteq> Panic"
    by (cases "channel_unbounded E (world s)")
      (auto simp: accept_def handle_open_def is_connected_def and_then_eq_Panic)
  have prep: "prepare_to_verify lid (p_channels p) \<noteq> Panic"
    by (auto simp: prepare_to_verify_def handle_prepare_to_verify_def is_connected_def and_then_eq_Panic)
  show "fst (accept_channel H E lid st) \<noteq> Panic"
    using acc prep verify_not_Panic [of _ _ "(p, s)"]
    by (auto simp: st accept_channel_def queue_event_def and_then_eq_Panic split: outcome.split)
      (metis option.distinct(1) option.sel)+
qed

lemma calm_close [calm_intros]:
  "calm H (command_close H dk :: ('w, unit) action)" "calm H (close_local H lid :: ('w, unit) action)"
proof -
  have "calm H (then_do (remove_channel H dk) (\<lambda>_. queue_event ev) :: ('w, unit) action)" for dk ev
    by (intro calm_intros handles_remove)
  then show "calm H (command_close H dk :: ('w, unit) action)" "calm H (close_local H lid :: ('w, unit) action)"
    unfolding command_close_def close_local_def calm_def by (auto split: option.splits if_splits)
qed

lemma calm_on_close [calm_intros]: "calm H (on_close H E rid x)"
proof -
  have "calm H (then_do
      (\<lambda>(p, s). let (r, s) = forward_inbound_message_tolerate_closed E (unat rid) (Close x) (p_channels p) s
        in (r, p, s))
      (\<lambda>_. then_do (remove_channel H dk) (\<lambda>_. queue_event ev)))" for dk ev
    by (intro calm_intros handles_remove handles_env cells_le_forward)
  then show ?thesis
    unfolding calm_def on_close_def by (auto split: option.splits)
qed

lemma calm_command_open [calm_intros]:
  assumes "length key = 32"
  shows "calm H (command_open H E key)"
  unfolding calm_def
proof (intro allI impI)
  fix st :: "'w pstate"
  assume inv: "proto_inv H st"
  obtain p s where st: "st = (p, s)" by fastforce
  have cinv: "cm_inv H (p_channels p, s)" using inv by (simp add: st proto_inv_def)
  note ids = cm_inv_local_ids [OF cinv]
  obtain dk where dk: "discovery_key H key = Ok dk" using discovery_key_defined [OF assms] by blast
  obtain lid m1 where lid: "alloc_local (p_channels p) = (lid, m1)" by fastforce
  obtain h m s' where a: "attach_local H key (p_channels p) s = Ok (h, m, s')" and h: "handle_local_id h = Some lid"
    using attach_local_run [OF ids dk lid, of s]
    by (auto simp: local_handle_def handle_attach_local_def handle_local_id_def split: option.split)
  have inv1: "proto_inv H (p\<lparr>p_channels := m\<rparr>, s')"
    by (rule pstep_inv [OF hex_inj inv [unfolded st] p_attach_local [OF a]])
  have hnd: "handles H E Idle (if b then accept_channel H E lid else return_unit)" for b
    by (simp add: handles_accept_channel handles_return)
  have "calm H (if b then accept_channel H E lid else return_unit)" for b
    by (auto intro: calm_intros)
  then have "calm H (then_do (if b then accept_channel H E lid else return_unit)
      (\<lambda>_. then_do (\<lambda>st. (p_capability H E key st, st)) (\<lambda>cap. enqueue_message (f cap))))" for b f
    by (intro calm_intros hnd handles_pure capability_not_Panic)
  with inv1 show "fst (command_open H E key st) \<noteq> Panic"
    by (simp add: st command_open_def a h calm_def)
qed

lemma calm_on_command [calm_intros]:
  "(\<And>key. c = Command_Open key \<Longrightarrow> length key = 32) \<Longrightarrow> calm H (on_command H E c)"
  by (cases c) (auto simp: command_signal_local_def intro: calm_intros)

lemma calm_on_open [calm_intros]:
  assumes "unat ch + 1 \<le> vec_max_len"
  shows "calm H (on_open H E ch x)"
  unfolding calm_def
proof (intro allI impI)
  fix st :: "'w pstate"
  assume inv: "proto_inv H st"
  obtain p s where st: "st = (p, s)" by fastforce
  let ?dk = "open_discovery_key x"
  obtain h m s' where a: "attach_remote H ?dk (unat ch) (open_capability x) (p_channels p) s = Ok (h, m, s')"
    using attach_remote_run [of "unat ch" "p_channels p" H ?dk "open_capability x" s] assms by auto
  show "fst (on_open H E ch x st) \<noteq> Panic"
  proof (cases "length ?dk = 32")
    case True
    have "pstep H E (Received \<lparr>channel = ch, message = Open x\<rparr>) (p, s) (p\<lparr>p_channels := m\<rparr>, s')"
      using a True by (intro p_attach_remote [of _ x]) simp_all
    from pstep_inv [OF hex_inj inv [unfolded st] this]
    have "fst (accept_channel H E lid (p\<lparr>p_channels := m\<rparr>, s')) \<noteq> Panic" for lid
      using calm_accept by (simp add: calm_def)
    then show ?thesis using True a
      by (auto simp: st on_open_def parse_key_def queue_event_def is_connected_def handle_local_id_def)
  qed (simp add: st on_open_def parse_key_def)
qed

lemma calm_inbound_message: "id_ok cm \<Longrightarrow> calm H (on_inbound_message H E cm)"
  unfolding on_inbound_message_def into_split_def id_ok_def
  by (cases "message cm") (simp_all add: calm_on_open calm_on_close calm_forward(1) [unfolded Let_def])

lemma calm_inbound: "list_all id_ok ms \<Longrightarrow> calm H (on_inbound_channel_messages H E ms)"
  by (induction ms) (auto intro!: calm_simple calm_then_label [OF handles_on_inbound_message] calm_inbound_message)

lemma calm_outbound_message [calm_intros]: "calm H (on_outbound_message H m :: ('w, bool) action)"
  unfolding on_outbound_message_def
  by (cases "message m") (auto intro!: calm_intros handles_close_local handles_queue_event)

lemma calm_retain [calm_intros]: "calm H (retain_outbound H ms :: ('w, ChannelMessage list) action)"
proof (induction ms)
  case (Cons m ms)
  have "calm H (then_do (on_outbound_message H m) (\<lambda>keep. then_do (retain_outbound H ms)
      (\<lambda>kept st. (Ok (if keep then m # kept else kept), st))) :: ('w, ChannelMessage list) action)"
    by (intro calm_intros Cons.IH handles_on_outbound_message handles_retain_outbound) simp
  then show ?case by (simp add: calm_def)
qed (simp add: calm_def)

lemma calm_outbound [calm_intros]: "calm H (on_outbound_messages H ms :: ('w, unit) action)"
  unfolding on_outbound_messages_def by (auto intro!: calm_intros handles_retain_outbound)

lemma calm_drive: "calm H (drive_outbound C E)"
  unfolding calm_def
proof (intro allI impI)
  fix st :: "'w pstate"
  assume "proto_inv H st"
  then have "list_all single_ok (write_queue (p_io (fst st)))" by (auto simp: proto_inv_def)
  from outbound_loop_not_Panic [OF this, of E True "world (snd st)"] show "fst (drive_outbound C E st) \<noteq> Panic"
    by (cases st) (auto simp: drive_outbound_def poll_outbound_def split: prod.splits)
qed

lemma poll_inbound_ids: "poll_inbound C E w = Some (Ready (Some (Ok ms)), w') \<Longrightarrow> list_all id_ok ms"
proof (induction "backlog w" arbitrary: w rule: less_induct)
  case less
  obtain e w1 where e: "stream_poll_next E w = (Ready (Some e), w1)"
    using less(2) by (subst (asm) poll_inbound.simps) (auto split: prod.splits poll.splits option.splits)
  with bounded have dec: "backlog w1 < backlog w" by (auto simp: stream_bounded_def)
  show ?case
  proof (cases e)
    case (HandshakePayload x)
    then show ?thesis using less(1) [OF dec] less(2) e by (subst (asm) poll_inbound.simps) simp
  next
    case (CipherMessage buf)
    with session_queues(1) e have "ids_ok C buf" by blast
    then show ?thesis using less(2) e CipherMessage
      by (subst (asm) poll_inbound.simps) (auto simp: ids_ok_def and_then_eq_Ok split: option.splits)
  qed (use less(2) e in \<open>simp add: poll_inbound.simps [of C E w]\<close>)
qed

lemma poll_commands_calm:
  "proto_inv H st \<Longrightarrow> poll_commands H E st = Some (r, st') \<Longrightarrow> r \<noteq> Panic"
proof (induction "backlog (world (snd st))" arbitrary: st rule: less_induct)
  case less
  obtain x w where x: "command_rx_poll E (world (snd st)) = (x, w)" by fastforce
  let ?st = "(fst st, set_world w (snd st))"
  have inv: "proto_inv H ?st" using quiet_run_inv [OF quiet_run_world less(2)] .
  show ?case
  proof (cases "\<exists>c. x = Ready (Some c)")
    case True
    then obtain c where c: "command_rx_poll E (world (snd st)) = (Ready (Some c), w)" using x by blast
    obtain r1 st1 where r1: "on_command H E c ?st = (r1, st1)" by (rule prod.exhaust)
    have calm: "r1 \<noteq> Panic" using session_queues(2) c by (intro calmD [OF calm_on_command inv r1]) blast
    have inv1: "proto_inv H st1"
      using quiet_run_inv [OF handles_quiet [OF handles_on_command inv r1 calm]] inv by simp
    have "backlog (world (snd st1)) < backlog (world (snd st))"
      using withinD [OF within_on_command r1] env_steps(1) [OF c] by (simp add: set_world_def)
    from less(1) [OF this inv1] less(3) c r1 calm show ?thesis
      by (subst (asm) poll_commands.simps) (auto split: outcome.splits)
  qed (use less(3) x in \<open>auto simp: poll_commands.simps [of H E st] split: poll.splits option.splits\<close>)
qed

lemma poll_inbound_read_calm:
  "proto_inv H st \<Longrightarrow> poll_inbound_read C H E st = Some (r, st') \<Longrightarrow> r \<noteq> Panic"
proof (induction "backlog (world (snd st))" arbitrary: st rule: less_induct)
  case less
  obtain x w where x: "poll_inbound C E (world (snd st)) = Some (x, w)" "x \<noteq> Ready (Some Panic)"
    and dec: "\<And>y. x = Ready (Some y) \<Longrightarrow> backlog w < backlog (world (snd st))"
    using poll_inbound_returns by blast
  let ?st = "(fst st, set_world w (snd st))"
  have inv: "proto_inv H ?st" using quiet_run_inv [OF quiet_run_world less(2)] .
  show ?case
  proof (cases "\<exists>ms. x = Ready (Some (Ok ms))")
    case True
    then obtain ms where ms: "x = Ready (Some (Ok ms))" by blast
    obtain r1 st1 where r1: "on_inbound_channel_messages H E ms ?st = (r1, st1)" by (rule prod.exhaust)
    note calm = calmD [OF calm_inbound [OF poll_inbound_ids [OF x(1) [unfolded ms]]] inv r1]
    note inv1 = quiet_run_inv [OF inbound_messages_quiet [OF inv r1 calm] inv]
    have "backlog (world (snd st1)) < backlog (world (snd st))"
      using withinD [OF within_inbound r1] dec [OF ms] by (simp add: set_world_def)
    from less(1) [OF this inv1] less(3) x ms r1 calm show ?thesis
      by (subst (asm) poll_inbound_read.simps) (auto split: outcome.splits)
  qed (use less(3) x in \<open>auto simp: poll_inbound_read.simps [of C H E st]
        split: poll.splits option.splits outcome.splits\<close>)
qed

lemma poll_outbound_write_calm:
  "proto_inv H st \<Longrightarrow> poll_outbound_write C H E st = Some (r, st') \<Longrightarrow> r \<noteq> Panic"
proof (induction "backlog (world (snd st))" arbitrary: st rule: less_induct)
  case less
  obtain d st1 where d: "drive_outbound C E st = (d, st1)" by (rule prod.exhaust)
  note calm_d = calmD [OF calm_drive less(2) d] and inv0 = quiet_run_inv [OF drive_outbound_quiet [OF d] less(2)]
  obtain x w where x: "outbound_rx_poll E (world (snd st1)) = (x, w)" by fastforce
  let ?st = "(fst st1, set_world w (snd st1))"
  have inv: "proto_inv H ?st" using quiet_run_inv [OF quiet_run_world inv0] .
  show ?case
  proof (cases "(\<exists>u. d = Ok u) \<and> (\<exists>ms. x = Ready (Some ms))")
    case True
    then obtain u ms where ms: "d = Ok u" "outbound_rx_poll E (world (snd st1)) = (Ready (Some ms), w)"
      using x by blast
    have ok: "list_all app_ok ms" using session_queues(4) ms(2) by (auto simp: outbound_ok_def)
    obtain r1 st2 where r1: "on_outbound_messages H ms ?st = (r1, st2)" by (rule prod.exhaust)
    note calm = calmD [OF calm_outbound inv r1]
    have inv1: "proto_inv H st2"
      using quiet_run_inv [OF handles_quiet [OF handles_on_outbound_messages [OF ok, where l = Idle] inv r1 calm]] inv
      by simp
    have "backlog (world (snd st2)) < backlog (world (snd st))"
      using withinD [OF within_on_outbound r1, of backlog] env_steps(2) [OF ms(2)] withinD [OF within_drive d]
      by (simp add: set_world_def)
    from less(1) [OF this inv1] less(3) d ms r1 calm show ?thesis
      by (subst (asm) poll_outbound_write.simps) (auto split: outcome.splits)
  qed (use less(3) d x calm_d session_queues(3) in \<open>auto simp: poll_outbound_write.simps [of C H E st]
        split: poll.splits option.splits outcome.splits\<close>)
qed

lemma or_return_calm:
  assumes "or_return x g = Some (r, st')" and "\<And>r1 st1. x = Some (r1, st1) \<Longrightarrow> r1 \<noteq> Panic"
    and "\<And>u st1. x = Some (Ok u, st1) \<Longrightarrow> g st1 = Some (r, st') \<Longrightarrow> r \<noteq> Panic"
  shows "r \<noteq> Panic"
  using assms
  by (cases x) (auto simp: or_return_def split: prod.splits outcome.splits)

lemma poll_next_calm:
  assumes inv: "proto_inv H st" and run: "poll_next C H E st = Some (r, st')"
  shows "r \<noteq> Panic"
proof -
  have pop: "r \<noteq> Panic" if "pop_event st1 = Some (r, st')" for st1
    using that by (auto simp: pop_event_def split: prod.splits list.splits)
  have loops: "r \<noteq> Panic" if run: "or_return (poll_inbound_read C H E st) (\<lambda>st.
      or_return (poll_commands H E st) (\<lambda>st. or_return (poll_outbound_write C H E st) pop_event)) = Some (r, st')"
  proof (rule or_return_calm [OF run poll_inbound_read_calm [OF inv]])
    fix u st1
    assume 1: "poll_inbound_read C H E st = Some (Ok u, st1)"
      and run: "or_return (poll_commands H E st1) (\<lambda>st. or_return (poll_outbound_write C H E st) pop_event) =
        Some (r, st')"
    have inv1: "proto_inv H st1" using quiet_run_inv [OF poll_inbound_read_quiet [OF 1 inv] inv] by simp
    show "r \<noteq> Panic"
    proof (rule or_return_calm [OF run poll_commands_calm [OF inv1]])
      fix u st2
      assume 2: "poll_commands H E st1 = Some (Ok u, st2)"
        and run: "or_return (poll_outbound_write C H E st2) pop_event = Some (r, st')"
      have inv2: "proto_inv H st2" using quiet_run_inv [OF poll_commands_quiet [OF 2 inv1] inv1] by simp
      show "r \<noteq> Panic" by (rule or_return_calm [OF run poll_outbound_write_calm [OF inv2] pop])
    qed
  qed
  have "poll_established C H E st = Some (r, st')"
    using run cipher_known(2) [of st] by (simp add: poll_next_def)
  with loops pop [of st] show ?thesis
    by (cases st) (auto simp: poll_established_def split: option.splits if_splits)
qed

end

end
