(* ===== verification/Peers.thy ===== *)
theory Peers
  imports Protocol
begin

text \<open>
  Two peers on one connection: the composition of the protocol with the codec. Each side has its own
  environment; a message goes from one to the other as the bytes of its frame. Two peers that open
  the same key get a channel each, whichever opens first, and a message sent on one channel is put
  into the inbound queue of the other.
\<close>

section \<open>A message in transit\<close>

definition deliver :: "compact \<Rightarrow> crypto \<Rightarrow> 'w env \<Rightarrow> ChannelMessage list \<Rightarrow> ('w, unit) action" where
  "deliver C H E ms st =
     (case encode_messages C ms of
        Ok buf \<Rightarrow>
          (case vec_decode C buf of
             Some (Ok (ms', _)) \<Rightarrow> on_inbound_channel_messages H E ms' st
           | Some (Err e) \<Rightarrow> (Err (FromEncoding e), st)
           | _ \<Rightarrow> (Panic, st))
      | Err e \<Rightarrow> (Err (FromEncoding e), st)
      | Panic \<Rightarrow> (Panic, st))"

lemma deliver_faithful:
  assumes "compact_ok C" and "faithful_frame C ms"
  shows "deliver C H E ms st = on_inbound_channel_messages H E ms st"
proof -
  have lib: "compact_lib C" by (rule compact_lib.intro [OF assms(1)])
  show ?thesis
    using compact_lib.to_encoded_bytes_frame [OF lib faithful_frame_ok [OF assms(2)]]
      compact_lib.vec_decode_frame [OF lib assms(2)]
    by (simp add: deliver_def encode_messages_def)
qed

lemma on_inbound_one: "on_inbound_channel_messages H E [m] st = on_inbound_message H E m st"
  by (auto simp: then_do_def return_unit_def split: prod.split outcome.split)

lemmas deliver_one = deliver_faithful [where ms = "[m]" for m, unfolded on_inbound_one]

section \<open>The \<open>Open\<close> of a channel\<close>

definition open_message :: "nat \<Rightarrow> bytes \<Rightarrow> bytes option \<Rightarrow> ChannelMessage" where
  "open_message lid dk cap = ChannelMessage_new (of_nat lid)
     (Open \<lparr>open_channel = of_nat lid, open_protocol = PROTOCOL_NAME, open_discovery_key = dk,
        open_capability = cap\<rparr>)"

lemma protocol_name_ok: "utf8 PROTOCOL_NAME" "vec_fits PROTOCOL_NAME"
  by (simp_all add: PROTOCOL_NAME_def utf8_def vec_fits_def)

lemma open_message_faithful:
  assumes "length dk = 32" and "length c = 32"
  shows "faithful_frame C [open_message lid dk (Some c)]"
  using assms protocol_name_ok
  by (simp add: faithful_frame_def open_message_def ChannelMessage_new_def Open_ok_def Open_wire_def
      vec_fits_def)

lemma command_open_connects:
  assumes inv: "cm_inv H (p_channels p, s)" and inj: "inj (hex_encode H)"
    and dk: "discovery_key H key = Ok dk"
    and h: "channels (p_channels p) (hex_encode H dk) = Some h" and rs: "h_remote_state h = Some rs"
    and "remote_public_key E (p, s) = Some rpk" and "handshake_hash E (p, s) = Some hash"
    and "replicate_capability H (\<not> p_is_initiator p) key hash = Ok c"
    and c: "rs_remote_capability rs = Some c"
    and w: "channel_unbounded E (world s) = (inb, w)"
    and cap: "p_capability H E key (p, s\<lparr>world := w\<rparr>) = Ok cap"
    and lid: "alloc_local (p_channels p) = (lid, m1)"
  shows "\<exists>lids. command_open H E key (p, s) =
      (Ok (), p\<lparr>p_channels := (p_channels p)\<lparr>channels := (channels (p_channels p))
           (hex_encode H dk \<mapsto> h\<lparr>h_local_state := Some \<lparr>ls_key = key, ls_local_id = lid\<rparr>,
              h_inbound_tx := Some inb\<rparr>), local_id := lids\<rparr>,
         p_io := enqueue (open_message lid dk cap) (p_io p),
         queued_events := queued_events p @
           [Event_Channel (Channel_new (Some inb) inb dk key lid (h_closed h))]\<rparr>, s\<lparr>world := w\<rparr>)"
proof -
  let ?k = "hex_encode H dk" and ?m = "p_channels p"
  let ?h = "handle_attach_local lid key h"
  let ?m' = "m1\<lparr>channels := (channels ?m)(?k \<mapsto> ?h), local_id := (local_id m1)[lid := Some ?k]\<rparr>"
  note ids = cm_inv_local_ids [OF inv]
  have a: "attach_local H key ?m s = Ok (?h, ?m', s)"
    using attach_local_run [OF ids dk lid, of s] h by (simp add: local_handle_def attach_sys_def)
  have m': "?m' = ?m\<lparr>channels := (channels ?m)(?k \<mapsto> ?h), local_id := (local_id m1)[lid := Some ?k]\<rparr>"
    using lid by (auto simp: alloc_local_def Let_def split: option.splits)
  have con: "is_connected ?h" "handle_local_id ?h = Some lid" "h_discovery_key ?h = dk"
    using rs cm_inv_handle [OF inv h] inj
    by (simp_all add: is_connected_def handle_local_id_def handle_attach_local_def handle_inv_def inj_eq)
  have acc: "accept_channel H E lid (p\<lparr>p_channels := ?m'\<rparr>, s) =
      (Ok (), p\<lparr>p_channels := ?m'\<lparr>channels := (channels ?m')(?k \<mapsto> ?h\<lparr>h_inbound_tx := Some inb\<rparr>)\<rparr>,
         queued_events := queued_events p @
           [Event_Channel (Channel_new (Some inb) inb dk key lid (h_closed h))]\<rparr>, s\<lparr>world := w\<rparr>)"
    using accept_channel_run [of H "p\<lparr>p_channels := ?m'\<rparr>" s ?k ?h "\<lparr>ls_key = key, ls_local_id = lid\<rparr>" rs E rpk hash c inb w]
      cm_inv_attach_local [OF inj inv a] assms(6-8) rs c w con
    by (simp add: handle_attach_local_def remote_public_key_def handshake_hash_def)
  let ?p = "p\<lparr>p_channels := ?m'\<lparr>channels := (channels ?m')(?k \<mapsto> ?h\<lparr>h_inbound_tx := Some inb\<rparr>)\<rparr>,
         queued_events := queued_events p @
           [Event_Channel (Channel_new (Some inb) inb dk key lid (h_closed h))]\<rparr>"
  have "p_capability H E key (?p, s\<lparr>world := w\<rparr>) = Ok cap"
    using cap by (subst p_capability_cong [of _ p _ "s\<lparr>world := w\<rparr>"]) simp_all
  then have "command_open H E key (p, s) =
      (Ok (), ?p\<lparr>p_io := enqueue (open_message lid dk cap) (p_io ?p)\<rparr>, s\<lparr>world := w\<rparr>)"
    using a con acc by (simp add: command_open_def then_do_def enqueue_message_def open_message_def)
  also have "?p = p\<lparr>p_channels := ?m\<lparr>channels := (channels ?m)(?k \<mapsto> ?h\<lparr>h_inbound_tx := Some inb\<rparr>),
           local_id := (local_id m1)[lid := Some ?k]\<rparr>,
         queued_events := queued_events p @
           [Event_Channel (Channel_new (Some inb) inb dk key lid (h_closed h))]\<rparr>"
    unfolding m' by simp
  finally show ?thesis
    by (intro exI [of _ "(local_id m1)[lid := Some ?k]"]) (simp add: handle_attach_local_def)
qed

section \<open>A session\<close>

text \<open>The handshake is complete, with a hash BLAKE2b accepts as a key; making a queue does not touch
  the cipher.\<close>

definition in_session :: "'w env \<Rightarrow> bytes \<Rightarrow> 'w pstate \<Rightarrow> bool" where
  "in_session E hash st \<longleftrightarrow> remote_public_key E st \<noteq> None \<and> handshake_hash E st = Some hash \<and>
     hash \<noteq> [] \<and> length hash \<le> 64"

definition queues_apart :: "'w env \<Rightarrow> bool" where
  "queues_apart E \<longleftrightarrow> (\<forall>w i w'. channel_unbounded E w = (i, w') \<longrightarrow>
     cipher_remote_public_key E w' = cipher_remote_public_key E w \<and>
     cipher_handshake_hash E w' = cipher_handshake_hash E w)"

lemma in_session_queue:
  "queues_apart E \<Longrightarrow> channel_unbounded E (world s) = (i, w) \<Longrightarrow> in_session E hash (p, s) \<Longrightarrow>
   in_session E hash (p', s\<lparr>world := w\<rparr>)"
  by (simp add: in_session_def queues_apart_def remote_public_key_def handshake_hash_def)

lemma in_session_capability:
  assumes "in_session E hash (p, s)" and "replicate_capability H (p_is_initiator p) key hash = Ok c"
  shows "p_capability H E key (p, s) = Ok (Some c)"
  using assms by (auto simp: in_session_def p_capability_def capability_def from_pre_encrypted_def)

text \<open>Messages the remote sends under an id reach a channel.\<close>

definition routes :: "Protocol \<Rightarrow> u64 \<Rightarrow> Channel \<Rightarrow> bool" where
  "routes p rid ch \<longleftrightarrow> (\<exists>h. get_remote (unat rid) (p_channels p) = Some h \<and>
     h_inbound_tx h = Some (direct_inbound_tx ch) \<and> inbound_rx ch = Some (direct_inbound_tx ch) \<and>
     h_discovery_key h = ch_discovery_key ch \<and> h_closed h = ch_closed ch)"

lemma routes_deliver:
  assumes "compact_ok C" and "routes p rid ch" and "typed_ok msg" and "rid \<noteq> 0"
    and "inbound_try_send E (direct_inbound_tx ch) msg (world s) = (Inr (), w)"
  shows "deliver C H E [ChannelMessage_new rid msg] (p, s) = (Ok (), p, s\<lparr>world := w\<rparr>)"
proof -
  have "faithful_frame C [ChannelMessage_new rid msg]"
    using assms(3,4) by (cases msg) (simp_all add: faithful_frame_def ChannelMessage_new_def)
  note deliver_one [OF assms(1) this, of H E "(p, s)"]
  also obtain h where "get_remote (unat rid) (p_channels p) = Some h"
    "h_inbound_tx h = Some (direct_inbound_tx ch)"
    using assms(2) by (auto simp: routes_def)
  then have "on_inbound_message H E (ChannelMessage_new rid msg) (p, s) = (Ok (), p, s\<lparr>world := w\<rparr>)"
    using assms(3,5)
    by (cases msg) (simp_all add: on_inbound_message_def into_split_def ChannelMessage_new_def
        forward_inbound_message_def try_send_inbound_def)
  finally show ?thesis .
qed

lemma alloc_local_bound:
  "local_id m \<noteq> [] \<Longrightarrow> alloc_local m = (i, m') \<Longrightarrow> 0 < i \<and> i \<le> length (local_id m)"
  by (auto simp: alloc_local_def Let_def position_Some split: option.splits)

lemma unat_of_nat_id: "i < vec_max_len \<Longrightarrow> unat (of_nat i :: u64) = i"
  by (intro unat_of_nat_u64) (simp add: vec_max_len_def)

section \<open>Both sides open a key\<close>

context crypto_lib
begin

text \<open>The side that opens first.\<close>

lemma opens_first:
  assumes inv: "proto_inv H (p, s)" and sess: "in_session E hash (p, s)"
    and dk: "discovery_key H key = Ok dk"
    and new: "channels (p_channels p) (hex_encode H dk) = None"
    and c: "replicate_capability H (p_is_initiator p) key hash = Ok c"
    and lid: "alloc_local (p_channels p) = (lid, m1)"
  obtains p' s' h where "command_open H E key (p, s) = (Ok (), p', s')"
    and "p_io p' = enqueue (open_message lid dk (Some c)) (p_io p)"
    and "queued_events p' = queued_events p" and "p_is_initiator p' = p_is_initiator p"
    and "proto_inv H (p', s')" and "in_session E hash (p', s')" and "world s' = world s"
    and "channels (p_channels p') (hex_encode H dk) = Some h"
    and "h_local_state h = Some \<lparr>ls_key = key, ls_local_id = lid\<rparr>"
proof -
  have "cm_inv H (p_channels p, s)" using inv by (simp add: proto_inv_def)
  from command_open_run [OF this hex_inj dk _ in_session_capability [OF sess c] lid] new
  obtain m h where run: "command_open H E key (p, s) = (Ok (), p\<lparr>p_channels := m,
        p_io := enqueue (open_message lid dk (Some c)) (p_io p)\<rparr>, attach_sys None s)"
    and h: "get_local lid m = Some h" "h_discovery_key h = dk"
      "h_local_state h = Some \<lparr>ls_key = key, ls_local_id = lid\<rparr>"
    by (auto simp: open_message_def)
  have w: "world (attach_sys None s) = world s" by (simp add: attach_sys_def)
  have inv': "proto_inv H (p\<lparr>p_channels := m, p_io := enqueue (open_message lid dk (Some c)) (p_io p)\<rparr>,
      attach_sys None s)"
    using quiet_run_inv [OF handles_quiet [OF handles_command_open inv run]] inv by simp
  then have "cm_inv H (m, attach_sys None s)" by (simp add: proto_inv_def)
  from get_local_key [OF this h(1)] h(2,3) inv' w sess show ?thesis
    by (intro that [OF run]) (simp_all add: in_session_def remote_public_key_def handshake_hash_def)
qed

text \<open>The other side hears of the channel.\<close>

lemma hears_open:
  assumes C: "compact_ok C" and inv: "proto_inv H (p, s)" and sess: "in_session E hash (p, s)"
    and dk: "length dk = 32" and c: "length c = 32" and i: "i + 1 \<le> vec_max_len"
    and new: "channels (p_channels p) (hex_encode H dk) = None"
  obtains p' s' h where "deliver C H E [open_message i dk (Some c)] (p, s) = (Ok (), p', s')"
    and "p_io p' = p_io p" and "queued_events p' = queued_events p @ [Event_DiscoveryKey dk]"
    and "p_is_initiator p' = p_is_initiator p" and "proto_inv H (p', s')"
    and "in_session E hash (p', s')" and "local_id (p_channels p') = local_id (p_channels p)"
    and "get_remote i (p_channels p') = Some h"
    and "channels (p_channels p') (hex_encode H dk) = Some h"
    and "h_discovery_key h = dk" and "h_remote_state h = Some \<lparr>rs_remote_id = i, rs_remote_capability = Some c\<rparr>"
proof -
  let ?x = "\<lparr>open_channel = of_nat i, open_protocol = PROTOCOL_NAME, open_discovery_key = dk,
     open_capability = Some c\<rparr>"
  have i': "unat (of_nat i :: u64) = i" using i by (simp add: unat_of_nat_id)
  have run: "deliver C H E [open_message i dk (Some c)] st = on_open H E (of_nat i) ?x st" for st
    using deliver_one [OF C open_message_faithful [OF dk c]]
    by (simp add: on_inbound_message_def open_message_def into_split_def ChannelMessage_new_def)
  obtain m h where op: "on_open H E (of_nat i) ?x (p, s) = (Ok (), p\<lparr>p_channels := m,
      queued_events := queued_events p @ [Event_DiscoveryKey dk]\<rparr>, s\<lparr>cells := cells s @ [False]\<rparr>)"
    and m: "local_id m = local_id (p_channels p)" "get_remote i m = Some h" "h_discovery_key h = dk"
      "h_remote_state h = Some \<lparr>rs_remote_id = i, rs_remote_capability = Some c\<rparr>"
    using on_open_unknown [of ?x "of_nat i" p H E s] dk i i' new by auto
  have inv': "proto_inv H (p\<lparr>p_channels := m,
      queued_events := queued_events p @ [Event_DiscoveryKey dk]\<rparr>, s\<lparr>cells := cells s @ [False]\<rparr>)"
    using quiet_run_inv [OF handles_quiet [OF handles_on_open inv]] op inv
    by (metis ChannelMessage.select_convs outcome.distinct(3) quiet_label.simps(2))
  then have "cm_inv H (m, s\<lparr>cells := cells s @ [False]\<rparr>)" by (simp add: proto_inv_def)
  from get_remote_key [OF this m(2)] m inv' sess show ?thesis
    by (intro that [OF trans [OF run op], of h])
      (simp_all add: in_session_def remote_public_key_def handshake_hash_def)
qed

text \<open>It opens the key as well, and gets its channel.\<close>

lemma opens_second:
  assumes inv: "proto_inv H (p, s)" and sess: "in_session E hash (p, s)" and E: "queues_apart E"
    and dk: "discovery_key H key = Ok dk" and i: "i < vec_max_len"
    and remote: "get_remote i (p_channels p) = Some h"
      "channels (p_channels p) (hex_encode H dk) = Some h" "h_discovery_key h = dk"
      "h_remote_state h = Some \<lparr>rs_remote_id = i, rs_remote_capability = Some c'\<rparr>"
    and c': "replicate_capability H (\<not> p_is_initiator p) key hash = Ok c'"
    and c: "replicate_capability H (p_is_initiator p) key hash = Ok c"
    and lid: "alloc_local (p_channels p) = (lid, m1)"
  obtains p' s' ch where "command_open H E key (p, s) = (Ok (), p', s')"
    and "p_io p' = enqueue (open_message lid dk (Some c)) (p_io p)"
    and "queued_events p' = queued_events p @ [Event_Channel ch]"
    and "ch_key ch = key" and "ch_discovery_key ch = dk" and "ch_local_id ch = lid"
    and "routes p' (of_nat i) ch"
proof -
  obtain inb w where w: "channel_unbounded E (world s) = (inb, w)" by fastforce
  obtain rpk where rpk: "remote_public_key E (p, s) = Some rpk"
    using sess by (auto simp: in_session_def)
  have cinv: "cm_inv H (p_channels p, s)" using inv by (simp add: proto_inv_def)
  have hash: "handshake_hash E (p, s) = Some hash" using sess by (simp add: in_session_def)
  note cap = in_session_capability [OF in_session_queue [OF E w sess] c]
  obtain lids where run: "command_open H E key (p, s) =
      (Ok (), p\<lparr>p_channels := (p_channels p)\<lparr>channels := (channels (p_channels p))
           (hex_encode H dk \<mapsto> h\<lparr>h_local_state := Some \<lparr>ls_key = key, ls_local_id = lid\<rparr>,
              h_inbound_tx := Some inb\<rparr>), local_id := lids\<rparr>,
         p_io := enqueue (open_message lid dk (Some c)) (p_io p),
         queued_events := queued_events p @
           [Event_Channel (Channel_new (Some inb) inb dk key lid (h_closed h))]\<rparr>, s\<lparr>world := w\<rparr>)"
    using command_open_connects [OF cinv hex_inj dk remote(2,4) rpk hash c' _ w cap lid] by auto
  have "vec_get (remote_id (p_channels p)) i = Some (Some (hex_encode H dk))"
    using remote(1) cm_inv_handle [OF cinv] remote(3)
    by (auto simp: get_remote_def handle_inv_def split: option.splits)
  then show ?thesis
    using i remote(3) by (intro that [OF run, of "Channel_new (Some inb) inb dk key lid (h_closed h)"])
      (simp_all add: Channel_new_def routes_def get_remote_def unat_of_nat_id)
qed

lemma hears_and_opens:
  assumes C: "compact_ok C" and inv: "proto_inv H (p, s)" and sess: "in_session E hash (p, s)"
    and E: "queues_apart E" and dk: "discovery_key H key = Ok dk" and i: "i + 1 \<le> vec_max_len"
    and new: "channels (p_channels p) (hex_encode H dk) = None"
    and c': "replicate_capability H (\<not> p_is_initiator p) key hash = Ok c'"
    and c: "replicate_capability H (p_is_initiator p) key hash = Ok c"
    and lid: "alloc_local (p_channels p) = (lid, m1)"
  obtains p1 s1 p2 s2 ch where "deliver C H E [open_message i dk (Some c')] (p, s) = (Ok (), p1, s1)"
    and "queued_events p1 = queued_events p @ [Event_DiscoveryKey dk]"
    and "command_open H E key (p1, s1) = (Ok (), p2, s2)"
    and "write_queue (p_io p2) = write_queue (p_io p) @ [open_message lid dk (Some c)]"
    and "queued_events p2 = queued_events p1 @ [Event_Channel ch]"
    and "ch_key ch = key" and "ch_local_id ch = lid" and "routes p2 (of_nat i) ch"
proof -
  obtain p1 s1 h where 1: "deliver C H E [open_message i dk (Some c')] (p, s) = (Ok (), p1, s1)"
    "p_io p1 = p_io p" "queued_events p1 = queued_events p @ [Event_DiscoveryKey dk]"
    "p_is_initiator p1 = p_is_initiator p" "proto_inv H (p1, s1)" "in_session E hash (p1, s1)"
    "local_id (p_channels p1) = local_id (p_channels p)"
    "get_remote i (p_channels p1) = Some h" "channels (p_channels p1) (hex_encode H dk) = Some h"
    "h_discovery_key h = dk" "h_remote_state h = Some \<lparr>rs_remote_id = i, rs_remote_capability = Some c'\<rparr>"
    by (rule hears_open [OF C inv sess discovery_key_length [OF dk] replicate_capability_length [OF c'] i new])
  have caps: "replicate_capability H (\<not> p_is_initiator p1) key hash = Ok c'"
    "replicate_capability H (p_is_initiator p1) key hash = Ok c"
    using c c' unfolding 1(4) by simp_all
  have i': "i < vec_max_len" using i by simp
  obtain m2 where lid': "alloc_local (p_channels p1) = (lid, m2)"
    using lid 1(7) by (auto simp: alloc_local_def Let_def split: option.splits)
  obtain p2 s2 ch where 2: "command_open H E key (p1, s1) = (Ok (), p2, s2)"
    "p_io p2 = enqueue (open_message lid dk (Some c)) (p_io p1)"
    "queued_events p2 = queued_events p1 @ [Event_Channel ch]"
    "ch_key ch = key" "ch_discovery_key ch = dk" "ch_local_id ch = lid" "routes p2 (of_nat i) ch"
    by (rule opens_second [OF 1(5,6) E dk i' 1(8-11) caps lid'])
  have "write_queue (p_io p2) = write_queue (p_io p) @ [open_message lid dk (Some c)]"
    unfolding 2(2) 1(2) by (simp add: enqueue_def)
  from that [OF 1(1,3) 2(1) this 2(3,4,6,7)] show ?thesis .
qed

text \<open>The first side receives the answer, and gets its channel too.\<close>

lemma hears_answer:
  assumes C: "compact_ok C" and inv: "proto_inv H (p, s)" and sess: "in_session E hash (p, s)"
    and dk: "discovery_key H key = Ok dk" and i: "i + 1 \<le> vec_max_len"
    and h: "channels (p_channels p) (hex_encode H dk) = Some h"
      "h_local_state h = Some \<lparr>ls_key = key, ls_local_id = lid\<rparr>"
    and c: "replicate_capability H (\<not> p_is_initiator p) key hash = Ok c"
  obtains p' s' ch where "deliver C H E [open_message i dk (Some c)] (p, s) = (Ok (), p', s')"
    and "p_io p' = p_io p" and "queued_events p' = queued_events p @ [Event_Channel ch]"
    and "ch_key ch = key" and "ch_discovery_key ch = dk" and "ch_local_id ch = lid"
    and "routes p' (of_nat i) ch"
proof -
  let ?x = "\<lparr>open_channel = of_nat i, open_protocol = PROTOCOL_NAME, open_discovery_key = dk,
     open_capability = Some c\<rparr>"
  note len = discovery_key_length [OF dk] replicate_capability_length [OF c]
  have i': "unat (of_nat i :: u64) = i" using i by (simp add: unat_of_nat_id)
  have deliver: "deliver C H E [open_message i dk (Some c)] st = on_open H E (of_nat i) ?x st" for st
    using deliver_one [OF C open_message_faithful [OF len]]
    by (simp add: on_inbound_message_def open_message_def into_split_def ChannelMessage_new_def)
  obtain inb w where w: "channel_unbounded E (world s) = (inb, w)" by fastforce
  obtain rpk where rpk: "remote_public_key E (p, s) = Some rpk"
    using sess by (auto simp: in_session_def)
  have cinv: "cm_inv H (p_channels p, s)" using inv by (simp add: proto_inv_def)
  have hash: "handshake_hash E (p, s) = Some hash" using sess by (simp add: in_session_def)
  obtain q where slot: "vec_get q i = Some (Some (hex_encode H dk))"
    and run: "on_open H E (of_nat i) ?x (p, s) =
      (Ok (), p\<lparr>p_channels := (p_channels p)\<lparr>channels := (channels (p_channels p))
               (hex_encode H dk \<mapsto> connected_handle i (Some c) inb h), remote_id := q\<rparr>,
             queued_events := queued_events p @ [Event_Channel
               (Channel_new (Some inb) inb dk key lid (h_closed h))]\<rparr>, s\<lparr>world := w\<rparr>)"
    using on_open_known_run [OF cinv hex_inj, of ?x "of_nat i" h _ E rpk hash c inb w]
      len i i' h rpk hash c w by auto
  have "h_discovery_key h = dk"
    using cm_inv_handle [OF cinv h(1)] hex_inj by (simp add: handle_inv_def inj_eq)
  with slot show ?thesis
    by (intro that [OF trans [OF deliver run], of "Channel_new (Some inb) inb dk key lid (h_closed h)"])
      (simp_all add: Channel_new_def routes_def get_remote_def i' connected_handle_def)
qed

end

end
