(* ===== verification/Delivery.thy ===== *)
theory Delivery
  imports Peers
begin

text \<open>
  A message from the application of one peer to the application of the other: \<open>Channel::send_batch\<close>
  puts it into the outbound queue, a poll of the protocol encodes it and hands it to the sink, a poll
  of the other side reads the frame, decodes it and forwards it to the inbound queue of the channel,
  and polling the channel yields it. The queues and the connection are in order and have the capacity
  the protocol gives them (\<open>fifo_env\<close>); the order of the messages is kept through all of it.
\<close>

section \<open>Queues in order\<close>

text \<open>What the environment holds.\<close>

record view =
  v_commands :: "Command list"
  v_outbound :: "ChannelMessage list list"
  v_sent :: "bytes list"
  v_received :: "cipher_event list"
  v_inboxes :: "nat \<Rightarrow> message list option"
  v_hash :: "bytes option"

text \<open>\<open>async_channel\<close> and the connection are first in, first out; polls are pending only where nothing
  waits. The command queue holds \<open>cc\<close> commands and the outbound queue \<open>oc\<close> batches: a send resolves at
  once where there is room, and nothing is said of a send to a full queue. The inbound queue of a
  channel is unbounded.\<close>

definition fifo_env :: "nat \<Rightarrow> nat \<Rightarrow> 'w env \<Rightarrow> ('w \<Rightarrow> view) \<Rightarrow> bool" where
  "fifo_env cc oc E v \<longleftrightarrow> (\<forall>w.
     cipher_handshake_hash E w = v_hash (v w) \<and>
     (\<forall>c. length (v_commands (v w)) < cc \<longrightarrow> (\<exists>w'. command_tx_send E c w = (True, w') \<and>
        v w' = (v w)\<lparr>v_commands := v_commands (v w) @ [c]\<rparr>)) \<and>
     (v_commands (v w) = [] \<longrightarrow> (\<exists>w'. command_rx_poll E w = (Pending, w') \<and> v w' = v w)) \<and>
     (\<forall>c cs. v_commands (v w) = c # cs \<longrightarrow>
        (\<exists>w'. command_rx_poll E w = (Ready (Some c), w') \<and> v w' = (v w)\<lparr>v_commands := cs\<rparr>)) \<and>
     (\<forall>ms. length (v_outbound (v w)) < oc \<longrightarrow> (\<exists>w'. outbound_tx_send E ms w = (True, w') \<and>
        v w' = (v w)\<lparr>v_outbound := v_outbound (v w) @ [ms]\<rparr>)) \<and>
     (v_outbound (v w) = [] \<longrightarrow> (\<exists>w'. outbound_rx_poll E w = (Pending, w') \<and> v w' = v w)) \<and>
     (\<forall>ms mss. v_outbound (v w) = ms # mss \<longrightarrow>
        (\<exists>w'. outbound_rx_poll E w = (Ready (Some ms), w') \<and> v w' = (v w)\<lparr>v_outbound := mss\<rparr>)) \<and>
     (\<exists>w'. sink_poll_ready E w = (Ready (Inr ()), w') \<and> v w' = v w) \<and>
     (\<forall>buf. \<exists>w'. sink_start_send E buf w = (Inr (), w') \<and> v w' = (v w)\<lparr>v_sent := v_sent (v w) @ [buf]\<rparr>) \<and>
     (\<exists>w'. sink_poll_flush E w = (Ready (Inr ()), w') \<and> v w' = v w) \<and>
     (v_received (v w) = [] \<longrightarrow> (\<exists>w'. stream_poll_next E w = (Pending, w') \<and> v w' = v w)) \<and>
     (\<forall>e es. v_received (v w) = e # es \<longrightarrow>
        (\<exists>w'. stream_poll_next E w = (Ready (Some e), w') \<and> v w' = (v w)\<lparr>v_received := es\<rparr>)) \<and>
     (\<forall>i q m. v_inboxes (v w) i = Some q \<longrightarrow>
        (\<exists>w'. inbound_try_send E i m w = (Inr (), w') \<and>
           v w' = (v w)\<lparr>v_inboxes := (v_inboxes (v w))(i \<mapsto> q @ [m])\<rparr>)) \<and>
     (\<forall>i q m. v_inboxes (v w) i = Some (m # q) \<longrightarrow>
        (\<exists>w'. inbound_rx_poll E i w = (Ready (Some m), w') \<and>
           v w' = (v w)\<lparr>v_inboxes := (v_inboxes (v w))(i \<mapsto> q)\<rparr>)))"

text \<open>The application sends batches one after the other, and reads messages one after the other.\<close>

fun send_all ::
  "'w env \<Rightarrow> Channel \<Rightarrow> message list list \<Rightarrow> 'w sys \<Rightarrow> (io_error, unit) outcome \<times> 'w sys"
where
  "send_all E ch [] s = (Ok (), s)"
| "send_all E ch (b # bs) s =
     (case send_batch E ch b s of (Ok _, s) \<Rightarrow> send_all E ch bs s | (r, s) \<Rightarrow> (r, s))"

inductive receives :: "'w env \<Rightarrow> Channel \<Rightarrow> 'w sys \<Rightarrow> message list \<Rightarrow> 'w sys \<Rightarrow> bool" for E ch where
  receives_Nil: "receives E ch s [] s"
| receives_Cons: "Channel_poll_next E ch s = (Ready (Some m), s1) \<Longrightarrow> receives E ch s1 ms s2 \<Longrightarrow>
    receives E ch s (m # ms) s2"

text \<open>A message the wire carries.\<close>

definition carried :: "compact \<Rightarrow> message \<Rightarrow> bool" where
  "carried C m \<longleftrightarrow> typed_ok m \<and> length (Message_wire C m) < 2 ^ 64"

text \<open>A protocol after its handshake with nothing to do.\<close>

definition settled :: "Protocol \<Rightarrow> view \<Rightarrow> bool" where
  "settled p v \<longleftrightarrow> handshake_emitted p \<and> queued_events p = [] \<and> write_queue (p_io p) = [] \<and>
     v_commands v = [] \<and> v_hash v \<noteq> None"

lemma carried_on_channel: "carried C m \<Longrightarrow> on_channel C c (ChannelMessage_new c m)"
  by (cases m) (simp_all add: carried_def on_channel_def ChannelMessage_new_def)

section \<open>One side\<close>

locale fifo = compact_lib C for C +
  fixes cc oc :: nat and E :: "'w env" and v :: "'w \<Rightarrow> view"
  assumes fifo: "fifo_env cc oc E v"
begin

lemmas fifo_laws = fifo [unfolded fifo_env_def, rule_format]

lemma send_all_run:
  "\<not> closed ch s \<Longrightarrow> length (v_outbound (v (world s))) + length bs \<le> oc \<Longrightarrow> \<exists>w. send_all E ch bs s = (Ok (), s\<lparr>world := w\<rparr>) \<and>
     v w = (v (world s))\<lparr>v_outbound := v_outbound (v (world s)) @
       map (map (ChannelMessage_new (of_nat (ch_local_id ch)))) bs\<rparr>"
proof (induction bs arbitrary: s)
  case Nil
  then show ?case by (intro exI [of _ "world s"]) simp
next
  case (Cons b bs)
  let ?b = "map (ChannelMessage_new (of_nat (ch_local_id ch))) b"
  have room: "length (v_outbound (v (world s))) < oc" using Cons.prems(2) by simp
  obtain w1 where w1: "outbound_tx_send E ?b (world s) = (True, w1)"
    "v w1 = (v (world s))\<lparr>v_outbound := v_outbound (v (world s)) @ [?b]\<rparr>"
    using fifo_laws room by blast
  have "\<not> closed ch (s\<lparr>world := w1\<rparr>)" using Cons.prems(1) by (simp add: closed_def load_def)
  moreover have "length (v_outbound (v (world (s\<lparr>world := w1\<rparr>)))) + length bs \<le> oc"
    using Cons.prems(2) w1(2) by simp
  ultimately obtain w where "send_all E ch bs (s\<lparr>world := w1\<rparr>) = (Ok (), s\<lparr>world := w\<rparr>)"
    "v w = (v w1)\<lparr>v_outbound := v_outbound (v w1) @ map (map (ChannelMessage_new (of_nat (ch_local_id ch)))) bs\<rparr>"
    using Cons.IH [of "s\<lparr>world := w1\<rparr>"] by auto
  with w1 Cons.prems show ?case
    by (intro exI [of _ w]) (simp add: send_batch_def map_channel_err_def)
qed

text \<open>Typed messages pass the outbound handler as they are.\<close>

lemma retain_carried:
  "list_all (\<lambda>m. typed_ok (message m)) ms \<Longrightarrow> retain_outbound H ms st = (Ok ms, st)"
proof (induction ms)
  case (Cons m ms)
  then have "on_outbound_message H m st = (Ok True, st)"
    by (cases "message m") (simp_all add: on_outbound_message_def)
  with Cons show ?case by (simp add: then_do_def)
qed simp

lemma fold_enqueue: "fold enqueue ms io = io\<lparr>write_queue := write_queue io @ ms\<rparr>"
  by (induction ms arbitrary: io) (simp_all add: enqueue_def)

lemma on_outbound_carried:
  "list_all (\<lambda>m. typed_ok (message m)) ms \<Longrightarrow>
   on_outbound_messages H ms (p, s) =
     (Ok (), p\<lparr>p_io := (p_io p)\<lparr>write_queue := write_queue (p_io p) @ ms\<rparr>\<rparr>, s)"
  by (auto simp: on_outbound_messages_def return_unit_def then_do_def retain_carried fold_enqueue)

lemma fold_sent: "fold (\<lambda>buf x. x\<lparr>v_sent := v_sent x @ [buf]\<rparr>) fs x = x\<lparr>v_sent := v_sent x @ fs\<rparr>"
  by (induction fs arbitrary: x) simp_all

lemma drive_run:
  assumes "list_all single_ok (write_queue (p_io p))"
  obtains w where "drive_outbound C E (p, s) = (Ok (Ready ()), p\<lparr>p_io := (p_io p)\<lparr>write_queue := []\<rparr>\<rparr>, s\<lparr>world := w\<rparr>)"
    and "v w = (v (world s))\<lparr>v_sent := v_sent (v (world s)) @ map (frame C) (batches (write_queue (p_io p)))\<rparr>"
proof -
  obtain w where "outbound_loop C E True (write_queue (p_io p)) (world s) = (Ok (Ready ()), [], w)"
    "v w = fold (\<lambda>buf x. x\<lparr>v_sent := v_sent x @ [buf]\<rparr>) (map (frame C) (batches (write_queue (p_io p)))) (v (world s))"
    using outbound_loop_observed [OF assms, of E v "\<lambda>buf x. x\<lparr>v_sent := v_sent x @ [buf]\<rparr>" True "world s"]
      fifo_laws by blast
  with that [of w] show ?thesis
    by (simp add: drive_outbound_def poll_outbound_def set_world_def fold_sent)
qed

lemma write_run:
  "list_all single_ok (write_queue (p_io p)) \<Longrightarrow> v_outbound (v (world s)) = bs \<Longrightarrow>
   list_all (list_all (\<lambda>m. typed_ok (message m))) bs \<Longrightarrow>
   \<exists>w. poll_outbound_write C H E (p, s) = Some (Ok (), p\<lparr>p_io := (p_io p)\<lparr>write_queue := []\<rparr>\<rparr>, s\<lparr>world := w\<rparr>) \<and>
     v w = (v (world s))\<lparr>v_outbound := [],
       v_sent := v_sent (v (world s)) @ map (frame C) (concat (map batches (write_queue (p_io p) # bs)))\<rparr>"
proof (induction bs arbitrary: p s)
  case Nil
  obtain w1 where w1: "drive_outbound C E (p, s) = (Ok (Ready ()), p\<lparr>p_io := (p_io p)\<lparr>write_queue := []\<rparr>\<rparr>, s\<lparr>world := w1\<rparr>)"
    "v w1 = (v (world s))\<lparr>v_sent := v_sent (v (world s)) @ map (frame C) (batches (write_queue (p_io p)))\<rparr>"
    by (rule drive_run [OF Nil.prems(1)])
  have "v_outbound (v w1) = []" using w1(2) Nil.prems(2) by simp
  then obtain w where "outbound_rx_poll E w1 = (Pending, w)" "v w = v w1" using fifo_laws by blast
  with w1 Nil.prems(2) show ?case
    by (intro exI [of _ w]) (subst poll_outbound_write.simps, simp add: set_world_def)
next
  case (Cons b bs)
  obtain w1 where w1: "drive_outbound C E (p, s) = (Ok (Ready ()), p\<lparr>p_io := (p_io p)\<lparr>write_queue := []\<rparr>\<rparr>, s\<lparr>world := w1\<rparr>)"
    "v w1 = (v (world s))\<lparr>v_sent := v_sent (v (world s)) @ map (frame C) (batches (write_queue (p_io p)))\<rparr>"
    by (rule drive_run [OF Cons.prems(1)])
  have "v_outbound (v w1) = b # bs" using w1(2) Cons.prems(2) by simp
  then obtain w2 where w2: "outbound_rx_poll E w1 = (Ready (Some b), w2)" "v w2 = (v w1)\<lparr>v_outbound := bs\<rparr>"
    using fifo_laws by blast
  let ?p = "p\<lparr>p_io := (p_io p)\<lparr>write_queue := b\<rparr>\<rparr>" and ?s = "s\<lparr>world := w2\<rparr>"
  have b: "list_all (\<lambda>m. typed_ok (message m)) b" using Cons.prems(3) by simp
  have step: "poll_outbound_write C H E (p, s) = poll_outbound_write C H E (?p, ?s)"
    using w1(1) w2(1) on_outbound_carried [OF b, of H "p\<lparr>p_io := (p_io p)\<lparr>write_queue := []\<rparr>\<rparr>" ?s]
    by (subst poll_outbound_write.simps) (simp add: set_world_def)
  have ok: "single_ok m" if "typed_ok (message m)" for m using that by (cases "message m") simp_all
  have q: "list_all single_ok (write_queue (p_io ?p))" using b ok by (simp add: list_all_iff del: single_ok.simps)
  have out: "v_outbound (v (world ?s)) = bs" using w2(2) by simp
  have bs: "list_all (list_all (\<lambda>m. typed_ok (message m))) bs" using Cons.prems(3) by simp
  from Cons.IH [OF q out bs] step w1(2) w2(2) show ?case by auto
qed

text \<open>A frame is read, decoded and forwarded.\<close>

lemma forward_all:
  "routes p rid ch \<Longrightarrow> list_all (\<lambda>m. channel m = rid \<and> typed_ok (message m)) ms \<Longrightarrow>
   v_inboxes (v (world s)) (direct_inbound_tx ch) = Some q \<Longrightarrow>
   \<exists>w. on_inbound_channel_messages H E ms (p, s) = (Ok (), p, s\<lparr>world := w\<rparr>) \<and>
     v w = (v (world s))\<lparr>v_inboxes := (v_inboxes (v (world s)))(direct_inbound_tx ch \<mapsto> q @ map message ms)\<rparr>"
proof (induction ms arbitrary: s q)
  case Nil
  then show ?case by (intro exI [of _ "world s"]) (simp add: return_unit_def fun_upd_idem)
next
  case (Cons m ms)
  let ?i = "direct_inbound_tx ch"
  obtain w1 where w1: "inbound_try_send E ?i (message m) (world s) = (Inr (), w1)"
    "v w1 = (v (world s))\<lparr>v_inboxes := (v_inboxes (v (world s)))(?i \<mapsto> q @ [message m])\<rparr>"
    using fifo_laws Cons.prems(3) by blast
  obtain h where h: "get_remote (unat rid) (p_channels p) = Some h" "h_inbound_tx h = Some ?i"
    using Cons.prems(1) by (auto simp: routes_def)
  have one: "on_inbound_message H E m (p, s) = (Ok (), p, s\<lparr>world := w1\<rparr>)"
    using Cons.prems(2) h w1(1)
    by (cases "message m") (auto simp: on_inbound_message_def into_split_def forward_inbound_message_def try_send_inbound_def)
  have q1: "v_inboxes (v (world (s\<lparr>world := w1\<rparr>))) ?i = Some (q @ [message m])" using w1(2) by simp
  have ms: "list_all (\<lambda>m. channel m = rid \<and> typed_ok (message m)) ms" using Cons.prems(2) by simp
  from Cons.IH [OF Cons.prems(1) ms q1] obtain w where
    "on_inbound_channel_messages H E ms (p, s\<lparr>world := w1\<rparr>) = (Ok (), p, s\<lparr>world := w\<rparr>)"
    "v w = (v w1)\<lparr>v_inboxes := (v_inboxes (v w1))(?i \<mapsto> (q @ [message m]) @ map message ms)\<rparr>"
    by (elim exE conjE) (simp del: fun_upd_apply)
  with one w1(2) show ?case by (intro exI [of _ w]) (simp add: then_do_def del: fun_upd_apply)
qed

lemma read_nothing:
  assumes "v_received (v (world s)) = []"
  obtains w where "poll_inbound_read C H E (p, s) = Some (Ok (), p, s\<lparr>world := w\<rparr>)" and "v w = v (world s)"
proof -
  obtain w where "stream_poll_next E (world s) = (Pending, w)" "v w = v (world s)" using fifo_laws assms by blast
  then have "poll_inbound_read C H E (p, s) = Some (Ok (), p, s\<lparr>world := w\<rparr>)"
    by (subst poll_inbound_read.simps) (simp add: poll_inbound.simps set_world_def)
  then show ?thesis using \<open>v w = v (world s)\<close> by (rule that)
qed

lemma read_run:
  assumes r: "routes p rid ch"
  shows "v_received (v (world s)) = map (\<lambda>f. CipherMessage (frame C f)) fs \<Longrightarrow>
   list_all (\<lambda>f. vec_decode C (frame C f) = Some (Ok (f, [])) \<and>
     list_all (\<lambda>m. channel m = rid \<and> typed_ok (message m)) f) fs \<Longrightarrow>
   v_inboxes (v (world s)) (direct_inbound_tx ch) = Some q \<Longrightarrow>
   \<exists>w. poll_inbound_read C H E (p, s) = Some (Ok (), p, s\<lparr>world := w\<rparr>) \<and>
     v w = (v (world s))\<lparr>v_received := [], v_inboxes :=
       (v_inboxes (v (world s)))(direct_inbound_tx ch \<mapsto> q @ map message (concat fs))\<rparr>"
proof (induction fs arbitrary: s q)
  case Nil
  then have none: "v_received (v (world s)) = []" by simp
  obtain w where "poll_inbound_read C H E (p, s) = Some (Ok (), p, s\<lparr>world := w\<rparr>)" "v w = v (world s)"
    by (rule read_nothing [OF none])
  with none Nil.prems(3) show ?case by (intro exI [of _ w]) (simp add: fun_upd_idem)
next
  case (Cons f fs)
  let ?i = "direct_inbound_tx ch"
  have "v_received (v (world s)) = CipherMessage (frame C f) # map (\<lambda>f. CipherMessage (frame C f)) fs"
    using Cons.prems(1) by simp
  then obtain w1 where w1: "stream_poll_next E (world s) = (Ready (Some (CipherMessage (frame C f))), w1)"
    "v w1 = (v (world s))\<lparr>v_received := map (\<lambda>f. CipherMessage (frame C f)) fs\<rparr>"
    using fifo_laws by blast
  have f: "vec_decode C (frame C f) = Some (Ok (f, []))" "list_all (\<lambda>m. channel m = rid \<and> typed_ok (message m)) f"
    using Cons.prems(2) by simp_all
  have "v_inboxes (v (world (s\<lparr>world := w1\<rparr>))) ?i = Some q" using w1(2) Cons.prems(3) by simp
  from forward_all [OF r f(2) this] obtain w2 where
    w2: "on_inbound_channel_messages H E f (p, s\<lparr>world := w1\<rparr>) = (Ok (), p, s\<lparr>world := w2\<rparr>)"
    "v w2 = (v w1)\<lparr>v_inboxes := (v_inboxes (v w1))(?i \<mapsto> q @ map message f)\<rparr>"
    by auto
  have step: "poll_inbound_read C H E (p, s) = poll_inbound_read C H E (p, s\<lparr>world := w2\<rparr>)"
    using w1(1) f(1) w2(1) by (subst poll_inbound_read.simps) (simp add: poll_inbound.simps set_world_def del: frame.simps)
  have fs: "list_all (\<lambda>f. vec_decode C (frame C f) = Some (Ok (f, [])) \<and>
      list_all (\<lambda>m. channel m = rid \<and> typed_ok (message m)) f) fs" using Cons.prems(2) by (simp del: frame.simps)
  have "v_received (v (world (s\<lparr>world := w2\<rparr>))) = map (\<lambda>f. CipherMessage (frame C f)) fs"
    "v_inboxes (v (world (s\<lparr>world := w2\<rparr>))) ?i = Some (q @ map message f)"
    using w1(2) w2(2) by (simp_all del: frame.simps)
  from Cons.IH [OF this(1) fs this(2)] obtain w where
    "poll_inbound_read C H E (p, s\<lparr>world := w2\<rparr>) = Some (Ok (), p, s\<lparr>world := w\<rparr>)"
    "v w = (v w2)\<lparr>v_received := [],
       v_inboxes := (v_inboxes (v w2))(?i \<mapsto> (q @ map message f) @ map message (concat fs))\<rparr>"
    by (elim exE conjE) (simp del: fun_upd_apply)
  with step w1(2) w2(2) show ?case by (intro exI [of _ w]) (simp del: fun_upd_apply)
qed

text \<open>One poll of a settled protocol: it reads, has no command, writes what the application queued, and
  is pending.\<close>

lemma no_commands:
  assumes "v_commands (v (world s)) = []"
  obtains w where "poll_commands H E (p, s) = Some (Ok (), p, s\<lparr>world := w\<rparr>)" and "v w = v (world s)"
proof -
  obtain w where "command_rx_poll E (world s) = (Pending, w)" "v w = v (world s)" using fifo_laws assms by blast
  then have "poll_commands H E (p, s) = Some (Ok (), p, s\<lparr>world := w\<rparr>)"
    by (subst poll_commands.simps) (simp add: set_world_def)
  then show ?thesis using \<open>v w = v (world s)\<close> by (rule that)
qed

text \<open>A key the application opens is the command the next poll handles.\<close>

lemma open_commanded:
  assumes "v_commands (v (world s)) = []" and "0 < cc"
  obtains w w' where "Protocol_open E key (p, s) = (Ok (), p, s\<lparr>world := w\<rparr>)"
    and "poll_commands H E (p, s\<lparr>world := w\<rparr>) =
      (case command_open H E key (p, s\<lparr>world := w'\<rparr>) of
         (Ok _, st) \<Rightarrow> poll_commands H E st
       | (Err e, st) \<Rightarrow> Some (Err e, st)
       | (Panic, st) \<Rightarrow> Some (Panic, st))"
    and "v w' = v (world s)"
proof -
  obtain w where w: "command_tx_send E (Command_Open key) (world s) = (True, w)"
    "v w = (v (world s))\<lparr>v_commands := [Command_Open key]\<rparr>"
    using fifo_laws assms by (metis append_Nil list.size(3))
  then have "v_commands (v w) = [Command_Open key]" by simp
  then obtain w' where w': "command_rx_poll E w = (Ready (Some (Command_Open key)), w')"
    "v w' = (v w)\<lparr>v_commands := []\<rparr>" using fifo_laws by blast
  have "Protocol_open E key (p, s) = (Ok (), p, s\<lparr>world := w\<rparr>)"
    using w(1) by (simp add: Protocol_open_def CommandTx_open_def CommandTx_send_def map_channel_err_def set_world_def)
  moreover have "poll_commands H E (p, s\<lparr>world := w\<rparr>) =
      (case command_open H E key (p, s\<lparr>world := w'\<rparr>) of
         (Ok _, st) \<Rightarrow> poll_commands H E st
       | (Err e, st) \<Rightarrow> Some (Err e, st)
       | (Panic, st) \<Rightarrow> Some (Panic, st))"
    using w'(1) by (subst poll_commands.simps) (simp add: set_world_def)
  moreover have "v w' = v (world s)" using w(2) w'(2) assms by simp
  ultimately show ?thesis by (rule that)
qed

lemma poll_run:
  assumes set: "settled p (v (world s))"
    and read: "poll_inbound_read C H E (p, s) = Some (Ok (), p, s\<lparr>world := w1\<rparr>)"
    and cmd: "v_commands (v w1) = []"
    and out: "list_all (list_all (\<lambda>m. typed_ok (message m))) (v_outbound (v w1))"
  obtains w where "poll_next C H E (p, s) = Some (Ok Pending, p, s\<lparr>world := w\<rparr>)"
    and "v w = (v w1)\<lparr>v_outbound := [],
      v_sent := v_sent (v w1) @ map (frame C) (concat (map batches (v_outbound (v w1))))\<rparr>"
proof -
  have q: "write_queue (p_io p) = []" using set by (simp add: settled_def)
  then have p: "p\<lparr>p_io := (p_io p)\<lparr>write_queue := []\<rparr>\<rparr> = p" by simp
  obtain w2 where w2: "poll_commands H E (p, s\<lparr>world := w1\<rparr>) = Some (Ok (), p, s\<lparr>world := w2\<rparr>)" "v w2 = v w1"
    by (rule no_commands [of "s\<lparr>world := w1\<rparr>" H p]) (simp_all add: cmd)
  obtain w where w: "poll_outbound_write C H E (p, s\<lparr>world := w2\<rparr>) = Some (Ok (), p, s\<lparr>world := w\<rparr>)"
    "v w = (v w1)\<lparr>v_outbound := [],
      v_sent := v_sent (v w1) @ map (frame C) (concat (map batches (v_outbound (v w1))))\<rparr>"
    using write_run [of p "s\<lparr>world := w2\<rparr>" "v_outbound (v w1)" H] q p out w2(2) by auto
  have "handshake_hash E (p, s) \<noteq> None" using set fifo_laws by (simp add: handshake_hash_def settled_def)
  then have "poll_next C H E (p, s) = Some (Ok Pending, p, s\<lparr>world := w\<rparr>)"
    using set read w2(1) w(1)
    by (auto simp: poll_next_def poll_established_def settled_def or_return_def pop_event_def)
  then show ?thesis using w(2) by (rule that)
qed

lemma receives_run:
  "inbound_rx ch = Some i \<Longrightarrow> v_inboxes (v (world s)) i = Some q \<Longrightarrow>
   \<exists>w. receives E ch s q (s\<lparr>world := w\<rparr>) \<and> v_inboxes (v w) i = Some []"
proof (induction q arbitrary: s)
  case Nil
  then show ?case by (intro exI [of _ "world s"]) (simp add: receives_Nil)
next
  case (Cons m q)
  obtain w1 where w1: "inbound_rx_poll E i (world s) = (Ready (Some m), w1)"
    "v w1 = (v (world s))\<lparr>v_inboxes := (v_inboxes (v (world s)))(i \<mapsto> q)\<rparr>"
    using fifo_laws Cons.prems(2) by blast
  have "Channel_poll_next E ch s = (Ready (Some m), s\<lparr>world := w1\<rparr>)"
    using Cons.prems(1) w1(1) by (simp add: Channel_poll_next_def)
  moreover obtain w where "receives E ch (s\<lparr>world := w1\<rparr>) q (s\<lparr>world := w\<rparr>)" "v_inboxes (v w) i = Some []"
    using Cons.IH [of "s\<lparr>world := w1\<rparr>"] Cons.prems(1) w1(2) by auto
  ultimately show ?case by (intro exI [of _ w]) (blast intro: receives_Cons)
qed

text \<open>The sending side, and the receiving side.\<close>

lemma sends:
  assumes "settled p (v (world s))" and "v_received (v (world s)) = []" and "v_outbound (v (world s)) = []"
    and "\<not> closed ch s" and "list_all (list_all typed_ok) bs" and "length bs \<le> oc"
  obtains w w' where "send_all E ch bs s = (Ok (), s\<lparr>world := w\<rparr>)"
    and "poll_next C H E (p, s\<lparr>world := w\<rparr>) = Some (Ok Pending, p, s\<lparr>world := w'\<rparr>)"
    and "v_outbound (v w') = []"
    and "v_sent (v w') = v_sent (v (world s)) @ map (frame C) (concat (map batches
      (map (map (ChannelMessage_new (of_nat (ch_local_id ch)))) bs)))"
proof -
  let ?bs = "map (map (ChannelMessage_new (of_nat (ch_local_id ch)))) bs"
  obtain w where w: "send_all E ch bs s = (Ok (), s\<lparr>world := w\<rparr>)" "v w = (v (world s))\<lparr>v_outbound := ?bs\<rparr>"
    using send_all_run [OF assms(4), of bs] assms(3,6) by auto
  obtain w1 where w1: "poll_inbound_read C H E (p, s\<lparr>world := w\<rparr>) = Some (Ok (), p, s\<lparr>world := w1\<rparr>)" "v w1 = v w"
    by (rule read_nothing [of "s\<lparr>world := w\<rparr>" H p]) (simp_all add: w(2) assms(2))
  have "settled p (v (world (s\<lparr>world := w\<rparr>)))" using assms(1) w(2) by (simp add: settled_def)
  moreover have "v_commands (v w1) = []" using assms(1) w(2) w1(2) by (simp add: settled_def)
  moreover have "list_all (list_all (\<lambda>m. typed_ok (message m))) (v_outbound (v w1))"
    using assms(5) w(2) w1(2) by (simp add: list_all_iff ChannelMessage_new_def)
  moreover have "poll_inbound_read C H E (p, s\<lparr>world := w\<rparr>) = Some (Ok (), p, s\<lparr>world := w, world := w1\<rparr>)"
    using w1(1) by simp
  ultimately obtain w' where "poll_next C H E (p, s\<lparr>world := w\<rparr>) = Some (Ok Pending, p, s\<lparr>world := w, world := w'\<rparr>)"
    "v w' = (v w1)\<lparr>v_outbound := [],
      v_sent := v_sent (v w1) @ map (frame C) (concat (map batches (v_outbound (v w1))))\<rparr>"
    by (metis poll_run)
  with w(2) w1(2) show ?thesis by (intro that [OF w(1), of w']) simp_all
qed

lemma gets:
  assumes "settled p (v (world s))" and "v_outbound (v (world s)) = []" and r: "routes p rid ch"
    and "v_received (v (world s)) = map (\<lambda>f. CipherMessage (frame C f)) fs"
    and "list_all (\<lambda>f. vec_decode C (frame C f) = Some (Ok (f, [])) \<and>
      list_all (\<lambda>m. channel m = rid \<and> typed_ok (message m)) f) fs"
    and "v_inboxes (v (world s)) (direct_inbound_tx ch) = Some []"
  obtains w w' where "poll_next C H E (p, s) = Some (Ok Pending, p, s\<lparr>world := w\<rparr>)"
    and "receives E ch (s\<lparr>world := w\<rparr>) (map message (concat fs)) (s\<lparr>world := w'\<rparr>)"
    and "v_inboxes (v w') (direct_inbound_tx ch) = Some []"
proof -
  obtain w1 where w1: "poll_inbound_read C H E (p, s) = Some (Ok (), p, s\<lparr>world := w1\<rparr>)"
    "v w1 = (v (world s))\<lparr>v_received := [], v_inboxes :=
       (v_inboxes (v (world s)))(direct_inbound_tx ch \<mapsto> map message (concat fs))\<rparr>"
    using read_run [OF r assms(4-6), of H] by (auto simp del: fun_upd_apply frame.simps)
  obtain w where w: "poll_next C H E (p, s) = Some (Ok Pending, p, s\<lparr>world := w\<rparr>)"
    "v w = (v w1)\<lparr>v_outbound := [],
      v_sent := v_sent (v w1) @ map (frame C) (concat (map batches (v_outbound (v w1))))\<rparr>"
    by (rule poll_run [OF assms(1) w1(1)]) (use assms(1,2) w1(2) in \<open>simp_all add: settled_def\<close>)
  have i: "inbound_rx ch = Some (direct_inbound_tx ch)" using r by (auto simp: routes_def)
  from receives_run [OF i, of "s\<lparr>world := w\<rparr>" "map message (concat fs)"] w(2) w1(2)
  obtain w' where "receives E ch (s\<lparr>world := w\<rparr>) (map message (concat fs)) (s\<lparr>world := w'\<rparr>)"
    "v_inboxes (v w') (direct_inbound_tx ch) = Some []" by auto
  then show ?thesis by (rule that [OF w(1)])
qed

end

section \<open>What is sent and what is read\<close>

lemma batches_typed:
  assumes "compact_ok C" and "c \<noteq> 0" and "list_all (list_all (carried C)) bs"
  shows "list_all (\<lambda>f. vec_decode C (frame C f) = Some (Ok (f, [])) \<and>
      list_all (\<lambda>m. channel m = c \<and> typed_ok (message m)) f)
    (concat (map batches (map (map (ChannelMessage_new c)) bs)))"
proof -
  have "vec_decode C (frame C f) = Some (Ok (f, [])) \<and> list_all (\<lambda>m. channel m = c \<and> typed_ok (message m)) f"
    if b: "b \<in> set bs" and f: "f \<in> set (batches (map (ChannelMessage_new c) b))" for b f
  proof -
    have "list_all (on_channel C c) (map (ChannelMessage_new c) b)"
      using assms(3) b carried_on_channel by (auto simp: list_all_iff)
    then have "faithful_frame C f" using batches_faithful [OF assms(2) _ f] by blast
    moreover have "channel m = c \<and> typed_ok (message m)" if "m \<in> set f" for m
      using batches_subset [OF f] that assms(3) b
      by (auto simp: list_all_iff carried_def ChannelMessage_new_def)
    ultimately show ?thesis
      using compact_lib.vec_decode_frame [OF compact_lib.intro [OF assms(1)]] by (simp add: list_all_iff)
  qed
  then show ?thesis by (auto simp: list_all_iff simp del: frame.simps)
qed

lemma batches_contents:
  "map message (concat (concat (map batches (map (map (ChannelMessage_new c)) bs)))) = concat bs"
  by (induction bs) (simp_all add: concat_batches ChannelMessage_new_def o_def)

end
