(* ===== verification/Reference_World.thy ===== *)
theory Reference_World
  imports Progress Delivery Reference_Codec
begin

text \<open>
  A concrete environment: the connection and the queues as lists in memory. It shows that the
  hypotheses on the environment can hold, and the witnesses evaluate on it. \<open>mem_room\<close> is the
  number of frames the sink takes before it is pending.
\<close>

record mem =
  mem_in :: "cipher_event list"
  mem_out :: "bytes list"
  mem_room :: nat
  mem_local_key :: bytes
  mem_remote_key :: "bytes option"
  mem_hash :: "bytes option"
  mem_initiator :: bool
  mem_commands :: "Command list"
  mem_outbound :: "ChannelMessage list list"
  mem_inboxes :: "message list list"

definition mem_env :: "mem env" where
  "mem_env =
     \<lparr>stream_poll_next = (\<lambda>w. case mem_in w of
          [] \<Rightarrow> (Pending, w)
        | e # es \<Rightarrow> (Ready (Some e), w\<lparr>mem_in := es\<rparr>)),
      sink_poll_ready = (\<lambda>w. if mem_room w = 0 then (Pending, w) else (Ready (Inr ()), w)),
      sink_start_send = (\<lambda>buf w.
        (Inr (), w\<lparr>mem_out := mem_out w @ [buf], mem_room := mem_room w - 1\<rparr>)),
      sink_poll_flush = (\<lambda>w. (Ready (Inr ()), w)),
      cipher_remote_public_key = mem_remote_key,
      cipher_local_public_key = mem_local_key,
      cipher_handshake_hash = mem_hash,
      cipher_is_initiator = mem_initiator,
      command_rx_poll = (\<lambda>w. case mem_commands w of
          [] \<Rightarrow> (Pending, w)
        | c # cs \<Rightarrow> (Ready (Some c), w\<lparr>mem_commands := cs\<rparr>)),
      outbound_rx_poll = (\<lambda>w. case mem_outbound w of
          [] \<Rightarrow> (Pending, w)
        | m # ms \<Rightarrow> (Ready (Some m), w\<lparr>mem_outbound := ms\<rparr>)),
      command_tx_send = (\<lambda>c w. (True, w\<lparr>mem_commands := mem_commands w @ [c]\<rparr>)),
      outbound_tx_send = (\<lambda>m w. (True, w\<lparr>mem_outbound := mem_outbound w @ [m]\<rparr>)),
      channel_unbounded = (\<lambda>w. (length (mem_inboxes w), w\<lparr>mem_inboxes := mem_inboxes w @ [[]]\<rparr>)),
      inbound_try_send = (\<lambda>i m w.
        if i < length (mem_inboxes w)
        then (Inr (), w\<lparr>mem_inboxes := (mem_inboxes w)[i := mem_inboxes w ! i @ [m]]\<rparr>)
        else (Inl Closed, w)),
      inbound_rx_poll = (\<lambda>i w.
        if i < length (mem_inboxes w)
        then (case mem_inboxes w ! i of
            [] \<Rightarrow> (Pending, w)
          | m # ms \<Rightarrow> (Ready (Some m), w\<lparr>mem_inboxes := (mem_inboxes w)[i := ms]\<rparr>))
        else (Ready None, w))\<rparr>"

definition mem_new :: mem where
  "mem_new =
     \<lparr>mem_in = [], mem_out = [], mem_room = 8, mem_local_key = replicate 32 1,
      mem_remote_key = Some (replicate 32 2), mem_hash = Some (replicate 64 7),
      mem_initiator = True, mem_commands = [], mem_outbound = [], mem_inboxes = []\<rparr>"

definition mem_sys :: "mem \<Rightarrow> mem sys" where
  "mem_sys w = \<lparr>cells = [], world = w\<rparr>"

lemma mem_sink_ok: "sink_ok mem_env mem_out"
  by (simp add: sink_ok_def mem_env_def)

interpretation mem_sink: frame_sink ref_compact mem_env mem_out
  by unfold_locales (rule mem_sink_ok)

lemma mem_stream_bounded: "stream_bounded mem_env (\<lambda>w. length (mem_in w))"
  by (auto simp: stream_bounded_def mem_env_def split: list.splits)

interpretation mem_stream: bounded_stream ref_compact mem_env "\<lambda>w. length (mem_in w)"
  by unfold_locales (rule mem_stream_bounded)

text \<open>A session after its handshake, and one whose sink always takes a frame.\<close>

definition session_env :: "mem env" where
  "session_env = mem_env
     \<lparr>cipher_remote_public_key := \<lambda>_. Some (replicate 32 2),
      cipher_handshake_hash := \<lambda>_. Some (replicate 64 7)\<rparr>"

definition ready_env :: "mem env" where
  "ready_env = mem_env\<lparr>sink_poll_ready := \<lambda>w. (Ready (Inr ()), w)\<rparr>"

lemma ready_sink_ok: "sink_ok ready_env mem_out"
  by (simp add: sink_ok_def ready_env_def mem_env_def)

text \<open>Its queues are in order.\<close>

definition mem_view :: "mem \<Rightarrow> view" where
  "mem_view w =
     \<lparr>v_commands = mem_commands w, v_outbound = mem_outbound w, v_sent = mem_out w, v_received = mem_in w,
      v_inboxes = (\<lambda>i. if i < length (mem_inboxes w) then Some (mem_inboxes w ! i) else None),
      v_hash = mem_hash w\<rparr>"

lemma ready_fifo_env: "fifo_env cc oc ready_env mem_view"
  unfolding fifo_env_def
  by (auto simp: ready_env_def mem_env_def mem_view_def fun_eq_iff split: if_splits)

interpretation ready_fifo: fifo ref_compact CHANNEL_CAP CHANNEL_CAP ready_env mem_view
  by unfold_locales (rule ready_fifo_env)

text \<open>The number of items that wait in the queues bounds a poll.\<close>

definition mem_backlog :: "mem \<Rightarrow> nat" where
  "mem_backlog w = length (mem_in w) + length (mem_commands w) + length (mem_outbound w)"

lemma mem_env_bounded: "env_bounded mem_env mem_backlog"
  by (auto simp: env_bounded_def stream_bounded_def mem_env_def mem_backlog_def split: list.splits)

interpretation mem_bounded: bounded_env ref_compact mem_env mem_backlog
  by unfold_locales (rule mem_env_bounded)

text \<open>A session in which the queues only give values of their Rust types: keys of 32 bytes, messages
  with a wire form, and frames with channel numbers that a table can hold.\<close>

definition checked_command :: "Command \<Rightarrow> Command" where
  "checked_command c = (case c of Command_Open key \<Rightarrow> Command_Open (take 32 (key @ replicate 32 0)) | _ \<Rightarrow> c)"

definition checked_event :: "cipher_event \<Rightarrow> cipher_event" where
  "checked_event e = (case e of
       CipherMessage buf \<Rightarrow>
         if ids_ok ref_compact buf then e else ErrStuff (IoError InvalidData ''channel number'')
     | _ \<Rightarrow> e)"

definition checked_env :: "mem env" where
  "checked_env = session_env
     \<lparr>stream_poll_next := \<lambda>w. case mem_in w of
        [] \<Rightarrow> (Pending, w) | e # es \<Rightarrow> (Ready (Some (checked_event e)), w\<lparr>mem_in := es\<rparr>),
      command_rx_poll := \<lambda>w. case mem_commands w of
        [] \<Rightarrow> (Pending, w) | c # cs \<Rightarrow> (Ready (Some (checked_command c)), w\<lparr>mem_commands := cs\<rparr>),
      outbound_rx_poll := \<lambda>w. case mem_outbound w of
        [] \<Rightarrow> (Pending, w) | m # ms \<Rightarrow> (Ready (Some (filter app_ok m)), w\<lparr>mem_outbound := ms\<rparr>)\<rparr>"

lemma checked_env_bounded: "env_bounded checked_env mem_backlog"
  by (auto simp: env_bounded_def stream_bounded_def checked_env_def session_env_def mem_env_def
      mem_backlog_def split: list.splits)

lemma checked_event_ids: "checked_event e = CipherMessage buf \<Longrightarrow> ids_ok ref_compact buf"
  by (auto simp: checked_event_def split: cipher_event.splits if_splits)

lemma checked_command_key: "checked_command c = Command_Open key \<Longrightarrow> length key = 32"
  by (auto simp: checked_command_def split: Command.splits)

lemma checked_env_outbound: "outbound_ok checked_env"
  by (auto simp: outbound_ok_def checked_env_def list_all_iff split: list.splits)

lemma checked_env_session: "session_ok checked_env (replicate 64 7)"
  using checked_env_outbound
  by (auto simp: session_ok_def checked_env_def session_env_def dest: checked_command_key split: list.splits)

lemma checked_env_frames: "frames_ok ref_compact checked_env"
  by (auto simp: frames_ok_def checked_env_def dest: checked_event_ids split: list.splits)

interpretation checked_session: session ref_compact checked_env mem_backlog ref_crypto "replicate 64 7"
  by unfold_locales (rule checked_env_bounded checked_env_session checked_env_frames)+

end
