(* ===== verification/Example_Session.thy ===== *)
theory Example_Session
  imports History Reference_World
begin

text \<open>Concrete inputs. The session of two peers that both open the key of 32 bytes 9: the initiator's state after its
  own command, and after the \<open>Open\<close> of the other side. The witnesses below evaluate on them.\<close>

definition example_key :: bytes where
  "example_key = replicate 32 9"

definition example_hash :: bytes where
  "example_hash = replicate 64 7"

definition example_dk :: bytes where
  "example_dk = (case discovery_key ref_crypto example_key of Ok dk \<Rightarrow> dk | _ \<Rightarrow> [])"

definition example_cap :: bytes where
  "example_cap =
     (case replicate_capability ref_crypto False example_key example_hash of Ok c \<Rightarrow> c | _ \<Rightarrow> [])"

definition example_open :: "bytes option \<Rightarrow> Open" where
  "example_open cap = \<lparr>open_channel = 5, open_protocol = PROTOCOL_NAME,
     open_discovery_key = example_dk, open_capability = cap\<rparr>"

definition example_new :: "mem pstate" where
  "example_new = (Protocol_new session_env mem_new, mem_sys mem_new)"

definition example_opened :: "(io_error, unit) outcome \<times> mem pstate" where
  "example_opened = on_command ref_crypto session_env (Command_Open example_key) example_new"

definition example_connected :: "(io_error, unit) outcome \<times> mem pstate" where
  "example_connected = on_inbound_message ref_crypto session_env
     (ChannelMessage_new 5 (Open (example_open (Some example_cap)))) (snd example_opened)"

definition example_batch :: "ChannelMessage list" where
  "example_batch =
     [ChannelMessage_new 1 (Want \<lparr>want_start = 0, want_length = 8\<rparr>),
      ChannelMessage_new 1 (NoData \<lparr>nodata_request = 3\<rparr>)]"

text \<open>The two sides of the example, once their events and \<open>Open\<close> messages are out.\<close>

definition example_receiver :: Protocol where
  "example_receiver = (fst (snd example_connected))
     \<lparr>handshake_emitted := True, queued_events := [], p_io := MessageIo_new\<rparr>"

definition example_sender :: Protocol where
  "example_sender = (Protocol_new ready_env mem_new)\<lparr>handshake_emitted := True\<rparr>"

definition example_messages :: "message list" where
  "example_messages = map message example_batch"

text \<open>A connection that has an \<open>Open\<close> of a key unknown here, a sink that takes nothing, and a batch of the
  application with a local signal in it; and the protocol after its handshake event.\<close>

definition example_busy :: mem where
  "example_busy = mem_new\<lparr>mem_room := 0,
     mem_in := [CipherMessage (case encode_messages ref_compact
       [ChannelMessage_new 5 (Open (example_open None))] of Ok buf \<Rightarrow> buf | _ \<Rightarrow> [])],
     mem_outbound := [[ChannelMessage_new 1 (LocalSignal ''x'' []),
       ChannelMessage_new 1 (NoData \<lparr>nodata_request = 3\<rparr>)]]\<rparr>"

definition example_greeted :: Protocol where
  "example_greeted = (Protocol_new checked_env mem_new)\<lparr>handshake_emitted := True\<rparr>"

lemma example_dk: "discovery_key ref_crypto example_key = Ok example_dk"
  using ref_lib.discovery_key_defined [of example_key]
  by (auto simp: example_dk_def example_key_def)

lemma example_cap:
  "replicate_capability ref_crypto False example_key example_hash = Ok example_cap"
  using ref_lib.replicate_capability_defined [of example_hash False example_key]
  by (auto simp: example_cap_def example_hash_def)

lemma example_dk_length: "length example_dk = 32"
  by (rule discovery_key_length [OF example_dk])

lemma example_runs: "fst example_opened = Ok ()" "fst example_connected = Ok ()"
  by code_simp+

lemma example_opened_steps:
  "(pstep ref_crypto session_env (Commanded (Command_Open example_key)))\<^sup>*\<^sup>* example_new (snd example_opened)"
proof (rule handlesD [OF ref_lib.handles_on_command])
  show "proto_inv ref_crypto example_new" by (simp add: example_new_def proto_inv_new)
  show "on_command ref_crypto session_env (Command_Open example_key) example_new =
      (Ok (), snd example_opened)"
    using example_runs(1) by (simp add: example_opened_def prod_eq_iff)
qed simp_all

lemma example_opened_run: "quiet_run ref_crypto session_env example_new (snd example_opened)"
  by (rule quiet_run_steps [OF example_opened_steps]) simp

lemma example_opened_inv: "proto_inv ref_crypto (snd example_opened)"
  by (rule ref_lib.quiet_run_inv [OF example_opened_run]) (simp add: example_new_def proto_inv_new)

lemma example_connected_steps:
  "(pstep ref_crypto session_env (Received (ChannelMessage_new 5 (Open (example_open (Some example_cap))))))\<^sup>*\<^sup>*
     (snd example_opened) (snd example_connected)"
proof (rule handlesD [OF ref_lib.handles_on_inbound_message example_opened_inv])
  show "on_inbound_message ref_crypto session_env
      (ChannelMessage_new 5 (Open (example_open (Some example_cap)))) (snd example_opened) =
      (Ok (), snd example_connected)"
    using example_runs(2) by (simp add: example_connected_def prod_eq_iff)
qed simp_all

lemma example_connected_run: "quiet_run ref_crypto session_env (snd example_opened) (snd example_connected)"
  by (rule quiet_run_steps [OF example_connected_steps]) simp

lemma example_connected_inv: "proto_inv ref_crypto (snd example_connected)"
  by (rule ref_lib.quiet_run_inv [OF example_connected_run example_opened_inv])

lemma example_connected_events:
  "queued_events (fst (snd example_connected)) =
     [Event_Channel (Channel_new (Some 0) 0 example_dk example_key 1 0)]"
  by code_simp

lemma example_batch_sizes:
  "map (\<lambda>m. length (Message_wire ref_compact (message m))) example_batch = [3, 2]"
  by code_simp

lemma example_routes:
  "routes example_receiver 5 (Channel_new (Some 0) 0 example_dk example_key 1 0)"
proof -
  have "map_option (\<lambda>h. (h_inbound_tx h, h_discovery_key h, h_closed h))
      (get_remote 5 (p_channels (fst (snd example_connected)))) = Some (Some 0, example_dk, 0)"
    by code_simp
  then show ?thesis by (auto simp: routes_def example_receiver_def Channel_new_def)
qed

lemma session_env_hash: "session_hash session_env example_hash"
  by (simp add: session_hash_def session_env_def example_hash_def)

text \<open>Two polls: the handshake, and then, with the connection busy, the announcement.\<close>

lemma checked_env_first_poll:
  "poll_next ref_compact ref_crypto checked_env (Protocol_new checked_env mem_new, mem_sys mem_new) =
     Some (Ok (Ready (Event_Handshake (replicate 32 2))), example_greeted, mem_sys mem_new)"
  by (simp add: poll_next_def poll_established_def handshake_hash_def remote_public_key_def
      checked_env_def session_env_def Protocol_new_def example_greeted_def)

lemma example_second_poll:
  "map_option (\<lambda>(r, p, s). (r, queued_events p, write_queue (p_io p)))
     (poll_next ref_compact ref_crypto checked_env (example_greeted, mem_sys example_busy)) =
   Some (Ok (Ready (Event_DiscoveryKey example_dk)), [Event_LocalSignal ''x'' []],
     [ChannelMessage_new 1 (NoData \<lparr>nodata_request = 3\<rparr>)])"
  by code_simp

lemma example_history:
  obtains p s where "history ref_compact ref_crypto checked_env (Protocol_new checked_env mem_new, mem_sys mem_new)
      [Ok (Ready (Event_Handshake (replicate 32 2))), Ok (Ready (Event_DiscoveryKey example_dk))] (p, s)"
    and "queued_events p = [Event_LocalSignal ''x'' []]"
    and "write_queue (p_io p) = [ChannelMessage_new 1 (NoData \<lparr>nodata_request = 3\<rparr>)]"
proof -
  obtain p s where second: "poll_next ref_compact ref_crypto checked_env (example_greeted, mem_sys example_busy) =
      Some (Ok (Ready (Event_DiscoveryKey example_dk)), p, s)" "queued_events p = [Event_LocalSignal ''x'' []]"
    "write_queue (p_io p) = [ChannelMessage_new 1 (NoData \<lparr>nodata_request = 3\<rparr>)]"
    using example_second_poll by auto
  have "history ref_compact ref_crypto checked_env (Protocol_new checked_env mem_new, mem_sys mem_new)
      [Ok (Ready (Event_Handshake (replicate 32 2)))] (example_greeted, mem_sys mem_new)"
    using history_poll [OF history_Nil checked_env_first_poll] by simp
  then have "history ref_compact ref_crypto checked_env (Protocol_new checked_env mem_new, mem_sys mem_new)
      [Ok (Ready (Event_Handshake (replicate 32 2)))] (example_greeted, mem_sys example_busy)"
    by (rule history_tasks) (simp add: mem_sys_def cells_le_def)
  from history_poll [OF this second(1)] second(2,3) show ?thesis by (intro that) simp_all
qed

end
