(* ===== verification/Reference_Core.thy ===== *)
theory Reference_Core
  imports Exchange Example_Session
begin

text \<open>
  A concrete core: a log in memory, some of whose blocks are known. It shows that what the replication
  relies on can hold, and the witnesses evaluate on it. Proofs carry no signatures; a proof of another
  fork, or one that would exceed the largest length, is refused.
\<close>

record log =
  log_blocks :: "bytes option list"
  log_public_key :: bytes

definition log_info :: "log \<Rightarrow> Info" where
  "log_info c = \<lparr>info_fork = 0, info_length = of_nat (length (log_blocks c)),
     info_contiguous_length = of_nat (length (takeWhile (\<lambda>b. b \<noteq> None) (log_blocks c)))\<rparr>"

definition log_extend :: "DataUpgrade option \<Rightarrow> bytes option list \<Rightarrow> bytes option list" where
  "log_extend upgrade bs =
     (case upgrade of
        Some u \<Rightarrow> bs @ replicate (unat (du_start u) + unat (du_length u) - length bs) None
      | None \<Rightarrow> bs)"

definition log_put :: "DataBlock option \<Rightarrow> bytes option list \<Rightarrow> bytes option list" where
  "log_put block bs =
     (case block of Some b \<Rightarrow> bs[unat (db_index b) := Some (db_value b)] | None \<Rightarrow> bs)"

definition log_apply :: "Proof \<Rightarrow> log \<Rightarrow> (unit + bool) \<times> log" where
  "log_apply p c =
     (if proof_fork p \<noteq> 0 \<or>
         \<not> pred_option (\<lambda>u. unat (du_start u) + unat (du_length u) < 2 ^ 64) (proof_upgrade p)
      then (Inl (), c)
      else (Inr True, c\<lparr>log_blocks := log_put (proof_block p) (log_extend (proof_upgrade p) (log_blocks c))\<rparr>))"

definition log_proof :: "RequestBlock option \<Rightarrow> RequestBlock option \<Rightarrow> RequestSeek option \<Rightarrow>
    RequestUpgrade option \<Rightarrow> log \<Rightarrow> (unit + Proof option) \<times> log" where
  "log_proof block hash seek upgrade c =
     (Inr (Some \<lparr>proof_fork = 0,
        proof_block = (case block of
            Some b \<Rightarrow>
              (case vec_get (log_blocks c) (unat (rb_index b)) of
                 Some (Some v) \<Rightarrow> Some \<lparr>db_index = rb_index b, db_nodes = [], db_value = v\<rparr>
               | _ \<Rightarrow> None)
          | None \<Rightarrow> None),
        proof_hash = None, proof_seek = None,
        proof_upgrade = map_option (\<lambda>u. \<lparr>du_start = ru_start u, du_length = ru_length u, du_nodes = [],
          du_additional_nodes = [], du_signature = []\<rparr>) upgrade\<rparr>), c)"

definition log_core :: "(log, unit) hypercore" where
  "log_core = \<lparr>hc_info = log_info, hc_public_key = log_public_key, hc_create_proof = log_proof,
     hc_verify_and_apply_proof = log_apply, hc_missing_nodes = (\<lambda>_ c. (Inr 0, c)),
     hc_get = (\<lambda>i c. (Inr (case vec_get (log_blocks c) (unat i) of Some v \<Rightarrow> v | None \<Rightarrow> None), c))\<rparr>"

text \<open>A log of strings, and the proofs that keep it one.\<close>

definition log_ok :: "log \<Rightarrow> bool" where
  "log_ok c \<longleftrightarrow> length (log_blocks c) < 2 ^ 64 \<and>
     list_all (pred_option (\<lambda>v. utf8_bytes (map unat v))) (log_blocks c)"

definition log_proofs :: "Proof set" where
  "log_proofs = {p. proof_fork p = 0 \<and>
     pred_option (\<lambda>u. unat (du_start u) + unat (du_length u) < 2 ^ 64) (proof_upgrade p) \<and>
     pred_option (\<lambda>b. utf8_bytes (map unat (db_value b))) (proof_block p)}"

lemma log_extend_ok:
  "length bs < 2 ^ 64 \<Longrightarrow> pred_option (\<lambda>u. unat (du_start u) + unat (du_length u) < 2 ^ 64) upgrade \<Longrightarrow>
     length (log_extend upgrade bs) < 2 ^ 64"
  "list_all (pred_option f) bs \<Longrightarrow> list_all (pred_option f) (log_extend upgrade bs)"
  by (auto simp: log_extend_def list_all_iff split: option.split)

lemma log_put_ok:
  "length (log_put block bs) = length bs"
  "list_all (pred_option f) bs \<Longrightarrow> pred_option (\<lambda>b. f (db_value b)) block \<Longrightarrow>
     list_all (pred_option f) (log_put block bs)"
  by (auto simp: log_put_def list_all_iff split: option.split dest!: set_update_subset_insert [THEN subsetD])

lemma log_apply_ok:
  assumes "log_ok c" and "p \<in> log_proofs"
  shows "\<exists>b c'. log_apply p c = (Inr b, c') \<and> log_ok c'"
  using assms by (auto simp: log_apply_def log_proofs_def log_ok_def log_put_ok(1)
      intro!: log_extend_ok [simplified] log_put_ok(2))

lemma log_get_ok:
  assumes "log_ok c" and "i < info_contiguous_length (log_info c)"
  shows "\<exists>v. vec_get (log_blocks c) (unat i) = Some (Some v) \<and> utf8_bytes (map unat v)"
proof -
  let ?known = "takeWhile (\<lambda>b. b \<noteq> None) (log_blocks c)"
  have "length ?known \<le> length (log_blocks c)" by (rule length_takeWhile_le)
  with assms(1) have "length ?known < 2 ^ 64" unfolding log_ok_def by linarith
  with assms(2) have i: "unat i < length ?known"
    by (simp add: log_info_def word_less_nat_alt unat_of_nat_u64)
  then have "log_blocks c ! unat i \<in> set ?known" by (metis nth_mem takeWhile_nth)
  then obtain v where v: "log_blocks c ! unat i = Some v" "Some v \<in> set (log_blocks c)"
    by (auto dest: set_takeWhileD)
  have "unat i < length (log_blocks c)" using i length_takeWhile_le less_le_trans by blast
  with v assms(1) show ?thesis by (force simp: vec_get_def log_ok_def list_all_iff)
qed

lemma log_core_cooperates: "core_cooperates log_core log_ok log_proofs"
  using log_apply_ok log_get_ok by (fastforce simp: core_cooperates_def log_core_def)

lemma mem_queue_takes: "queue_takes mem_env mem_outbound"
  by (simp add: queue_takes_def mem_env_def)

interpretation log_replica: replica mem_env mem_outbound log_core log_ok log_proofs
  by unfold_locales (rule mem_queue_takes log_core_cooperates)+

text \<open>A log with all its blocks, and one that is filled from it.\<close>

definition log_full :: "bytes list \<Rightarrow> log \<Rightarrow> bool" where
  "log_full bs c \<longleftrightarrow> log_blocks c = map Some bs"

lemma log_origin:
  assumes "length bs < 2 ^ 64" and "\<forall>v \<in> set bs. utf8_bytes (map unat v)"
  shows "origin log_core (log_full bs) log_proofs (length bs) 0 (\<lambda>i. bs ! i)"
proof -
  have u: "unat (of_nat i :: u64) = i" if "i \<le> length bs" for i
    using that assms(1) unat_of_nat_u64 [of i] by linarith
  show ?thesis
    using assms(2) u
    by (auto simp: origin_def log_full_def log_core_def log_info_def log_proof_def log_proofs_def
        upgrade_proof_def block_proof_def vec_get_def assms(1) [simplified])
qed

lemma log_has: "has log_core c i v \<longleftrightarrow> vec_get (log_blocks c) (unat (of_nat i :: u64)) = Some (Some v)"
  by (auto simp: has_def log_core_def split: option.splits)

definition log_partial :: "nat \<Rightarrow> (nat \<Rightarrow> bytes) \<Rightarrow> log \<Rightarrow> bool" where
  "log_partial n val c \<longleftrightarrow> log_ok c \<and> length (log_blocks c) \<le> n \<and>
     (\<forall>i < length (log_blocks c). log_blocks c ! i \<in> {None, Some (val i)})"

lemma log_partial_upgrade:
  assumes "n < 2 ^ 64" and "log_partial n val c" and "p \<in> log_proofs" and "upgrade_proof n 0 p"
  shows "\<exists>b c'. log_apply p c = (Inr b, c') \<and> log_partial n val c' \<and>
    info_length (log_info c') = of_nat n \<and> keeps log_core c c'"
proof -
  let ?c = "c\<lparr>log_blocks := log_blocks c @ replicate (n - length (log_blocks c)) None\<rparr>"
  have "log_apply p c = (Inr True, ?c)"
    using assms(3,4) unat_of_nat_u64 [OF assms(1)]
    by (auto simp: log_apply_def log_proofs_def upgrade_proof_def log_put_def log_extend_def)
  moreover have "log_partial n val ?c"
    using assms(1,2) by (auto simp: log_partial_def log_ok_def list_all_iff nth_append)
  moreover have "keeps log_core c ?c" by (auto simp: keeps_def log_has vec_get_def nth_append split: if_splits)
  ultimately show ?thesis using assms(2) by (auto simp: log_info_def log_partial_def)
qed

lemma log_partial_block:
  assumes "n < 2 ^ 64" and "log_partial n val c" and "p \<in> log_proofs" and "i < n"
    and "block_proof 0 i (val i) p" and "info_length (log_info c) = of_nat n"
  shows "\<exists>b c'. log_apply p c = (Inr b, c') \<and> log_partial n val c' \<and>
    info_length (log_info c') = of_nat n \<and> keeps log_core c c' \<and> has log_core c' i (val i)"
proof -
  let ?c = "c\<lparr>log_blocks := (log_blocks c)[i := Some (val i)]\<rparr>"
  have len: "length (log_blocks c) = n"
  proof -
    have "length (log_blocks c) < 2 ^ 64" using assms(2) by (simp add: log_partial_def log_ok_def)
    from unat_of_nat_u64 [OF this] have "unat (info_length (log_info c)) = length (log_blocks c)"
      by (simp only: log_info_def Info.select_convs)
    with unat_of_nat_u64 [OF assms(1)] show ?thesis unfolding assms(6) by simp
  qed
  have i: "unat (of_nat i :: u64) = i" using assms(1,4) unat_of_nat_u64 [of i] by linarith
  have "log_apply p c = (Inr True, ?c)"
    using assms(3,5) i by (auto simp: log_apply_def log_proofs_def block_proof_def log_put_def log_extend_def)
  moreover have "utf8_bytes (map unat (val i))" using assms(3,5) by (auto simp: log_proofs_def block_proof_def)
  then have "log_partial n val ?c"
    using assms(2,4) len set_update_subset_insert [of "log_blocks c" i "Some (val i)"]
    by (auto simp: log_partial_def log_ok_def list_all_iff nth_list_update)
  moreover have "keeps log_core c ?c"
    using assms(2,4) len
    by (auto simp: keeps_def log_has vec_get_def nth_list_update log_partial_def split: if_splits)
  moreover have "has log_core ?c i (val i)" using len assms(4) i by (simp add: log_has vec_get_def)
  ultimately show ?thesis using len by (auto simp: log_info_def)
qed

lemma log_copies:
  assumes "n < 2 ^ 64"
  shows "copies log_core (log_partial n val) log_proofs n 0 val"
proof -
  have "\<exists>v. vec_get (log_blocks c) (unat i) = Some (Some v) \<and> utf8_bytes (map unat v)"
    if "log_partial n val c" "i < info_contiguous_length (log_info c)" for c i
    using log_get_ok that by (simp add: log_partial_def)
  moreover have "info_fork (log_info c) = 0" for c by (simp add: log_info_def)
  moreover have "keeps log_core c c" for c by (simp add: keeps_def)
  ultimately show ?thesis
    using log_partial_upgrade [OF assms, of val] log_partial_block [OF assms, of val]
    unfolding copies_def by (simp add: log_core_def) fastforce
qed

text \<open>The two ends of a connection in memory.\<close>

definition log_side :: "Channel \<Rightarrow> (mem, log, unit) side" where
  "log_side ch = \<lparr>s_env = mem_env, s_core = log_core, s_channel = ch, s_sent = mem_outbound\<rparr>"

text \<open>The messages of a remote with a log of strings, and a store with one core.\<close>

definition example_channel :: Channel where
  "example_channel = Channel_new (Some 0) 0 example_dk example_key 1 0"

definition example_sys :: "mem sys" where
  "example_sys = \<lparr>cells = [False], world = mem_new\<rparr>"

definition example_log :: "bytes list \<Rightarrow> log" where
  "example_log bs = \<lparr>log_blocks = map Some bs, log_public_key = example_key\<rparr>"

definition example_sync :: "u64 \<Rightarrow> Synchronize" where
  "example_sync n = \<lparr>sync_fork = 0, sync_length = n, sync_remote_length = 0, sync_downloading = True,
     sync_uploading = True, sync_can_upgrade = True\<rparr>"

definition example_upgrade :: "u64 \<Rightarrow> u64 \<Rightarrow> Data" where
  "example_upgrade start len = \<lparr>data_request = 1, data_fork = 0, data_block = None, data_hash = None,
     data_seek = None, data_upgrade = Some \<lparr>du_start = start, du_length = len, du_nodes = [],
       du_additional_nodes = [], du_signature = []\<rparr>\<rparr>"

definition example_block :: "nat \<Rightarrow> Data" where
  "example_block j = \<lparr>data_request = of_nat j + 1, data_fork = 0,
     data_block = Some \<lparr>db_index = of_nat j, db_nodes = [], db_value = [104, 105]\<rparr>, data_hash = None,
     data_seek = None, data_upgrade = None\<rparr>"

definition example_blocks :: "bytes list" where
  "example_blocks = [[104, 105], [111, 108, 97]]"

lemma example_channel_open: "\<not> closed example_channel example_sys"
  by (simp add: closed_def example_channel_def Channel_new_def example_sys_def load_def)

lemma example_proofs:
  "into_proof (example_upgrade 0 2) \<in> log_proofs" "into_proof (example_upgrade 4 1) \<in> log_proofs"
  "into_proof (example_block j) \<in> log_proofs"
  by (simp_all add: example_upgrade_def example_block_def log_proofs_def into_proof_def utf8_bytes.simps)

definition example_wrapper :: HypercoreWrapper where
  "example_wrapper = \<lparr>hw_discovery_key = example_dk, hw_key = example_key, hw_hypercore = 0\<rparr>"

lemma example_store: "store_of ref_crypto log_core (HypercoreStore_add ref_crypto example_wrapper HypercoreStore_new)"
  by (rule store_add [OF store_new, of _ _ 0 "example_log []"])
    (simp add: from_memory_hypercore_def log_core_def example_log_def example_dk example_wrapper_def)

lemma mem_commands_take: "commands_take mem_env mem_commands"
  by (simp add: commands_take_def mem_env_def)

lemma example_origin: "origin log_core (log_full example_blocks) log_proofs 2 0 (\<lambda>i. example_blocks ! i)"
proof -
  have len: "length example_blocks = 2" by (simp add: example_blocks_def)
  have "\<forall>v \<in> set example_blocks. utf8_bytes (map unat v)"
    by (simp add: example_blocks_def utf8_bytes.simps)
  from log_origin [OF _ this] show ?thesis by (simp add: len)
qed

interpretation log_exchange: exchange "log_side example_channel" "log_side example_channel"
    "log_full example_blocks" "log_partial 2 (\<lambda>i. example_blocks ! i)" log_proofs 2 0
    "\<lambda>i. example_blocks ! i" True
  using example_origin log_copies [of 2] mem_queue_takes by unfold_locales (simp_all add: log_side_def)

end
