(* ===== verification/Boxed_Stream.thy ===== *)
theory Boxed_Stream
  imports Prelude
begin

text \<open>
  \<open>stream.rs\<close>: \<open>BoxedStream\<close> hides the type of a stream behind a trait object. A type that implements
  \<open>Stream\<close> and \<open>Sink\<close> is a record of its methods on a state of an arbitrary type. The trait object is the
  codatatype of what can be observed of it: each method gives its answer and the object after the
  call. Boxing is corecursion, which makes the erasure of the type explicit. What a client sees is
  compared with the methods of the wrapped stream by running sequences of calls, and boxed objects
  with each other by coinduction.
\<close>

section \<open>Streams and sinks of byte vectors\<close>

text \<open>\<open>Stream<Item = Vec<u8>> + Sink<Vec<u8>>\<close>, with the conversion of its error into \<open>io::Error\<close>.\<close>

record ('s, 'e) byte_stream =
  bs_poll_next :: "'s \<Rightarrow> bytes option poll \<times> 's"
  bs_poll_ready :: "'s \<Rightarrow> ('e + unit) poll \<times> 's"
  bs_start_send :: "bytes \<Rightarrow> 's \<Rightarrow> ('e + unit) \<times> 's"
  bs_poll_flush :: "'s \<Rightarrow> ('e + unit) poll \<times> 's"
  bs_poll_close :: "'s \<Rightarrow> ('e + unit) poll \<times> 's"
  bs_into :: "'e \<Rightarrow> io_error"

section \<open>The trait and its implementation\<close>

codatatype BoxedStream = BoxedStream
  (inner_poll_next: "bytes option poll \<times> BoxedStream")
  (inner_poll_ready: "(io_error + unit) poll \<times> BoxedStream")
  (inner_start_send: "bytes \<Rightarrow> (io_error + unit) \<times> BoxedStream")
  (inner_poll_flush: "(io_error + unit) poll \<times> BoxedStream")
  (inner_poll_close: "(io_error + unit) poll \<times> BoxedStream")

text \<open>\<open>StreamSinkWrapper\<close>: forward the call, and \<open>map_err(Into::into)\<close>.\<close>

definition wrapper_poll_next :: "('s, 'e) byte_stream \<Rightarrow> 's \<Rightarrow> bytes option poll \<times> 's" where
  "wrapper_poll_next S s = bs_poll_next S s"

definition wrapper_poll_ready :: "('s, 'e) byte_stream \<Rightarrow> 's \<Rightarrow> (io_error + unit) poll \<times> 's" where
  "wrapper_poll_ready S s = map_prod (map_poll (map_sum (bs_into S) id)) id (bs_poll_ready S s)"

definition wrapper_start_send :: "('s, 'e) byte_stream \<Rightarrow> bytes \<Rightarrow> 's \<Rightarrow> (io_error + unit) \<times> 's" where
  "wrapper_start_send S item s = map_prod (map_sum (bs_into S) id) id (bs_start_send S item s)"

definition wrapper_poll_flush :: "('s, 'e) byte_stream \<Rightarrow> 's \<Rightarrow> (io_error + unit) poll \<times> 's" where
  "wrapper_poll_flush S s = map_prod (map_poll (map_sum (bs_into S) id)) id (bs_poll_flush S s)"

definition wrapper_poll_close :: "('s, 'e) byte_stream \<Rightarrow> 's \<Rightarrow> (io_error + unit) poll \<times> 's" where
  "wrapper_poll_close S s = map_prod (map_poll (map_sum (bs_into S) id)) id (bs_poll_close S s)"

primcorec BoxedStream_new :: "('s, 'e) byte_stream \<Rightarrow> 's \<Rightarrow> BoxedStream" where
  "BoxedStream_new S s = BoxedStream
     (map_prod id (BoxedStream_new S) (wrapper_poll_next S s))
     (map_prod id (BoxedStream_new S) (wrapper_poll_ready S s))
     (\<lambda>item. map_prod id (BoxedStream_new S) (wrapper_start_send S item s))
     (map_prod id (BoxedStream_new S) (wrapper_poll_flush S s))
     (map_prod id (BoxedStream_new S) (wrapper_poll_close S s))"

text \<open>The implementation of \<open>Stream\<close> and \<open>Sink\<close> for \<open>BoxedStream\<close> calls the object.\<close>

definition BoxedStream_poll_next :: "BoxedStream \<Rightarrow> bytes option poll \<times> BoxedStream" where
  "BoxedStream_poll_next b = inner_poll_next b"

definition BoxedStream_poll_ready :: "BoxedStream \<Rightarrow> (io_error + unit) poll \<times> BoxedStream" where
  "BoxedStream_poll_ready b = inner_poll_ready b"

definition BoxedStream_start_send :: "bytes \<Rightarrow> BoxedStream \<Rightarrow> (io_error + unit) \<times> BoxedStream" where
  "BoxedStream_start_send item b = inner_start_send b item"

definition BoxedStream_poll_flush :: "BoxedStream \<Rightarrow> (io_error + unit) poll \<times> BoxedStream" where
  "BoxedStream_poll_flush b = inner_poll_flush b"

definition BoxedStream_poll_close :: "BoxedStream \<Rightarrow> (io_error + unit) poll \<times> BoxedStream" where
  "BoxedStream_poll_close b = inner_poll_close b"

definition boxed :: "(BoxedStream, io_error) byte_stream" where
  "boxed = \<lparr>bs_poll_next = BoxedStream_poll_next, bs_poll_ready = BoxedStream_poll_ready,
     bs_start_send = BoxedStream_start_send, bs_poll_flush = BoxedStream_poll_flush,
     bs_poll_close = BoxedStream_poll_close, bs_into = id\<rparr>"

lemmas boxed_defs = boxed_def BoxedStream_poll_next_def BoxedStream_poll_ready_def
  BoxedStream_start_send_def BoxedStream_poll_flush_def BoxedStream_poll_close_def
lemmas wrapper_defs = wrapper_poll_next_def wrapper_poll_ready_def wrapper_start_send_def
  wrapper_poll_flush_def wrapper_poll_close_def

section \<open>What a client observes\<close>

datatype stream_op = PollNext | PollReady | StartSend bytes | PollFlush | PollClose

datatype stream_answer =
    NextIs "bytes option poll"
  | PollIs "(io_error + unit) poll"
  | SendIs "io_error + unit"

text \<open>One call of a method of the stream itself, with its error converted for the client of the crate.
  The wrapper and the object play no part in it.\<close>

fun call :: "('s, 'e) byte_stream \<Rightarrow> stream_op \<Rightarrow> 's \<Rightarrow> stream_answer \<times> 's" where
  "call S PollNext s = (case bs_poll_next S s of (r, s) \<Rightarrow> (NextIs r, s))"
| "call S PollReady s =
     (case bs_poll_ready S s of (r, s) \<Rightarrow> (PollIs (map_poll (map_sum (bs_into S) id) r), s))"
| "call S (StartSend item) s =
     (case bs_start_send S item s of (r, s) \<Rightarrow> (SendIs (map_sum (bs_into S) id r), s))"
| "call S PollFlush s =
     (case bs_poll_flush S s of (r, s) \<Rightarrow> (PollIs (map_poll (map_sum (bs_into S) id) r), s))"
| "call S PollClose s =
     (case bs_poll_close S s of (r, s) \<Rightarrow> (PollIs (map_poll (map_sum (bs_into S) id) r), s))"

fun drive :: "('s, 'e) byte_stream \<Rightarrow> stream_op list \<Rightarrow> 's \<Rightarrow> stream_answer list \<times> 's" where
  "drive S [] s = ([], s)"
| "drive S (op # ops) s =
     (let (a, s) = call S op s; (as, s) = drive S ops s in (a # as, s))"

lemma map_sum_id [simp]: "map_sum (\<lambda>x. x) (\<lambda>x. x) = id" "map_sum id id = id"
  by (simp_all add: sum.map_id0 flip: id_def)

lemma map_poll_id [simp]: "map_poll (\<lambda>x. x) = id" "map_poll id = id"
  by (simp_all add: poll.map_id0 flip: id_def)

lemma call_boxed: "call boxed op (BoxedStream_new S s) = map_prod id (BoxedStream_new S) (call S op s)"
  by (cases op) (simp_all add: boxed_defs wrapper_defs prod.map_comp comp_def map_prod_def
      split_beta id_def [symmetric])

lemma drive_boxed: "drive boxed ops (BoxedStream_new S s) = map_prod id (BoxedStream_new S) (drive S ops s)"
proof (induction ops arbitrary: s)
  case (Cons op ops)
  then show ?case by (simp add: call_boxed split_beta Let_def)
qed simp

text \<open>Boxing a boxed stream gives the same object.\<close>

lemma rebox: "BoxedStream_new boxed b = b"
proof (coinduction arbitrary: b)
  case Eq_BoxedStream
  show ?case
    by (auto simp: boxed_defs wrapper_defs rel_prod_conv rel_fun_def split_beta prod.map_id0)
qed

end
