(* ===== verification/Spec2Isabelle.thy ===== *)
theory Spec2Isabelle
  imports Reference_Core Delivery History Boxed_Stream
begin

text \<open>
  Verification of \<open>hypercore-protocol-rs\<close>, the wire protocol of hypercore in Rust.

  \<^bold>\<open>The program.\<close> A \<open>Protocol\<close> (\<open>src/src/protocol.rs\<close>) is a stream of events over an encrypted,
  framed connection. The application gives it commands (\<open>CommandTx\<close>) and messages of its channels;
  the peer sends frames. A channel for a key is handed out once both sides have opened it and the
  capability of the remote has been verified (\<open>src/src/crypto/handshake.rs\<close>). \<open>ChannelMap\<close>
  (\<open>src/src/channels.rs\<close>) keeps the channels with their local and remote ids; \<open>MessageIo\<close>
  (\<open>src/src/mqueue.rs\<close>) batches queued messages into frames and reads frames; \<open>src/src/message.rs\<close>
  and \<open>src/src/schema.rs\<close> encode and decode them. \<open>src/examples/replication.rs\<close> replicates cores over
  channels: a store of cores, a loop over the events of a connection, and a task per channel.

  \<^bold>\<open>The theories.\<close>
  \<^item> \<open>Prelude\<close>: machine words, the \<open>outcome\<close> of fallible code (\<open>Ok\<close>, \<open>Err\<close>, \<open>Panic\<close>), error values,
    encoders and decoders as functions on buffers, and their laws.
  \<^item> \<open>Compact\<close>: the crate \<open>compact_encoding\<close> and the structures of \<open>hypercore_schema\<close> as a record of
    functions with documented laws (\<open>compact_ok\<close>, locale \<open>compact_lib\<close>); \<open>wire_codec\<close> is the contract
    of one codec. \<open>Reference_Codec\<close> implements the record (\<open>ref_compact\<close>) and discharges the laws.
  \<^item> \<open>Schema\<close>: \<open>schema.rs\<close>, one record per struct, its size, encoder and decoder; each is a
    \<open>wire_codec\<close>.
  \<^item> \<open>Messages\<close>: \<open>message.rs\<close>. The batch loop and the frame loop are partial functions (\<open>None\<close> is
    divergence), proved to return on every input.
  \<^item> \<open>Handshake\<close>: \<open>handshake.rs\<close>, \<open>util.rs\<close>, \<open>constants.rs\<close> over a keyed hash and a hex encoding given
    as parameters (locale \<open>crypto_lib\<close>); \<open>ref_crypto\<close> instantiates them.
  \<^item> \<open>Environment\<close>: the cipher stream and the queues of \<open>async_channel\<close> as functions on an arbitrary
    state, the shared atomic flags as a store of cells, and the locale of inductive invariants.
  \<^item> \<open>Channels\<close>: \<open>channels.rs\<close>; the invariant \<open>cm_inv\<close> of the map, the step relation \<open>cm_step\<close> of its
    operations, and the refinement of an abstract registry (\<open>reg_step\<close>, \<open>abs_map\<close>), whose steps carry
    the operation, its arguments and its answer.
  \<^item> \<open>Mqueue\<close>: \<open>mqueue.rs\<close>; the batches of a queue, and locales for a sink that records what it is
    sent (\<open>frame_sink\<close>) and a stream with finitely many items ready (\<open>bounded_stream\<close>).
  \<^item> \<open>Protocol\<close>: \<open>protocol.rs\<close>; every handler is an action on the state, and a sequence of atomic
    steps \<open>pstep\<close> whose labels form the history of a \<open>run\<close>. Invariants and authentication are
    shown by induction over the history, polls by decomposing them into steps.
  \<^item> \<open>History\<close>: sequences of calls of \<open>poll_next\<close>, with other tasks in between, and what holds over them;
    each is a \<open>run\<close> of atomic steps.
  \<^item> \<open>Peers\<close>: two protocols of one session joined by the codec (\<open>deliver\<close>): opening, announcing and
    answering, and the routing of messages between the two channels.
  \<^item> \<open>Delivery\<close>: a message from one application to the other. Locale \<open>fifo\<close> states what the queues of
    \<open>async_channel\<close> and the connection promise over a \<open>view\<close> of the environment (first in, first out,
    a send resolves where the queue has room); in it a send, a poll of the sender, a poll of the receiver and the reads
    of the channel are composed.
  \<^item> \<open>Progress\<close>: polls return where finitely many items are ready (locale \<open>bounded_env\<close>), and do not
    panic in an established session (locale \<open>session\<close>).
  \<^item> \<open>Replication\<close>: \<open>replication.rs\<close> over the crate \<open>hypercore\<close> as a record of functions. A task is a
    function on its peer state, the core and the system; other tasks act between two messages. Locale
    \<open>replica\<close> is what a task relies on: a queue that takes its messages, and a core that verifies
    the proofs it is sent and has the blocks it claims.
  \<^item> \<open>Exchange\<close>: two such tasks that answer each other in any interleaving (\<open>net_step\<close>). Locale
    \<open>exchange\<close> assumes a core with all blocks (\<open>origin\<close>) and one that stores what it verifies
    (\<open>copies\<close>); an invariant over the phases of the exchange and a bound on the steps that are left
    show that it completes.
  \<^item> \<open>Boxed_Stream\<close>: \<open>stream.rs\<close>; the trait object as a codatatype, boxing as corecursion.
  \<^item> \<open>Reference_World\<close>, \<open>Example_Session\<close>, \<open>Reference_Core\<close>: a concrete connection and queues in
    memory, a session of two peers on it, and a core that is a log in memory, for the witnesses.

  \<^bold>\<open>The properties\<close>, in this theory, are stated over the parameters with the laws they need as
  hypotheses, and each that has one has a witness on concrete instances. They cover: authentication of
  channels; round trips, totality and error behaviour of the codecs; capabilities; consistency,
  refinement and closing of the channel map; delivery of queued messages; the handlers and polls of
  the protocol, that they return and do not panic; the well-formedness of discovery keys; two peers from opening
  a key to the messages that one application sends and the other reads; the replication of a core; the boxed stream; and the places where the code does not do what
  it means to.

  \<^bold>\<open>Bounds.\<close> Words keep their width. Lengths are natural numbers; \<open>usize\<close> is taken to be 64 bits,
  the command and outbound queues hold \<open>CHANNEL_CAP\<close> items, a vector holds at most \<open>isize::MAX\<close> bytes, and an allocation below that succeeds. No fuel is used:
  loops that may not end are partial functions with value \<open>None\<close>, and the theorems that they return
  say under which condition on the environment.

  \<^bold>\<open>Not modelled.\<close> \<open>Debug\<close> and \<open>Display\<close> output, logging and tracing, wakers (a \<open>poll\<close> is its answer and
  the state after it), the order of a \<open>HashMap\<close>, the text of formatted error messages (the values
  they are made of are kept), the drop of a whole \<open>Protocol\<close>, \<open>src/src/error.rs\<close> (conversions that no
  other module uses), \<open>src/src/lib.rs\<close> (re-exports), tests and benchmarks.
  Of \<open>replication.rs\<close>: \<open>main\<close>, the set-up of the cipher, the TCP server and client, and what is
  printed; the calls of the core that fetch what is printed are modelled.
\<close>

section \<open>Authentication of channels\<close>

text \<open>
  C1. In every history of a protocol instance (any interleaving of commands, received messages, outgoing
  messages and other tasks, after any errors), a channel is queued for or handed to the application
  only if the application had opened its key and the remote had sent an \<open>Open\<close> for the discovery key
  of that key with the capability that the other role computes from the key and the hash of this
  session.
\<close>

theorem channel_events_authentic:
  assumes "crypto_ok H" and "session_hash E hash"
    and "run H E (Protocol_new E w, s) tr (p, s')"
    and "Event_Channel ch \<in> set (queued_events p) \<or> Emitted (Event_Channel ch) \<in> set tr"
  shows "authentic H hash (cipher_is_initiator E w) tr ch"
  using crypto_lib.run_authentic [OF crypto_lib.intro [OF assms(1)] assms(3,2)] assms(4)
  by (auto simp: auth_inv_def)

theorem channel_events_authentic_witness:
  "\<exists>tr p s' ch. run ref_crypto session_env (Protocol_new session_env mem_new, mem_sys mem_new) tr (p, s') \<and>
     Event_Channel ch \<in> set (queued_events p) \<and>
     authentic ref_crypto example_hash (cipher_is_initiator session_env mem_new) tr ch"
proof -
  obtain tr where tr: "run ref_crypto session_env example_new tr (snd example_connected)"
    using quiet_run_trans [OF example_opened_run example_connected_run] by (auto simp: quiet_run_def)
  obtain p s' where ps: "snd example_connected = (p, s')" by fastforce
  have "Event_Channel (Channel_new (Some 0) 0 example_dk example_key 1 0) \<in> set (queued_events p)"
    using example_connected_events by (simp add: ps)
  with channel_events_authentic [OF ref_crypto_ok session_env_hash tr [unfolded ps example_new_def]] tr
  show ?thesis unfolding ps example_new_def by blast
qed

section \<open>Two peers\<close>

text \<open>
  C2. Two peers in one session that open the same key get connected: the \<open>Open\<close> of the first, sent as
  the bytes of its frame, is announced at the second; when the second opens the key too it gets its
  channel at once, and its own \<open>Open\<close> gives the first side a channel for the same key. Each side routes
  the local id of the other to its own channel, and from then on every typed message sent under the local id of one channel is put into the inbound queue of the
  other.
\<close>

theorem peers_connect:
  assumes "crypto_ok H" and "compact_ok C" and "proto_inv H (pa, sa)" and "proto_inv H (pb, sb)"
    and "in_session EA hash (pa, sa)" and "in_session EB hash (pb, sb)" and "queues_apart EB"
    and "p_is_initiator pa \<noteq> p_is_initiator pb" and "discovery_key H key = Ok dk"
    and "channels (p_channels pa) (hex_encode H dk) = None"
    and "channels (p_channels pb) (hex_encode H dk) = None"
    and "length (local_id (p_channels pa)) < vec_max_len"
    and "length (local_id (p_channels pb)) < vec_max_len"
  shows "\<exists>open_a open_b pa1 sa1 pb1 sb1 pb2 sb2 pa2 sa2 cha chb.
    command_open H EA key (pa, sa) = (Ok (), pa1, sa1) \<and>
    write_queue (p_io pa1) = write_queue (p_io pa) @ [open_a] \<and>
    deliver C H EB [open_a] (pb, sb) = (Ok (), pb1, sb1) \<and>
    queued_events pb1 = queued_events pb @ [Event_DiscoveryKey dk] \<and>
    command_open H EB key (pb1, sb1) = (Ok (), pb2, sb2) \<and>
    queued_events pb2 = queued_events pb1 @ [Event_Channel chb] \<and>
    write_queue (p_io pb2) = write_queue (p_io pb) @ [open_b] \<and>
    deliver C H EA [open_b] (pa1, sa1) = (Ok (), pa2, sa2) \<and>
    queued_events pa2 = queued_events pa @ [Event_Channel cha] \<and>
    ch_key cha = key \<and> ch_key chb = key \<and>
    routes pb2 (of_nat (ch_local_id cha)) chb \<and> routes pa2 (of_nat (ch_local_id chb)) cha \<and>
    (\<forall>msg w. typed_ok msg \<longrightarrow> inbound_try_send EB (direct_inbound_tx chb) msg (world sb2) = (Inr (), w) \<longrightarrow>
       deliver C H EB [ChannelMessage_new (of_nat (ch_local_id cha)) msg] (pb2, sb2) =
         (Ok (), pb2, sb2\<lparr>world := w\<rparr>)) \<and>
    (\<forall>msg w. typed_ok msg \<longrightarrow> inbound_try_send EA (direct_inbound_tx cha) msg (world sa2) = (Inr (), w) \<longrightarrow>
       deliver C H EA [ChannelMessage_new (of_nat (ch_local_id chb)) msg] (pa2, sa2) =
         (Ok (), pa2, sa2\<lparr>world := w\<rparr>))"
proof -
  have lib: "crypto_lib H" by (rule crypto_lib.intro [OF assms(1)])
  have ids: "local_id (p_channels pa) \<noteq> []" "local_id (p_channels pb) \<noteq> []"
    using assms(3,4) cm_inv_local_ids [of H "p_channels pa" sa] cm_inv_local_ids [of H "p_channels pb" sb]
    by (simp_all add: proto_inv_def)
  have roles: "(\<not> p_is_initiator pb) = p_is_initiator pa" "(\<not> p_is_initiator pa) = p_is_initiator pb"
    using assms(8) by blast+
  have "\<exists>c. replicate_capability H i key hash = Ok c \<and> length c = 32" for i
    using crypto_lib.replicate_capability_defined [OF lib] assms(5) by (simp add: in_session_def)
  then obtain ca cb where ca: "replicate_capability H (p_is_initiator pa) key hash = Ok ca" "length ca = 32"
    and cb: "replicate_capability H (p_is_initiator pb) key hash = Ok cb" by blast
  obtain ia ma where ia: "alloc_local (p_channels pa) = (ia, ma)" by fastforce
  obtain ib mb where ib: "alloc_local (p_channels pb) = (ib, mb)" by fastforce
  have small: "0 < ia" "ia + 1 \<le> vec_max_len" "0 < ib" "ib + 1 \<le> vec_max_len"
    using alloc_local_bound [OF ids(1) ia] alloc_local_bound [OF ids(2) ib] assms(12,13) by simp_all
  have nz: "of_nat ia \<noteq> (0 :: u64)" "of_nat ib \<noteq> (0 :: u64)"
    using small unat_of_nat_id [of ia] unat_of_nat_id [of ib] by auto
  obtain pa1 sa1 ha where a1: "command_open H EA key (pa, sa) = (Ok (), pa1, sa1)"
    "p_io pa1 = enqueue (open_message ia dk (Some ca)) (p_io pa)" "queued_events pa1 = queued_events pa"
    "p_is_initiator pa1 = p_is_initiator pa" "proto_inv H (pa1, sa1)" "in_session EA hash (pa1, sa1)"
    "world sa1 = world sa" "channels (p_channels pa1) (hex_encode H dk) = Some ha"
    "h_local_state ha = Some \<lparr>ls_key = key, ls_local_id = ia\<rparr>"
    by (rule crypto_lib.opens_first [OF lib assms(3,5,9,10) ca(1) ia])
  have caps: "replicate_capability H (\<not> p_is_initiator pb) key hash = Ok ca"
    "replicate_capability H (\<not> p_is_initiator pa1) key hash = Ok cb"
    using ca cb roles a1(4) by simp_all
  obtain pb1 sb1 pb2 sb2 chb where b: "deliver C H EB [open_message ia dk (Some ca)] (pb, sb) = (Ok (), pb1, sb1)"
    "queued_events pb1 = queued_events pb @ [Event_DiscoveryKey dk]"
    "command_open H EB key (pb1, sb1) = (Ok (), pb2, sb2)"
    "write_queue (p_io pb2) = write_queue (p_io pb) @ [open_message ib dk (Some cb)]"
    "queued_events pb2 = queued_events pb1 @ [Event_Channel chb]"
    "ch_key chb = key" "ch_local_id chb = ib" "routes pb2 (of_nat ia) chb"
    by (rule crypto_lib.hears_and_opens [OF lib assms(2,4,6,7,9) small(2) assms(11) caps(1) cb ib])
  obtain pa2 sa2 cha where a2: "deliver C H EA [open_message ib dk (Some cb)] (pa1, sa1) = (Ok (), pa2, sa2)"
    "p_io pa2 = p_io pa1" "queued_events pa2 = queued_events pa1 @ [Event_Channel cha]" "ch_key cha = key"
    "ch_discovery_key cha = dk" "ch_local_id cha = ia" "routes pa2 (of_nat ib) cha"
    by (rule crypto_lib.hears_answer [OF lib assms(2) a1(5,6) assms(9) small(4) a1(8,9) caps(2)])
  have queue: "write_queue (p_io pa1) = write_queue (p_io pa) @ [open_message ia dk (Some ca)]"
    unfolding a1(2) by (simp add: enqueue_def)
  have event: "queued_events pa2 = queued_events pa @ [Event_Channel cha]" using a2(3) a1(3) by simp
  show ?thesis
    by (intro exI conjI allI impI, rule a1(1), rule queue, rule b(1), rule b(2), rule b(3), rule b(5),
        rule b(4), rule a2(1), rule event, rule a2(4), rule b(6))
      (auto simp: a2(6) b(7) nz intro: b(8) a2(7) routes_deliver [OF assms(2) b(8)] routes_deliver [OF assms(2) a2(7)])
qed

theorem peers_connect_witness:
  "\<exists>pa1 sa1 open_a pb1 sb1 pb2 sb2 chb.
     command_open ref_crypto session_env example_key (Protocol_new session_env mem_new, mem_sys mem_new) =
       (Ok (), pa1, sa1) \<and> write_queue (p_io pa1) = [open_a] \<and>
     deliver ref_compact ref_crypto session_env [open_a]
       (Protocol_new session_env (mem_new\<lparr>mem_initiator := False\<rparr>), mem_sys mem_new) = (Ok (), pb1, sb1) \<and>
     command_open ref_crypto session_env example_key (pb1, sb1) = (Ok (), pb2, sb2) \<and>
     queued_events pb2 = [Event_DiscoveryKey example_dk, Event_Channel chb] \<and> ch_key chb = example_key"
proof -
  have sess: "in_session session_env example_hash st" for st
    by (cases st) (simp add: in_session_def remote_public_key_def handshake_hash_def session_env_def
        example_hash_def)
  have apart: "queues_apart session_env" by (simp add: queues_apart_def session_env_def)
  from peers_connect [OF ref_crypto_ok ref_compact_ok proto_inv_new proto_inv_new sess sess apart _ example_dk,
      of session_env mem_new session_env "mem_new\<lparr>mem_initiator := False\<rparr>" "mem_sys mem_new" "mem_sys mem_new"]
  show ?thesis
    by (fastforce simp: Protocol_new_def ChannelMap_new_def MessageIo_new_def vec_max_len_def
        session_env_def mem_env_def mem_new_def)
qed

text \<open>
  C3. What the application of one peer sends on a channel reaches the application of the other, where
  the queues and the connection are in order and have the capacity the protocols gave them
  (\<open>fifo_env\<close>), not more batches are sent than the outbound queue holds, and both protocols are past
  their handshake with nothing else to do (\<open>settled\<close>): the sends resolve, one poll of the sender hands
  the messages to the sink as frames, and when the receiver, whose channel is the one the sender's id
  routes to, is polled with these frames on its connection, its channel yields exactly the messages
  sent, in the order they were sent. Both polls return and are pending, and nothing is left in the
  queues.
\<close>

theorem messages_arrive:
  assumes C: "compact_ok C" and A: "fifo_env (command_cap pa) (outbound_cap pa) EA va"
    and B: "fifo_env (command_cap pb) (outbound_cap pb) EB vb"
    and "settled pa (va (world sa))" and "v_received (va (world sa)) = []" and "v_outbound (va (world sa)) = []"
    and "\<not> closed cha sa" and bs: "list_all (list_all (carried C)) bs"
    and cap: "length bs \<le> outbound_cap pa"
    and r: "routes pb (of_nat (ch_local_id cha)) chb" and id: "(of_nat (ch_local_id cha) :: u64) \<noteq> 0"
  shows "\<exists>wa wa' frames. send_all EA cha bs sa = (Ok (), sa\<lparr>world := wa\<rparr>) \<and>
    poll_next C H EA (pa, sa\<lparr>world := wa\<rparr>) = Some (Ok Pending, pa, sa\<lparr>world := wa'\<rparr>) \<and>
    v_outbound (va wa') = [] \<and> v_sent (va wa') = v_sent (va (world sa)) @ frames \<and>
    (\<forall>sb. settled pb (vb (world sb)) \<longrightarrow> v_outbound (vb (world sb)) = [] \<longrightarrow>
       v_inboxes (vb (world sb)) (direct_inbound_tx chb) = Some [] \<longrightarrow>
       v_received (vb (world sb)) = map CipherMessage frames \<longrightarrow>
       (\<exists>wb wb'. poll_next C H EB (pb, sb) = Some (Ok Pending, pb, sb\<lparr>world := wb\<rparr>) \<and>
          receives EB chb (sb\<lparr>world := wb\<rparr>) (concat bs) (sb\<lparr>world := wb'\<rparr>) \<and>
          v_inboxes (vb wb') (direct_inbound_tx chb) = Some []))"
proof -
  let ?fs = "concat (map batches (map (map (ChannelMessage_new (of_nat (ch_local_id cha)))) bs))"
  have fifo: "fifo C (command_cap pa) (outbound_cap pa) EA va" "fifo C (command_cap pb) (outbound_cap pb) EB vb"
    by (intro fifo.intro compact_lib.intro fifo_axioms.intro C A B)+
  have "list_all (list_all typed_ok) bs" using bs by (auto simp: list_all_iff carried_def)
  from fifo.sends [OF fifo(1) assms(4-7) this cap]
  obtain wa wa' where sent: "send_all EA cha bs sa = (Ok (), sa\<lparr>world := wa\<rparr>)"
    "poll_next C H EA (pa, sa\<lparr>world := wa\<rparr>) = Some (Ok Pending, pa, sa\<lparr>world := wa'\<rparr>)"
    "v_outbound (va wa') = []" "v_sent (va wa') = v_sent (va (world sa)) @ map (frame C) ?fs" .
  have "\<exists>wb wb'. poll_next C H EB (pb, sb) = Some (Ok Pending, pb, sb\<lparr>world := wb\<rparr>) \<and>
      receives EB chb (sb\<lparr>world := wb\<rparr>) (concat bs) (sb\<lparr>world := wb'\<rparr>) \<and>
      v_inboxes (vb wb') (direct_inbound_tx chb) = Some []"
    if "settled pb (vb (world sb))" "v_outbound (vb (world sb)) = []"
      "v_inboxes (vb (world sb)) (direct_inbound_tx chb) = Some []"
      "v_received (vb (world sb)) = map CipherMessage (map (frame C) ?fs)" for sb
  proof -
    have "v_received (vb (world sb)) = map (\<lambda>f. CipherMessage (frame C f)) ?fs"
      unfolding that(4) map_map o_def ..
    from fifo.gets [OF fifo(2) that(1,2) r this batches_typed [OF C id bs] that(3)]
    show ?thesis unfolding batches_contents by blast
  qed
  with sent show ?thesis by blast
qed

theorem messages_arrive_witness:
  "\<exists>wa wa' wb wb'.
     send_all ready_env (Channel_new (Some 0) 0 example_dk example_key 5 0) [example_messages, example_messages]
       \<lparr>cells = [False], world = mem_new\<rparr> = (Ok (), \<lparr>cells = [False], world = wa\<rparr>) \<and>
     poll_next ref_compact ref_crypto ready_env (example_sender, \<lparr>cells = [False], world = wa\<rparr>) =
       Some (Ok Pending, example_sender, \<lparr>cells = [False], world = wa'\<rparr>) \<and>
     poll_next ref_compact ref_crypto ready_env (example_receiver, \<lparr>cells = [False],
         world = mem_new\<lparr>mem_in := map CipherMessage (mem_out wa'), mem_inboxes := [[]]\<rparr>\<rparr>) =
       Some (Ok Pending, example_receiver, \<lparr>cells = [False], world = wb\<rparr>) \<and>
     receives ready_env (Channel_new (Some 0) 0 example_dk example_key 1 0) \<lparr>cells = [False], world = wb\<rparr>
       (example_messages @ example_messages) \<lparr>cells = [False], world = wb'\<rparr>"
proof -
  let ?a = "Channel_new (Some 0) 0 example_dk example_key 5 0"
    and ?b = "Channel_new (Some 0) 0 example_dk example_key 1 0" and ?s = "\<lambda>w. \<lparr>cells = [False], world = w\<rparr>"
  have A: "settled example_sender (mem_view (world (?s mem_new)))" "v_received (mem_view (world (?s mem_new))) = []"
    "v_outbound (mem_view (world (?s mem_new))) = []" "\<not> closed ?a (?s mem_new)"
    by (simp_all add: settled_def example_sender_def Protocol_new_def MessageIo_new_def mem_view_def mem_new_def
        closed_def load_def Channel_new_def)
  have m: "list_all (list_all (carried ref_compact)) [example_messages, example_messages]"
    using example_batch_sizes
    by (simp add: example_messages_def example_batch_def ChannelMessage_new_def carried_def)
  have cap: "length [example_messages, example_messages] \<le> outbound_cap example_sender"
    by (simp add: example_sender_def Protocol_new_def CHANNEL_CAP_def)
  have r: "routes example_receiver (of_nat (ch_local_id ?a)) ?b" "(of_nat (ch_local_id ?a) :: u64) \<noteq> 0"
    using example_routes by (simp_all add: Channel_new_def)
  have B: "settled example_receiver (mem_view (world (?s (mem_new\<lparr>mem_in := fs, mem_inboxes := [[]]\<rparr>))))" for fs
    by (simp add: settled_def example_receiver_def MessageIo_new_def mem_view_def mem_new_def)
  from messages_arrive [OF ref_compact_ok ready_fifo_env ready_fifo_env A m cap r, of ref_crypto]
  obtain wa wa' frames where w: "send_all ready_env ?a [example_messages, example_messages] (?s mem_new) = (Ok (), ?s wa)"
    "poll_next ref_compact ref_crypto ready_env (example_sender, ?s wa) = Some (Ok Pending, example_sender, ?s wa')"
    "mem_out wa' = frames" and get: "\<forall>sb. settled example_receiver (mem_view (world sb)) \<longrightarrow>
       v_outbound (mem_view (world sb)) = [] \<longrightarrow> v_inboxes (mem_view (world sb)) (direct_inbound_tx ?b) = Some [] \<longrightarrow>
       v_received (mem_view (world sb)) = map CipherMessage frames \<longrightarrow>
       (\<exists>wb wb'. poll_next ref_compact ref_crypto ready_env (example_receiver, sb) =
            Some (Ok Pending, example_receiver, sb\<lparr>world := wb\<rparr>) \<and>
          receives ready_env ?b (sb\<lparr>world := wb\<rparr>) (concat [example_messages, example_messages]) (sb\<lparr>world := wb'\<rparr>) \<and>
          v_inboxes (mem_view wb') (direct_inbound_tx ?b) = Some [])"
    by (auto simp: mem_view_def mem_new_def)
  from get [rule_format, of "?s (mem_new\<lparr>mem_in := map CipherMessage frames, mem_inboxes := [[]]\<rparr>)", OF B] w show ?thesis
    by (simp add: mem_view_def mem_new_def Channel_new_def) blast
qed

section \<open>Frames\<close>

text \<open>
  C4. A vector of channel messages that a frame can carry (an \<open>Open\<close> or \<open>Close\<close> alone that names its
  channel, one typed message on a channel other than 0, a batch of typed messages of one channel) is
  encoded without error, and the decoder gives back exactly that vector and no rest.
\<close>

theorem frame_roundtrip:
  assumes "compact_ok C" and "faithful_frame C ms"
  shows "\<exists>buf. encode_messages C ms = Ok buf \<and> vec_decode C buf = Some (Ok (ms, []))"
  using compact_lib.to_encoded_bytes_frame [OF compact_lib.intro [OF assms(1)] faithful_frame_ok [OF assms(2)]]
    compact_lib.vec_decode_frame [OF compact_lib.intro [OF assms(1)] assms(2)]
  by (simp add: encode_messages_def)

lemma example_batch_sized: "sized_batch ref_compact example_batch"
  using example_batch_sizes by (simp add: sized_batch_def example_batch_def ChannelMessage_new_def)

lemma example_batch_faithful: "faithful_frame ref_compact example_batch"
  using example_batch_sized
  by (simp add: faithful_frame_def example_batch_def ChannelMessage_new_def)

theorem frame_roundtrip_witness:
  "faithful_frame ref_compact example_batch \<and>
   (\<exists>buf. encode_messages ref_compact example_batch = Ok buf \<and>
      vec_decode ref_compact buf = Some (Ok (example_batch, [])))"
  using frame_roundtrip [OF ref_compact_ok example_batch_faithful] example_batch_faithful by blast

text \<open>
  C5. On every byte string the decoder of a frame returns: it neither loops nor panics, and where it
  succeeds it has used the whole input.
\<close>

theorem decoder_total:
  assumes "compact_ok C"
  shows "\<exists>r. vec_decode C buf = Some r \<and> r \<noteq> Panic \<and> (\<forall>ms rest. r = Ok (ms, rest) \<longrightarrow> rest = [])"
  by (rule compact_lib.vec_decode_returns [OF compact_lib.intro [OF assms]])

theorem decoder_total_witness:
  "compact_ok ref_compact \<and>
   (\<exists>r. vec_decode ref_compact [0, 0, 1, 200] = Some r \<and> r \<noteq> Panic \<and>
      (\<forall>ms rest. r = Ok (ms, rest) \<longrightarrow> rest = []))"
  using decoder_total [OF ref_compact_ok] ref_compact_ok by blast

text \<open>
  C6. A batch of two or more typed messages on channels other than 0 is decoded to what was encoded
  exactly when all of them belong to one channel: the decoder reads a channel number from the
  separator byte that announces one.
\<close>

theorem batch_roundtrip_iff_single_channel:
  assumes "compact_ok C" and "2 \<le> length ms" and "sized_batch C ms"
    and "list_all (\<lambda>m. channel m \<noteq> 0) ms"
  shows "encode_messages C ms = Ok (frame C ms) \<and>
    (vec_decode C (frame C ms) = Some (Ok (ms, [])) \<longleftrightarrow> single_channel ms)"
proof -
  have lib: "compact_lib C" by (rule compact_lib.intro [OF assms(1)])
  have "frame_ok ms"
    using assms(2) sized_typed [OF assms(3)]
    by (cases ms rule: remdups_adj.cases) (simp_all add: frame_ok_def)
  then show ?thesis
    using compact_lib.to_encoded_bytes_frame [OF lib] compact_lib.vec_decode_batch_iff [OF lib assms(2-4)]
    by (simp add: encode_messages_def)
qed

theorem batch_roundtrip_iff_single_channel_witness:
  "vec_decode ref_compact (frame ref_compact (map (channel_update (\<lambda>_. 2)) [hd example_batch] @ tl example_batch))
     \<noteq> Some (Ok (map (channel_update (\<lambda>_. 2)) [hd example_batch] @ tl example_batch, []))"
proof -
  let ?ms = "map (channel_update (\<lambda>_. 2)) [hd example_batch] @ tl example_batch"
  have "sized_batch ref_compact ?ms"
    using example_batch_sized by (simp add: sized_batch_def example_batch_def ChannelMessage_new_def)
  from batch_roundtrip_iff_single_channel [OF ref_compact_ok _ this]
  show ?thesis by (simp add: example_batch_def ChannelMessage_new_def single_channel_def)
qed

section \<open>Messages and their structures\<close>

text \<open>
  C7. Every typed message round-trips: its announced size is exact, it is written at the front of any
  buffer with room and refused with an error by a shorter one, and its bytes decode to it wherever
  they stand.
\<close>

theorem message_roundtrip:
  assumes "compact_ok C" and "typed_ok m"
  shows "roundtrips (Message_encoded_size C) (Message_encode C) (Message_decode C) m"
  by (rule compact_lib.all_roundtrips(1) [OF compact_lib.intro [OF assms(1)] assms(2)])

theorem message_roundtrip_witness:
  "typed_ok (Range_msg \<lparr>range_drop = True, range_start = 4, range_length = 1\<rparr>) \<and>
   roundtrips (Message_encoded_size ref_compact) (Message_encode ref_compact)
     (Message_decode ref_compact) (Range_msg \<lparr>range_drop = True, range_start = 4, range_length = 1\<rparr>)"
  using message_roundtrip [OF ref_compact_ok] by simp

text \<open>
  \<open>Synchronize\<close> round-trips: the three booleans packed into the flags byte are recovered for every
  combination.
\<close>

lemma synchronize_roundtrip:
  assumes "compact_ok C"
  shows "roundtrips (Synchronize_encoded_size C) (Synchronize_encode C) (Synchronize_decode C) x"
  by (rule compact_lib.all_roundtrips(3) [OF compact_lib.intro [OF assms] TrueI])

lemma synchronize_roundtrip_witness:
  "compact_ok ref_compact \<and>
   roundtrips (Synchronize_encoded_size ref_compact) (Synchronize_encode ref_compact)
     (Synchronize_decode ref_compact)
     \<lparr>sync_fork = 1, sync_length = 300, sync_remote_length = 2, sync_downloading = True,
      sync_uploading = False, sync_can_upgrade = True\<rparr>"
  using synchronize_roundtrip [OF ref_compact_ok] ref_compact_ok by blast

text \<open>
  \<open>Request\<close> round-trips for every combination of its four optional parts, the manifest bit and the
  priority, which is on the wire only if it is not 0.
\<close>

lemma request_roundtrip:
  assumes "compact_ok C"
  shows "roundtrips (Request_encoded_size C) (Request_encode C) (Request_decode C) x"
  by (rule compact_lib.all_roundtrips(4) [OF compact_lib.intro [OF assms] TrueI])

lemma request_roundtrip_witness:
  "compact_ok ref_compact \<and>
   roundtrips (Request_encoded_size ref_compact) (Request_encode ref_compact)
     (Request_decode ref_compact)
     \<lparr>req_id = 1, req_fork = 0, req_block = Some \<lparr>rb_index = 2, rb_nodes = 3\<rparr>, req_hash = None,
      req_seek = Some \<lparr>rs_bytes = 70000\<rparr>, req_upgrade = None, req_manifest = True,
      req_priority = 9\<rparr>"
  using request_roundtrip [OF ref_compact_ok] ref_compact_ok by blast

text \<open>
  \<open>Data\<close> round-trips for every combination of its four optional parts, with hashes of 32 bytes and
  vectors that fit in memory.
\<close>

lemma data_roundtrip:
  assumes "compact_ok C" and "Data_ok x"
  shows "roundtrips (Data_encoded_size C) (Data_encode C) (Data_decode C) x"
  by (rule compact_lib.all_roundtrips(5) [OF compact_lib.intro [OF assms(1)] assms(2)])

lemma data_roundtrip_witness:
  "Data_ok \<lparr>data_request = 1, data_fork = 0,
      data_block = Some \<lparr>db_index = 2, db_nodes = [], db_value = [1, 2, 3]\<rparr>, data_hash = None,
      data_seek = None, data_upgrade = None\<rparr> \<and>
   roundtrips (Data_encoded_size ref_compact) (Data_encode ref_compact) (Data_decode ref_compact)
     \<lparr>data_request = 1, data_fork = 0,
      data_block = Some \<lparr>db_index = 2, db_nodes = [], db_value = [1, 2, 3]\<rparr>, data_hash = None,
      data_seek = None, data_upgrade = None\<rparr>"
proof -
  let ?x = "\<lparr>data_request = 1, data_fork = 0,
      data_block = Some \<lparr>db_index = 2, db_nodes = [], db_value = [1, 2, 3]\<rparr>, data_hash = None,
      data_seek = None, data_upgrade = None\<rparr>"
  have "Data_ok ?x" by (simp add: Data_ok_def DataBlock_ok_def nodes_ok_def vec_fits_def)
  with data_roundtrip [OF ref_compact_ok this] show ?thesis by blast
qed

text \<open>
  \<open>Range\<close> round-trips: a length of 1 is carried by a flag and not written, every other length is.
\<close>

lemma range_roundtrip:
  assumes "compact_ok C"
  shows "roundtrips (Range_encoded_size C) (Range_encode C) (Range_decode C) x"
  by (rule compact_lib.all_roundtrips(7) [OF compact_lib.intro [OF assms] TrueI])

lemma range_roundtrip_witness:
  "compact_ok ref_compact \<and>
   roundtrips (Range_encoded_size ref_compact) (Range_encode ref_compact) (Range_decode ref_compact)
     \<lparr>range_drop = False, range_start = 7, range_length = 1\<rparr>"
  using range_roundtrip [OF ref_compact_ok] ref_compact_ok by blast

text \<open>
  A message type above the known ones is an error that names it.
\<close>

lemma unknown_message_type:
  assumes "decode (c_u64 C) buf = Ok (t, rest)" and "10 \<le> t"
  shows "Message_decode C buf = Err (InvalidMessageType t)"
proof -
  have "t \<noteq> n" if "n < 10" for n using assms(2) that by auto
  then have "t \<noteq> 0 \<and> t \<noteq> 1 \<and> t \<noteq> 2 \<and> t \<noteq> 3 \<and> t \<noteq> 4 \<and> t \<noteq> 5 \<and> t \<noteq> 6 \<and> t \<noteq> 7 \<and> t \<noteq> 8 \<and> t \<noteq> 9"
    by simp
  then show ?thesis using assms(1) by (simp add: Message_decode_def bind_dec_def fail_dec_def)
qed

lemma unknown_message_type_witness:
  "Message_decode ref_compact [10, 1] = Err (InvalidMessageType 10)"
  by (rule unknown_message_type [of _ _ _ "[1]"]) code_simp+

text \<open>
  A local signal has no wire form: encoding one for a channel panics.
\<close>

lemma local_signal_has_no_wire_form:
  assumes "compact_ok C"
  shows "encode_messages C [ChannelMessage_new ch (LocalSignal nm dat)] = Panic"
proof -
  have lib: "compact_lib C" by (rule compact_lib.intro [OF assms])
  have "Message_encoded_size C (LocalSignal nm dat) = Panic"
    by (simp add: Message_encoded_size_def add_size_def)
  then have "vec_channel_messages_encoded_size C [ChannelMessage_new ch (LocalSignal nm dat)] = Panic"
    using compact_lib.lib_sizes(1) [OF lib, of ch]
    by (simp add: vec_channel_messages_encoded_size_def ChannelMessage_encoded_size_def
        ChannelMessage_new_def add_size_def)
  then show ?thesis by (simp add: encode_messages_def compact_lib.to_bytes_Panic [OF lib])
qed

lemma local_signal_has_no_wire_form_witness:
  "compact_ok ref_compact \<and>
   encode_messages ref_compact [ChannelMessage_new 1 (LocalSignal ''go'' [])] = Panic"
  using local_signal_has_no_wire_form [OF ref_compact_ok] ref_compact_ok by blast

section \<open>Capabilities\<close>

text \<open>
  C8. Two peers of one session, one the initiator, verify each other: the capability either computes
  for a key is accepted by the other for that key.
\<close>

theorem capability_mutual:
  assumes "hr_handshake_hash a = hr_handshake_hash b" and "hr_is_initiator a \<noteq> hr_is_initiator b"
    and "capability H a key = Ok cap"
  shows "verify_remote_capability H b cap key = Ok ()"
  by (rule verify_mutual [OF assms])

theorem capability_mutual_witness:
  "\<exists>cap. capability ref_crypto (from_pre_encrypted True [1] [2] example_hash) example_key = Ok cap \<and>
     verify_remote_capability ref_crypto (from_pre_encrypted False [2] [1] example_hash) cap example_key = Ok ()"
proof -
  obtain c where c: "replicate_capability ref_crypto True example_key example_hash = Ok c"
    using ref_lib.replicate_capability_defined [of example_hash] by (auto simp: example_hash_def)
  let ?a = "from_pre_encrypted True [1] [2] example_hash"
  have "capability ref_crypto ?a example_key = Ok (Some c)"
    using c by (simp add: capability_def from_pre_encrypted_def)
  with capability_mutual [OF _ _ this, of "from_pre_encrypted False [2] [1] example_hash"]
  show ?thesis by (auto simp: from_pre_encrypted_def)
qed

text \<open>
  C9. A capability is bound to role, key and session: if one made by a peer is accepted by a verifier,
  then the two have opposite roles, the same key and the same handshake hash, or the keyed hash
  collides on the two inputs. A reflected or replayed capability is accepted only through such a
  collision.
\<close>

theorem capability_bound:
  assumes "capability H a key = Ok (Some c)" and "verify_remote_capability H b (Some c) key' = Ok ()"
  shows "hr_is_initiator a \<noteq> hr_is_initiator b \<and> key = key' \<and>
      hr_handshake_hash a = hr_handshake_hash b \<or>
    (hr_handshake_hash a, capability_input (hr_is_initiator a) key) \<noteq>
      (hr_handshake_hash b, capability_input (\<not> hr_is_initiator b) key') \<and>
    blake2b_mac H (hr_handshake_hash a) (capability_input (hr_is_initiator a) key) = Some c \<and>
    blake2b_mac H (hr_handshake_hash b) (capability_input (\<not> hr_is_initiator b) key') = Some c"
  by (rule capability_binding [OF assms])

theorem capability_bound_witness:
  "verify_remote_capability ref_crypto (from_pre_encrypted True [1] [2] example_hash) (Some example_cap)
     example_key = Ok () \<and>
   capability ref_crypto (from_pre_encrypted False [2] [1] example_hash) example_key = Ok (Some example_cap) \<and>
   hr_is_initiator (from_pre_encrypted False [2] [1] example_hash) \<noteq>
     hr_is_initiator (from_pre_encrypted True [1] [2] example_hash)"
proof -
  let ?a = "from_pre_encrypted False [2] [1] example_hash"
  let ?b = "from_pre_encrypted True [1] [2] example_hash"
  have run: "capability ref_crypto ?a example_key = Ok (Some example_cap)"
    "verify_remote_capability ref_crypto ?b (Some example_cap) example_key = Ok ()"
    using example_cap by (simp_all add: capability_def verify_iff from_pre_encrypted_def)
  from capability_bound [OF run] run show ?thesis by (auto simp: from_pre_encrypted_def)
qed

section \<open>The channel map\<close>

text \<open>
  C10. In every history of the map, a channel with a local id is the one found under that id, local ids
  are not 0, its discovery key is the one of its key, and a channel that was handed out is open from
  both sides; removing any channel succeeds.
\<close>

theorem channel_map_consistent:
  assumes "crypto_ok H" and "(cm_step H E)\<^sup>*\<^sup>* (ChannelMap_new, s) (m, s')"
  shows "(\<forall>k h i. channels m k = Some h \<longrightarrow> handle_local_id h = Some i \<longrightarrow>
      0 < i \<and> get_local i m = Some h) \<and>
    (\<forall>k h ls. channels m k = Some h \<longrightarrow> h_local_state h = Some ls \<longrightarrow>
      discovery_key H (ls_key ls) = Ok (h_discovery_key h)) \<and>
    (\<forall>k h. channels m k = Some h \<longrightarrow> h_inbound_tx h \<noteq> None \<longrightarrow> is_connected h) \<and>
    (\<forall>dk. \<exists>m'' s''. remove H dk m s' = Ok (m'', s''))"
proof -
  have inv: "cm_inv H (m, s')"
    using crypto_lib.cm_reachable [OF crypto_lib.intro [OF assms(1)] assms(2)] .
  have "\<exists>m'' s''. remove H dk m s' = Ok (m'', s'')" for dk
    using remove_run [OF inv, of dk] remove_absent [of m H dk s']
    by (cases "channels m (hex_encode H dk)") auto
  then show ?thesis
    using cm_inv_handle [OF inv] by (auto simp: handle_inv_def handle_local_id_def get_local_def)
qed

theorem channel_map_consistent_witness:
  "\<exists>m s'. (cm_step ref_crypto session_env)\<^sup>*\<^sup>* (ChannelMap_new, mem_sys mem_new) (m, s') \<and>
     (\<exists>h. channels m (hex_encode ref_crypto example_dk) = Some h \<and> get_local 1 m = Some h)"
proof -
  obtain h m s' where a: "attach_local ref_crypto example_key ChannelMap_new (mem_sys mem_new) = Ok (h, m, s')"
    and h: "h = local_handle 1 example_dk example_key None (mem_sys mem_new)"
      "channels m (hex_encode ref_crypto example_dk) = Some h"
    using attach_local_run [OF _ example_dk, of ChannelMap_new 1 _ "mem_sys mem_new"]
    by (simp add: ChannelMap_new_def alloc_local_def)
  have st: "(cm_step ref_crypto session_env)\<^sup>*\<^sup>* (ChannelMap_new, mem_sys mem_new) (m, s')"
    using step_attach_local [OF a] by (rule r_into_rtranclp)
  have "get_local 1 m = Some h"
    using channel_map_consistent [OF ref_crypto_ok st] h
    by (auto simp: local_handle_def handle_local_id_def)
  with st h show ?thesis by blast
qed



text \<open>
  C12. A new local id is the least free one from 1 on: its slot is free, every smaller one is taken.
\<close>

theorem local_id_least_free:
  assumes "local_id m \<noteq> []" and "alloc_local m = (i, m')"
  shows "0 < i \<and> vec_get (local_id m) i \<in> {None, Some None} \<and>
    (\<forall>j. 0 < j \<and> j < i \<longrightarrow> (\<exists>k. vec_get (local_id m) j = Some (Some k))) \<and>
    channels m' = channels m"
  using alloc_local_spec [OF assms] by simp

theorem local_id_least_free_witness:
  "alloc_local (ChannelMap_new\<lparr>local_id := [None, Some ''a'', None, Some ''b'']\<rparr>) =
     (2, ChannelMap_new\<lparr>local_id := [None, Some ''a'', None, Some ''b'']\<rparr>) \<and> (0::nat) < 2"
proof -
  let ?m = "ChannelMap_new\<lparr>local_id := [None, Some ''a'', None, Some ''b'']\<rparr>"
  have "alloc_local ?m = (2, ?m)" by (simp add: alloc_local_def)
  with local_id_least_free [of ?m 2 ?m] show ?thesis by simp
qed

text \<open>
  C13. Once the handle behind a channel has left the map, the channel is closed for good: in every
  later state a send, a batch or a signal on it fails with \<open>ConnectionAborted\<close> and queues nothing, and
  closing it again does nothing.
\<close>

theorem removed_channel_aborts:
  assumes "crypto_ok H" and "cm_inv H (m, s)" and "accept E lid m s = Ok (ch, m1, s1)"
    and "(cm_step H E)\<^sup>*\<^sup>* (m1, s1) (m2, s2)"
    and "\<forall>h. channels m2 (hex_encode H (ch_discovery_key ch)) = Some h \<longrightarrow> h_closed h \<noteq> ch_closed ch"
  shows "send E ch msg s2 = (Err (IoError ConnectionAborted ''Channel is closed''), s2) \<and>
    send_batch E ch msgs s2 = (Err (IoError ConnectionAborted ''Channel is closed''), s2) \<and>
    signal_local_protocol E ch nm dat s2 = (Err (IoError ConnectionAborted ''Channel is closed''), s2) \<and>
    close E ch s2 = (Ok (), s2)"
  using send_closed [OF crypto_lib.accepted_channel_closed [OF crypto_lib.intro [OF assms(1)] assms(2-5)]]
  by blast

definition example_removed ::
  "(io_error, Channel \<times> ChannelMap \<times> mem sys \<times> ChannelMap \<times> mem sys) outcome"
where
  "example_removed =
     and_then (attach_local ref_crypto example_key ChannelMap_new (mem_sys mem_new)) (\<lambda>(h, m, s).
     and_then (attach_remote ref_crypto example_dk 5 (Some example_cap) m s) (\<lambda>(h, m, s).
     and_then (accept session_env 1 m s) (\<lambda>(ch, m1, s1).
     and_then (remove ref_crypto example_dk m1 s1) (\<lambda>(m2, s2). Ok (ch, m, s, m2, s2)))))"

lemma example_removed_Ok:
  obtains ch m s m2 s2 where "example_removed = Ok (ch, m, s, m2, s2)" and "ch_discovery_key ch = example_dk"
proof -
  have check: "(case example_removed of Ok (ch, _) \<Rightarrow> ch_discovery_key ch = example_dk | _ \<Rightarrow> False)"
    by code_simp
  show ?thesis
  proof (cases example_removed)
    case (Ok x)
    obtain ch m s m2 s2 where x: "x = (ch, m, s, m2, s2)" by (rule prod_cases5)
    with check have "ch_discovery_key ch = example_dk" unfolding Ok by simp
    with Ok x that show ?thesis by blast
  next
    case (Err e)
    show ?thesis using check unfolding Err by simp
  next
    case Panic
    show ?thesis using check unfolding Panic by simp
  qed
qed

theorem removed_channel_aborts_witness:
  "\<exists>ch m s m2 s2. example_removed = Ok (ch, m, s, m2, s2) \<and> cm_inv ref_crypto (m, s) \<and>
     send session_env ch (Cancel \<lparr>cancel_request = 1\<rparr>) s2 =
       (Err (IoError ConnectionAborted ''Channel is closed''), s2)"
proof -
  note hex = ref_lib.hex_inj
  obtain ch m s m2 s2 where e: "example_removed = Ok (ch, m, s, m2, s2)"
    and dk: "ch_discovery_key ch = example_dk" by (rule example_removed_Ok)
  then obtain h h' m0 s0 m1 s1 where
    a: "attach_local ref_crypto example_key ChannelMap_new (mem_sys mem_new) = Ok (h, m0, s0)"
    and r: "attach_remote ref_crypto example_dk 5 (Some example_cap) m0 s0 = Ok (h', m, s)"
    and acc: "accept session_env 1 m s = Ok (ch, m1, s1)"
    and rm: "remove ref_crypto example_dk m1 s1 = Ok (m2, s2)"
    by (auto simp: example_removed_def and_then_eq_Ok)
  have inv: "cm_inv ref_crypto (m, s)"
    by (rule cm_inv_attach_remote [OF hex cm_inv_attach_local [OF hex cm_inv_new a] example_dk_length r])
  note inv1 = cm_inv_accept [OF inv acc]
  have gone: "channels m2 (hex_encode ref_crypto example_dk) = None"
    using remove_run [OF inv1, of example_dk] remove_absent [of m1 ref_crypto example_dk s1] rm
    by (cases "channels m1 (hex_encode ref_crypto example_dk)") auto
  have steps: "(cm_step ref_crypto session_env)\<^sup>*\<^sup>* (m1, s1) (m2, s2)"
    by (rule r_into_rtranclp) (rule step_remove [OF rm])
  have "send session_env ch (Cancel \<lparr>cancel_request = 1\<rparr>) s2 =
      (Err (IoError ConnectionAborted ''Channel is closed''), s2)"
    using removed_channel_aborts [OF ref_crypto_ok inv acc steps] gone dk by simp
  with e inv show ?thesis by blast
qed


section \<open>The message queue\<close>

text \<open>
  C14. Whatever the sink does, one call of \<open>poll_outbound\<close> on a queue of well-formed messages does not
  panic, hands the sink the frames of the first batches of the queue, in order, and keeps the rest in
  order; a batch is lost only where an error is returned.
\<close>

theorem poll_outbound_sends_batches:
  assumes "compact_ok C" and "sink_ok E sent" and "list_all single_ok (write_queue io)"
    and "poll_outbound C E io w = (r, io', w')"
  shows "\<exists>n. sent w' = sent w @ map (frame C) (take n (batches (write_queue io))) \<and>
    (case r of
       Ok _ \<Rightarrow> write_queue io' = concat (drop n (batches (write_queue io)))
     | Err _ \<Rightarrow> write_queue io' = concat (drop n (batches (write_queue io))) \<or>
         write_queue io' = concat (drop (Suc n) (batches (write_queue io)))
     | Panic \<Rightarrow> False)"
proof -
  have "frame_sink C E sent"
    by (intro frame_sink.intro compact_lib.intro frame_sink_axioms.intro assms)
  from frame_sink.poll_outbound_sends [OF this assms(3,4)] show ?thesis .
qed

definition example_queue :: MessageIo where
  "example_queue = \<lparr>write_queue = ChannelMessage_new 1 (Close \<lparr>close_channel = 1\<rparr>) # example_batch\<rparr>"

lemma example_queue_on_channel: "list_all (on_channel ref_compact 1) (write_queue example_queue)"
  using example_batch_sizes
  by (simp add: example_queue_def example_batch_def on_channel_def ChannelMessage_new_def)

lemma example_queue_ok: "list_all single_ok (write_queue example_queue)"
  using example_queue_on_channel on_channel_single_ok by (auto simp: list_all_iff)

theorem poll_outbound_sends_batches_witness:
  "\<exists>n r io' w'. poll_outbound ref_compact mem_env example_queue mem_new = (r, io', w') \<and>
     mem_out w' = map (frame ref_compact) (take n (batches (write_queue example_queue)))"
proof -
  obtain r io' w' where run: "poll_outbound ref_compact mem_env example_queue mem_new = (r, io', w')"
    by (rule prod_cases3)
  from poll_outbound_sends_batches [OF ref_compact_ok mem_sink_ok example_queue_ok run] run
  show ?thesis by (auto simp: mem_new_def)
qed

text \<open>
  From one peer's queue to the other: with a sink that takes everything, one call sends the whole
  queue, and the frames sent, decoded one by one, give the queued messages back in order, provided
  they are well-formed and all of one channel.
\<close>

lemma queue_arrives:
  assumes "compact_ok C" and "sink_ok E sent" and "c \<noteq> 0"
    and "list_all (on_channel C c) (write_queue io)"
    and "\<forall>w. fst (sink_poll_ready E w) = Ready (Inr ())"
    and "\<forall>buf w. fst (sink_start_send E buf w) = Inr ()"
    and "\<forall>w. fst (sink_poll_flush E w) = Ready (Inr ())"
  shows "\<exists>w' frames bs. poll_outbound C E io w = (Ok (Ready ()), io\<lparr>write_queue := []\<rparr>, w') \<and>
    sent w' = sent w @ frames \<and> map (vec_decode C) frames = map (\<lambda>b. Some (Ok (b, []))) bs \<and>
    concat bs = write_queue io"
proof -
  have sink: "frame_sink C E sent"
    by (intro frame_sink.intro compact_lib.intro frame_sink_axioms.intro assms)
  have "list_all single_ok (write_queue io)"
    using assms(4) on_channel_single_ok by (auto simp: list_all_iff)
  from frame_sink.outbound_loop_drains [OF sink this] assms(5-7)
  obtain w' where "outbound_loop C E True (write_queue io) w = (Ok (Ready ()), [], w')"
    "sent w' = sent w @ map (frame C) (batches (write_queue io))" by blast
  with compact_lib.batches_decode [OF compact_lib.intro [OF assms(1)] assms(3,4)] concat_batches
  show ?thesis
    by (intro exI [of _ w'] exI [of _ "map (frame C) (batches (write_queue io))"]
        exI [of _ "batches (write_queue io)"]) (simp add: poll_outbound_def)
qed

text \<open>
  C15. Two messages of different channels queued one after the other: \<open>poll_outbound\<close> hands them to the
  sink as one frame, and the peer's decoder does not give them back.
\<close>

theorem two_channels_one_frame:
  assumes C: "compact_ok C" and sink: "sink_ok E sent" and sized: "sized_batch C [m1, m2]"
    and "channel m1 \<noteq> 0" and "channel m2 \<noteq> 0" and "channel m1 \<noteq> channel m2"
    and q: "write_queue io = [m1, m2]"
    and "\<forall>w. fst (sink_poll_ready E w) = Ready (Inr ())"
    and "\<forall>buf w. fst (sink_start_send E buf w) = Inr ()"
    and "\<forall>w. fst (sink_poll_flush E w) = Ready (Inr ())"
  shows "\<exists>buf w'. poll_outbound C E io w = (Ok (Ready ()), io\<lparr>write_queue := []\<rparr>, w') \<and>
    sent w' = sent w @ [buf] \<and> vec_decode C buf \<noteq> Some (Ok ([m1, m2], []))"
proof -
  have lib: "compact_lib C" by (rule compact_lib.intro [OF C])
  have sink: "frame_sink C E sent" by (intro frame_sink.intro lib frame_sink_axioms.intro sink)
  have t: "typed_ok (message m1)" "typed_ok (message m2)"
    using sized_typed [OF sized] by (simp_all add: typed_batch_def)
  then have one: "batches [m1, m2] = [[m1, m2]]" by (simp add: typed_not_control)
  have "single_ok m1" "single_ok m2" using t by (cases "message m1"; cases "message m2"; simp)+
  then have "list_all single_ok (write_queue io)" by (simp add: q del: single_ok.simps)
  from frame_sink.outbound_loop_drains [OF sink this, of True w] assms(8-10)
  obtain w' where "outbound_loop C E True (write_queue io) w = (Ok (Ready ()), [], w')"
    "sent w' = sent w @ [frame C [m1, m2]]" unfolding q one by (auto simp del: frame.simps)
  moreover have "vec_decode C (frame C [m1, m2]) \<noteq> Some (Ok ([m1, m2], []))"
    using compact_lib.vec_decode_batch_iff [OF lib _ sized] assms(4-6)
    by (simp add: single_channel_def del: frame.simps)
  ultimately show ?thesis
    by (intro exI [of _ "frame C [m1, m2]"] exI [of _ w']) (simp add: poll_outbound_def del: frame.simps)
qed

theorem two_channels_one_frame_witness:
  "\<exists>buf w'. poll_outbound ref_compact ready_env
       \<lparr>write_queue = [ChannelMessage_new 1 (NoData \<lparr>nodata_request = 3\<rparr>),
          ChannelMessage_new 2 (NoData \<lparr>nodata_request = 3\<rparr>)]\<rparr> mem_new = (Ok (Ready ()), \<lparr>write_queue = []\<rparr>, w') \<and>
     mem_out w' = [buf] \<and>
     vec_decode ref_compact buf \<noteq> Some (Ok ([ChannelMessage_new 1 (NoData \<lparr>nodata_request = 3\<rparr>),
        ChannelMessage_new 2 (NoData \<lparr>nodata_request = 3\<rparr>)], []))"
proof -
  let ?m = "\<lambda>c. ChannelMessage_new c (NoData \<lparr>nodata_request = 3\<rparr>)"
  have "sized_batch ref_compact [?m 1, ?m 2]"
    using example_batch_sizes by (simp add: sized_batch_def example_batch_def ChannelMessage_new_def)
  from two_channels_one_frame [OF ref_compact_ok ready_sink_ok this, of "\<lparr>write_queue = [?m 1, ?m 2]\<rparr>" mem_new]
  show ?thesis by (simp add: ChannelMessage_new_def ready_env_def mem_env_def mem_new_def)
qed

text \<open>
  C16. Errors of the sink's \<open>poll_ready\<close> are swallowed. In every turn of the loop \<open>poll_outbound\<close> does
  the same as with a sink that is pending instead. So with a sink that fails in \<open>poll_ready\<close> only, it
  never fails: it is pending where the first \<open>poll_ready\<close> does not succeed, and otherwise done,
  whatever the later ones answer and whatever is left in the queue.
\<close>

theorem poll_ready_error_swallowed:
  assumes "compact_ok C" and "list_all single_ok (write_queue io)"
    and send: "\<forall>buf w. fst (sink_start_send E buf w) = Inr ()"
    and flush: "\<forall>w. fst (sink_poll_flush E w) = Ready (Inr ())"
  shows "poll_outbound C (ready_errors_pending E) io w = poll_outbound C E io w \<and>
    (\<exists>x io' w'. poll_outbound C E io w = (Ok x, io', w') \<and>
       (x = Pending \<longleftrightarrow> fst (sink_poll_ready E w) \<noteq> Ready (Inr ())))"
proof -
  obtain x q w' where "outbound_loop C E True (write_queue io) w = (Ok x, q, w')"
    "x = Pending \<longleftrightarrow> fst (sink_poll_ready E w) \<noteq> Ready (Inr ())"
    using compact_lib.outbound_loop_ready_only [OF compact_lib.intro [OF assms(1)] _ _ assms(2), of E True w]
      send flush by blast
  then show ?thesis by (simp add: poll_outbound_def outbound_loop_ready_errors)
qed

text \<open>A sink that breaks after one frame: the call is done, with messages left.\<close>

definition breaking_env :: "mem env" where
  "breaking_env = mem_env\<lparr>sink_poll_ready := (\<lambda>w. if mem_out w = [] then (Ready (Inr ()), w)
     else (Ready (Inl (IoError BrokenPipe ''gone'')), w))\<rparr>"

theorem poll_ready_error_swallowed_witness:
  "\<exists>w'. poll_outbound ref_compact breaking_env example_queue mem_new =
     (Ok (Ready ()), \<lparr>write_queue = example_batch\<rparr>, w')"
proof -
  have "\<exists>x io' w'. poll_outbound ref_compact breaking_env example_queue mem_new = (Ok x, io', w') \<and>
      (x = Pending \<longleftrightarrow> fst (sink_poll_ready breaking_env mem_new) \<noteq> Ready (Inr ()))"
    using poll_ready_error_swallowed [OF ref_compact_ok example_queue_ok, of breaking_env mem_new]
    by (simp add: breaking_env_def mem_env_def)
  then obtain x io' w' where run: "poll_outbound ref_compact breaking_env example_queue mem_new = (Ok x, io', w')"
    "x \<noteq> Pending"
    by (auto simp: breaking_env_def mem_new_def)
  moreover have "write_queue (fst (snd (poll_outbound ref_compact breaking_env example_queue mem_new))) = example_batch"
    by code_simp
  ultimately show ?thesis by (cases x) auto
qed

text \<open>
  C17. Reading returns: with a stream that has finitely many items ready, \<open>poll_inbound\<close> ends, whatever
  bytes it is given, and does not panic.
\<close>

theorem poll_inbound_total:
  assumes "compact_ok C" and "stream_bounded E backlog"
  shows "\<exists>p w'. poll_inbound C E w = Some (p, w') \<and> p \<noteq> Ready (Some Panic) \<and>
    (\<forall>x. p = Ready (Some x) \<longrightarrow> backlog w' < backlog w)"
  by (rule bounded_stream.poll_inbound_returns)
    (intro bounded_stream.intro compact_lib.intro bounded_stream_axioms.intro assms)

theorem poll_inbound_total_witness:
  "\<exists>p w'. poll_inbound ref_compact mem_env (mem_new\<lparr>mem_in := [HandshakePayload [], CipherMessage [0, 0]]\<rparr>) =
       Some (p, w') \<and> p \<noteq> Ready (Some Panic)"
  using poll_inbound_total [OF ref_compact_ok mem_stream_bounded] by blast

section \<open>The protocol stream\<close>

text \<open>
  C18. A poll is a history: where \<open>poll_next\<close> returns an event, the event is emitted at the end of a
  sequence of atomic steps none of which emits one; where it is pending or fails, the state is the end
  of such a sequence.
\<close>

theorem poll_next_is_run:
  assumes "crypto_ok H" and "outbound_ok E" and "run H E (Protocol_new E w, s) tr0 st"
    and "poll_next C H E st = Some (r, st')" and "r \<noteq> Panic"
  shows "\<exists>tr. list_all quiet_label tr \<and>
    (case r of Ok (Ready ev) \<Rightarrow> run H E st (tr @ [Emitted ev]) st' | _ \<Rightarrow> run H E st tr st')"
proof -
  have lib: "crypto_lib H" by (rule crypto_lib.intro [OF assms(1)])
  have inv: "proto_inv H st" by (rule crypto_lib.run_inv [OF lib assms(3) proto_inv_new])
  have "poll_run H E st (r, st')" by (rule crypto_lib.poll_next_run [OF lib assms(4) inv assms(2)])
  then show ?thesis using assms(5) by (rule poll_run_trace)
qed

theorem poll_next_is_run_witness:
  "\<exists>tr. run ref_crypto checked_env (Protocol_new checked_env mem_new, mem_sys mem_new)
     (tr @ [Emitted (Event_Handshake (replicate 32 2))]) (example_greeted, mem_sys mem_new)"
  using poll_next_is_run [OF ref_crypto_ok checked_env_outbound run_Nil checked_env_first_poll] by auto

text \<open>
  C19. Every poll returns: where the environment has finitely many items ready, \<open>poll_next\<close> ends in
  every state, on every input.
\<close>

theorem poll_next_total:
  assumes "compact_ok C" and "env_bounded E backlog"
  shows "\<exists>r st'. poll_next C H E st = Some (r, st')"
  by (rule bounded_env.poll_next_returns [where backlog = backlog])
    (intro bounded_env.intro compact_lib.intro bounded_env_axioms.intro assms)

theorem poll_next_total_witness:
  "\<exists>r st'. poll_next ref_compact ref_crypto mem_env
     (Protocol_new mem_env mem_new,
      mem_sys (mem_new\<lparr>mem_in := [CipherMessage [0, 0, 1], ErrStuff (IoError BrokenPipe ''gone'')],
        mem_commands := [Command_Open example_key]\<rparr>)) = Some (r, st')"
  by (rule poll_next_total [OF ref_compact_ok mem_env_bounded])

text \<open>
  C20. In an established session, with a peer that sends no \<open>Open\<close> whose channel number is beyond the
  largest table of ids (which panics, as shown below), no poll panics, in any history: not for any other
  bytes of the peer, decodable or not, commands of the application, messages it queues, or answers of
  the sink.
\<close>

theorem poll_next_does_not_panic:
  assumes "compact_ok C" and "crypto_ok H" and "env_bounded E backlog" and "session_ok E hash"
    and ids: "\<forall>w buf w' ms rest m x. stream_poll_next E w = (Ready (Some (CipherMessage buf)), w') \<longrightarrow>
      vec_decode C buf = Some (Ok (ms, rest)) \<longrightarrow> m \<in> set ms \<longrightarrow> message m = Open x \<longrightarrow>
      unat (channel m) < vec_max_len"
    and "run H E (Protocol_new E w, s) tr st" and "poll_next C H E st = Some (r, st')"
  shows "r \<noteq> Panic"
proof -
  have inv: "proto_inv H st"
    by (rule crypto_lib.run_inv [OF crypto_lib.intro [OF assms(2)] assms(6) proto_inv_new])
  have "frames_ok C E" using ids unfolding frames_ok_def by (blast intro: ids_okI)
  then have "session C E backlog H hash"
    by (intro session.intro bounded_env.intro compact_lib.intro bounded_env_axioms.intro
        crypto_lib.intro session_axioms.intro assms)
  from session.poll_next_calm [OF this inv assms(7)] show ?thesis .
qed

theorem poll_next_does_not_panic_witness:
  "\<exists>r st'. poll_next ref_compact ref_crypto checked_env
     (Protocol_new checked_env mem_new, mem_sys (mem_new\<lparr>mem_in := [CipherMessage [0, 1]]\<rparr>)) =
     Some (r, st') \<and> r \<noteq> Panic"
proof -
  let ?st = "(Protocol_new checked_env mem_new, mem_sys (mem_new\<lparr>mem_in := [CipherMessage [0, 1]]\<rparr>))"
  obtain r st' where run: "poll_next ref_compact ref_crypto checked_env ?st = Some (r, st')"
    using checked_session.poll_next_returns by blast
  from poll_next_does_not_panic [OF ref_compact_ok ref_crypto_ok checked_env_bounded checked_env_session
      _ run_Nil run] checked_env_frames ids_okD run show ?thesis unfolding frames_ok_def by blast
qed

text \<open>
  C21. Over any sequence of polls, with other tasks running in between, \<open>Event::Handshake\<close> is returned at
  most once, and \<open>handshake_emitted\<close> tells whether it was.
\<close>

theorem handshake_at_most_once:
  assumes "crypto_ok H" and "outbound_ok E" and "history C H E (Protocol_new E w, s) rs st"
  shows "length (filter is_handshake_event (events rs)) = (if handshake_emitted (fst st) then 1 else 0)"
  by (rule crypto_lib.history_handshake [OF crypto_lib.intro [OF assms(1)] assms(3,2)])

theorem handshake_at_most_once_witness:
  "\<exists>rs st. history ref_compact ref_crypto checked_env (Protocol_new checked_env mem_new, mem_sys mem_new) rs st \<and>
     length rs = 2 \<and> length (filter is_handshake_event (events rs)) = 1 \<and> handshake_emitted (fst st)"
proof -
  let ?rs = "[Ok (Ready (Event_Handshake (replicate 32 2))), Ok (Ready (Event_DiscoveryKey example_dk))]"
  obtain p s where h: "history ref_compact ref_crypto checked_env
      (Protocol_new checked_env mem_new, mem_sys mem_new) ?rs (p, s)"
    by (rule example_history)
  from handshake_at_most_once [OF ref_crypto_ok checked_env_outbound h]
  have "handshake_emitted p" by (simp add: events_def split: if_splits)
  with h show ?thesis by (intro exI [of _ ?rs] exI [of _ "(p, s)"]) (simp add: events_def)
qed



text \<open>
  C23. Discovery keys, which come from the wire as vectors of any length, are \<open>[u8; 32]\<close> wherever they
  are used. An \<open>Open\<close> with one of another length fails with \<open>InvalidInput\<close> and changes nothing; and over
  any sequence of polls every event, returned or queued, has a discovery key of 32 bytes, that of a
  channel is the one of its key, and each handle in the map has one and is filed under it.
\<close>

theorem discovery_keys_well_typed:
  assumes "crypto_ok H" and "outbound_ok E" and "history C H E (Protocol_new E w, s) rs (p, s')"
  shows "list_all (event_ok H) (events rs @ queued_events p) \<and>
    (\<forall>k h. channels (p_channels p) k = Some h \<longrightarrow>
       length (h_discovery_key h) = 32 \<and> k = hex_encode H (h_discovery_key h)) \<and>
    (\<forall>ch x. length (open_discovery_key x) \<noteq> 32 \<longrightarrow>
       on_open H E ch x (p, s') =
         (Err (IoError InvalidInput ''Key must be 32 bytes long''), p, s'))"
proof -
  note lib = crypto_lib.intro [OF assms(1)]
  have "cm_inv H (p_channels p, s')"
    using crypto_lib.history_inv [OF lib assms(3,2)] by (simp add: proto_inv_def)
  from cm_inv_handle [OF this] crypto_lib.history_events_ok [OF lib assms(3,2)] show ?thesis
    by (auto simp: handle_inv_def on_open_def parse_key_def)
qed

theorem discovery_keys_well_typed_witness:
  "\<exists>rs p s'. history ref_compact ref_crypto checked_env (Protocol_new checked_env mem_new, mem_sys mem_new) rs (p, s') \<and>
     Event_DiscoveryKey example_dk \<in> set (events rs) \<and> list_all (event_ok ref_crypto) (events rs)"
proof -
  let ?rs = "[Ok (Ready (Event_Handshake (replicate 32 2))), Ok (Ready (Event_DiscoveryKey example_dk))]"
  obtain p s where h: "history ref_compact ref_crypto checked_env
      (Protocol_new checked_env mem_new, mem_sys mem_new) ?rs (p, s)"
    by (rule example_history)
  from discovery_keys_well_typed [OF ref_crypto_ok checked_env_outbound h]
  have "list_all (event_ok ref_crypto) (events ?rs)" by simp
  with h show ?thesis by (intro exI [of _ ?rs] exI [of _ p] exI [of _ s]) (simp add: events_def)
qed

text \<open>
  C24. An \<open>Open\<close> for a channel that was opened here is accepted exactly when its capability is the one
  the other role computes for the local key in this session. Then one event hands out the channel,
  with the local key and id; otherwise the handler fails with \<open>PermissionDenied\<close> and queues no event.
\<close>

theorem on_open_verifies:
  assumes "crypto_ok H" and "proto_inv H (p, s)"
    and "length (open_discovery_key x) = 32" and "unat ch + 1 \<le> vec_max_len"
    and "channels (p_channels p) (hex_encode H (open_discovery_key x)) = Some h"
    and "h_local_state h = Some ls"
    and "remote_public_key E (p, s) = Some rpk" and "handshake_hash E (p, s) = Some hash"
    and "replicate_capability H (\<not> p_is_initiator p) (ls_key ls) hash = Ok c"
    and "on_open H E ch x (p, s) = (r, p', s')"
  shows "if open_capability x = Some c
    then r = Ok () \<and> (\<exists>chn. queued_events p' = queued_events p @ [Event_Channel chn] \<and>
      ch_key chn = ls_key ls \<and> ch_discovery_key chn = open_discovery_key x \<and>
      ch_local_id chn = ls_local_id ls \<and> ch_closed chn = h_closed h)
    else r = Err (IoError PermissionDenied ''Invalid remote channel capability'') \<and>
      queued_events p' = queued_events p"
proof (rule on_open_known [OF _ _ assms(3-10)])
  show "cm_inv H (p_channels p, s)" using assms(2) by (simp add: proto_inv_def)
  show "inj (hex_encode H)" using assms(1) by (simp add: crypto_ok_def)
qed

lemma example_opened_handle:
  "channels (p_channels (fst (snd example_opened))) (hex_encode ref_crypto example_dk) =
     Some \<lparr>h_discovery_key = example_dk,
       h_local_state = Some \<lparr>ls_key = example_key, ls_local_id = 1\<rparr>, h_remote_state = None,
       h_inbound_tx = None, h_closed = 0\<rparr>"
  "p_is_initiator (fst (snd example_opened)) = True"
  "queued_events (fst (snd example_opened)) = []"
  by code_simp+

theorem on_open_verifies_witness:
  "\<exists>p' s'. on_open ref_crypto session_env 5 (example_open (Some [1])) (snd example_opened) =
     (Err (IoError PermissionDenied ''Invalid remote channel capability''), p', s') \<and>
     queued_events p' = []"
proof -
  obtain p s where ps: "snd example_opened = (p, s)" by fastforce
  obtain r p' s' where run: "on_open ref_crypto session_env 5 (example_open (Some [1])) (p, s) = (r, p', s')"
    by (rule prod_cases3)
  have ne: "example_cap \<noteq> [1]"
  proof -
    have "c \<noteq> [1]" if "length c = 32" for c :: bytes using that by auto
    from this [OF ref_lib.replicate_capability_length [OF example_cap]] show ?thesis .
  qed
  have "r = Err (IoError PermissionDenied ''Invalid remote channel capability'') \<and>
      queued_events p' = queued_events p"
    using on_open_verifies [OF ref_crypto_ok example_opened_inv [unfolded ps] _ _ _ _ _ _ _ run,
        of "\<lparr>h_discovery_key = example_dk,
          h_local_state = Some \<lparr>ls_key = example_key, ls_local_id = 1\<rparr>, h_remote_state = None,
          h_inbound_tx = None, h_closed = 0\<rparr>" "\<lparr>ls_key = example_key, ls_local_id = 1\<rparr>"
        "replicate 32 2" example_hash example_cap]
      example_opened_handle example_cap example_dk_length
    by (simp add: ps example_open_def vec_max_len_def remote_public_key_def handshake_hash_def
        session_env_def example_hash_def ne ne [symmetric])
  with run example_opened_handle(3) show ?thesis by (auto simp: ps)
qed

text \<open>
  C25. An \<open>Open\<close> for a discovery key that is not known here is recorded under the remote's id, with the
  capability to be verified later, and announced to the application by one \<open>DiscoveryKey\<close> event.
\<close>

theorem on_open_announces:
  assumes "length (open_discovery_key x) = 32" and "unat ch + 1 \<le> vec_max_len"
    and "channels (p_channels p) (hex_encode H (open_discovery_key x)) = None"
  shows "\<exists>m. on_open H E ch x (p, s) =
      (Ok (), p\<lparr>p_channels := m,
         queued_events := queued_events p @ [Event_DiscoveryKey (open_discovery_key x)]\<rparr>,
       s\<lparr>cells := cells s @ [False]\<rparr>) \<and>
    local_id m = local_id (p_channels p) \<and>
    get_remote (unat ch) m =
      Some \<lparr>h_discovery_key = open_discovery_key x, h_local_state = None,
        h_remote_state = Some \<lparr>rs_remote_id = unat ch, rs_remote_capability = open_capability x\<rparr>,
        h_inbound_tx = None, h_closed = length (cells s)\<rparr>"
  by (rule on_open_unknown [OF assms])

theorem on_open_announces_witness:
  "\<exists>m. on_open ref_crypto session_env 5 (example_open None) example_new =
     (Ok (), (fst example_new)\<lparr>p_channels := m, queued_events := [Event_DiscoveryKey example_dk]\<rparr>,
      (snd example_new)\<lparr>cells := [False]\<rparr>)"
  using on_open_announces [of "example_open None" 5 "fst example_new" ref_crypto session_env "snd example_new"]
    example_dk_length
  by (auto simp: example_open_def example_new_def vec_max_len_def Protocol_new_def ChannelMap_new_def
      mem_sys_def)

text \<open>
  C26. A command to open a key that the remote has not opened yet gives the channel the least free
  local id and queues exactly one message: an \<open>Open\<close> on that id with the discovery key and this side's
  capability.
\<close>

theorem command_open_sends_open:
  assumes "crypto_ok H" and "proto_inv H (p, s)" and "discovery_key H key = Ok dk"
    and "\<forall>h. channels (p_channels p) (hex_encode H dk) = Some h \<longrightarrow> h_remote_state h = None"
    and "p_capability H E key (p, s) = Ok cap" and "alloc_local (p_channels p) = (lid, m1)"
  shows "\<exists>m. command_open H E key (p, s) =
      (Ok (), p\<lparr>p_channels := m, p_io := enqueue (ChannelMessage_new (of_nat lid)
          (Open \<lparr>open_channel = of_nat lid, open_protocol = PROTOCOL_NAME,
             open_discovery_key = dk, open_capability = cap\<rparr>)) (p_io p)\<rparr>,
       attach_sys (channels (p_channels p) (hex_encode H dk)) s) \<and>
    (\<exists>h. get_local lid m = Some h \<and> h_discovery_key h = dk \<and>
       h_local_state h = Some \<lparr>ls_key = key, ls_local_id = lid\<rparr>)"
proof (rule command_open_run [OF _ _ assms(3-6)])
  show "cm_inv H (p_channels p, s)" using assms(2) by (simp add: proto_inv_def)
  show "inj (hex_encode H)" using assms(1) by (simp add: crypto_ok_def)
qed

theorem command_open_sends_open_witness:
  "\<exists>m cap. command_open ref_crypto session_env example_key example_new =
     (Ok (), (fst example_new)\<lparr>p_channels := m, p_io := enqueue (ChannelMessage_new 1
        (Open \<lparr>open_channel = 1, open_protocol = PROTOCOL_NAME, open_discovery_key = example_dk,
           open_capability = Some cap\<rparr>)) MessageIo_new\<rparr>, attach_sys None (snd example_new))"
proof -
  obtain c where c: "replicate_capability ref_crypto True example_key example_hash = Ok c"
    using ref_lib.replicate_capability_defined [of example_hash] by (auto simp: example_hash_def)
  have "p_capability ref_crypto session_env example_key (Protocol_new session_env mem_new, mem_sys mem_new) =
      Ok (Some c)"
    using c by (simp add: p_capability_def remote_public_key_def handshake_hash_def session_env_def
        mem_env_def Protocol_new_def mem_new_def capability_def from_pre_encrypted_def example_hash_def)
  from command_open_sends_open [OF ref_crypto_ok proto_inv_new example_dk _ this, of 1]
  show ?thesis
    by (fastforce simp: example_new_def Protocol_new_def ChannelMap_new_def alloc_local_def)
qed

text \<open>
  C27. A \<open>Close\<close> from the remote for a known id removes the channel, closes it for the application (the
  shared flag) after forwarding the message, and queues one \<open>Close\<close> event with its discovery key.
\<close>

theorem on_close_removes:
  assumes "proto_inv H (p, s)" and "get_remote (unat rid) (p_channels p) = Some h"
    and "forward_inbound_message_tolerate_closed E (unat rid) (Close x) (p_channels p) s = (Ok (), s1)"
  shows "\<exists>m. on_close H E rid x (p, s) =
      (Ok (), p\<lparr>p_channels := m,
         queued_events := queued_events p @ [Event_Close (h_discovery_key h)]\<rparr>,
       store_true (h_closed h) s1) \<and>
    channels m = (channels (p_channels p))(hex_encode H (h_discovery_key h) := None)"
  by (rule on_close_run [OF _ assms(2,3)]) (use assms(1) in \<open>simp add: proto_inv_def\<close>)

theorem on_close_removes_witness:
  "\<exists>p' s'. on_close ref_crypto session_env 5 \<lparr>close_channel = 5\<rparr> (snd example_connected) = (Ok (), p', s') \<and>
     last (queued_events p') = Event_Close example_dk \<and>
     channels (p_channels p') (hex_encode ref_crypto example_dk) = None"
proof -
  obtain p s where ps: "snd example_connected = (p, s)" by fastforce
  have get: "map_option h_discovery_key (get_remote 5 (p_channels (fst (snd example_connected)))) = Some example_dk"
    by code_simp
  have fwd: "fst (forward_inbound_message_tolerate_closed session_env 5 (Close \<lparr>close_channel = 5\<rparr>)
      (p_channels (fst (snd example_connected))) (snd (snd example_connected))) = Ok ()"
    by code_simp
  from get obtain h where h: "get_remote (unat (5::u64)) (p_channels p) = Some h" "h_discovery_key h = example_dk"
    by (auto simp: ps)
  obtain s1 where "forward_inbound_message_tolerate_closed session_env (unat (5::u64))
      (Close \<lparr>close_channel = 5\<rparr>) (p_channels p) s = (Ok (), s1)"
    using fwd by (auto simp: ps prod_eq_iff)
  from on_close_removes [OF example_connected_inv [unfolded ps] h(1) this] h(2) show ?thesis
    by (auto simp: ps)
qed

text \<open>
  C28. When the application's own \<open>Close\<close> leaves the outbound queue, its channel is removed, its flag
  set, and one \<open>Close\<close> event queued.
\<close>

theorem close_local_removes:
  assumes "proto_inv H (p, s)" and "get_local (unat lid) (p_channels p) = Some h"
  shows "\<exists>m. close_local H lid (p, s) =
      (Ok (), p\<lparr>p_channels := m,
         queued_events := queued_events p @ [Event_Close (h_discovery_key h)]\<rparr>,
       store_true (h_closed h) s) \<and>
    channels m = (channels (p_channels p))(hex_encode H (h_discovery_key h) := None)"
  by (rule close_local_run [OF _ assms(2)]) (use assms(1) in \<open>simp add: proto_inv_def\<close>)

theorem close_local_removes_witness:
  "\<exists>p' s'. close_local ref_crypto 1 (snd example_connected) = (Ok (), p', s') \<and>
     last (queued_events p') = Event_Close example_dk \<and>
     channels (p_channels p') (hex_encode ref_crypto example_dk) = None"
proof -
  obtain p s where ps: "snd example_connected = (p, s)" by fastforce
  have "map_option h_discovery_key (get_local 1 (p_channels (fst (snd example_connected)))) = Some example_dk"
    by code_simp
  then obtain h where h: "get_local (unat (1::u64)) (p_channels p) = Some h" "h_discovery_key h = example_dk"
    by (auto simp: ps)
  from close_local_removes [OF example_connected_inv [unfolded ps] h(1)] h(2) show ?thesis
    by (auto simp: ps)
qed

text \<open>
  C29. A command to close a channel removes it and queues one \<open>Close\<close> event; the write queue is
  unchanged, so the remote is not told.
\<close>

theorem command_close_is_silent:
  assumes "proto_inv H (p, s)" and "channels (p_channels p) (hex_encode H dk) = Some h"
  shows "\<exists>p'. command_close H dk (p, s) = (Ok (), p', store_true (h_closed h) s) \<and>
    channels (p_channels p') = (channels (p_channels p))(hex_encode H dk := None) \<and>
    queued_events p' = queued_events p @ [Event_Close dk] \<and> p_io p' = p_io p"
proof -
  have "cm_inv H (p_channels p, s)" using assms(1) by (simp add: proto_inv_def)
  from command_close_run [OF this assms(2)] show ?thesis by auto
qed

theorem command_close_is_silent_witness:
  "\<exists>p' s'. command_close ref_crypto example_dk (snd example_opened) = (Ok (), p', s') \<and>
     queued_events p' = [Event_Close example_dk] \<and> p_io p' = p_io (fst (snd example_opened))"
proof -
  obtain p s where ps: "snd example_opened = (p, s)" by fastforce
  have "\<exists>h. channels (p_channels p) (hex_encode ref_crypto example_dk) = Some h"
    using example_opened_handle(1) by (auto simp: ps)
  then obtain h where h: "channels (p_channels p) (hex_encode ref_crypto example_dk) = Some h" ..
  from command_close_is_silent [OF example_opened_inv [unfolded ps] h] example_opened_handle(3)
  show ?thesis by (auto simp: ps)
qed

section \<open>Replication\<close>

text \<open>
  C30. Replication completes. Between a side whose core has \<open>n\<close> blocks and one whose core is empty, in
  every interleaving of the two tasks: no task stops with an error or a panic, there are at most
  \<open>2 * n + 9\<close> messages to handle, and when none is left the second core has every block of the first.
\<close>

theorem replication_completes:
  assumes "queue_takes (s_env A) (s_sent A)" and "queue_takes (s_env B) (s_sent B)"
    and "origin (s_core A) QA G n f val" and "copies (s_core B) QB G n f val"
    and "0 < n" and "n < 2 ^ 64" and "QA ca" and "\<not> closed (s_channel A) sa"
    and "QB cb" and "\<not> closed (s_channel B) sb" and "info_length (hc_info (s_core B) cb) = 0"
  shows "\<exists>ma ta mb tb. starts A ca sa ma ta \<and> starts B cb sb mb tb \<and>
    (\<forall>k N. (net_step checks A B ^^ k) \<lparr>net_origin = ta, net_copy = tb, to_origin = mb, to_copy = ma\<rparr> N \<longrightarrow>
       k \<le> 2 * n + 9 \<and> ((\<exists>N'. net_step checks A B N N') \<or>
         (\<forall>i < n. has (s_core B) (peer_core (net_copy N)) i (val i))))"
  by (rule exchange.replication_completes_run [OF exchange.intro [OF assms(1-6)] assms(7-11)])

theorem replication_completes_witness:
  "\<exists>ma ta mb tb. starts (log_side example_channel) (example_log example_blocks) example_sys ma ta \<and>
     starts (log_side example_channel) (example_log []) example_sys mb tb \<and>
     (\<forall>k N. (net_step True (log_side example_channel) (log_side example_channel) ^^ k)
          \<lparr>net_origin = ta, net_copy = tb, to_origin = mb, to_copy = ma\<rparr> N \<longrightarrow>
        k \<le> 2 * 2 + 9 \<and> ((\<exists>N'. net_step True (log_side example_channel) (log_side example_channel) N N') \<or>
          (\<forall>i < 2. has log_core (peer_core (net_copy N)) i (example_blocks ! i))))"
proof -
  let ?A = "log_side example_channel"
  have sides: "queue_takes (s_env ?A) (s_sent ?A)" "s_core ?A = log_core" "s_channel ?A = example_channel"
    using mem_queue_takes by (simp_all add: log_side_def)
  have cores: "log_full example_blocks (example_log example_blocks)"
    "log_partial 2 (\<lambda>i. example_blocks ! i) (example_log [])"
    by (simp_all add: log_full_def log_partial_def log_ok_def example_log_def)
  from replication_completes [of ?A ?A "log_full example_blocks" log_proofs 2 0 "\<lambda>i. example_blocks ! i"
      "log_partial 2 (\<lambda>i. example_blocks ! i)" "example_log example_blocks" example_sys "example_log []"
      example_sys True]
  show ?thesis
    unfolding sides(2,3)
    using sides(1) example_origin log_copies [of 2] cores example_channel_open
    by (simp add: log_core_def log_info_def example_log_def)
qed

text \<open>
  C31. A task whose core is empty asks for everything: when the remote announces a length, answers the
  request for the upgrade and then each request for a block, the task asks for the upgrade once and
  then for every block exactly once and in order, and goes on without error or panic, whatever other
  tasks do between the messages to the core (short of changing its length) and to the connection.
\<close>

theorem replication_requests_every_block:
  assumes "queue_takes E sent" and "core_cooperates K Q P" and "Q c"
    and "info_length (hc_info K c) = 0" and "\<not> closed ch s" and "0 < n" and "n < 2 ^ 64"
    and "sync_length y = of_nat n" and "sync_remote_length y = 0"
    and "into_proof d \<in> P" and "data_upgrade d = Some u" and "du_length u = of_nat n"
    and "\<And>j. j < n \<Longrightarrow> into_proof (blk j) \<in> P \<and> data_upgrade (blk j) = None \<and>
      (\<exists>b. data_block (blk j) = Some b \<and> db_index b = of_nat j)"
    and "map snd ms = Synchronize y # Data d # map (\<lambda>j. Data (blk j)) [0..<n]"
    and "\<forall>other \<in> fst ` set ms. gentle K Q sent ch other"
  shows "\<exists>t bs. onpeer checks E K ch ms c s = (Ok (), t) \<and>
    sent (world (peer_sys t)) = sent (world s) @ bs \<and>
    asks bs (map of_nat [0..<n]) [\<lparr>ru_start = 0, ru_length = of_nat n\<rparr>]"
  by (rule replica.replication_run [OF replica.intro [OF assms(1,2)] assms(3-15)])

theorem replication_requests_every_block_witness:
  "\<exists>t bs. onpeer True mem_env log_core example_channel
       [(id, Synchronize (example_sync 2)), (id, Data (example_upgrade 0 2)),
        (id, Data (example_block 0)), (id, Data (example_block 1))] (example_log []) example_sys = (Ok (), t) \<and>
     mem_outbound (world (peer_sys t)) = bs \<and> asks bs [0, 1] [\<lparr>ru_start = 0, ru_length = 2\<rparr>]"
proof -
  have gentle: "gentle log_core log_ok mem_outbound example_channel id" by (simp add: gentle_def)
  have core: "log_ok (example_log [])" "info_length (hc_info log_core (example_log [])) = 0"
    by (simp_all add: log_ok_def example_log_def log_core_def log_info_def)
  have upgrade: "data_upgrade (example_upgrade 0 2) = Some \<lparr>du_start = 0, du_length = 2, du_nodes = [],
       du_additional_nodes = [], du_signature = []\<rparr>"
    by (simp add: example_upgrade_def)
  have blocks: "into_proof (example_block j) \<in> log_proofs \<and> data_upgrade (example_block j) = None \<and>
      (\<exists>b. data_block (example_block j) = Some b \<and> db_index b = of_nat j)" for j
    using example_proofs(3) [of j] by (simp add: example_block_def)
  have two: "[0..<2] = [0, 1::nat]" by (simp add: upt_rec)
  show ?thesis
    using replication_requests_every_block [OF mem_queue_takes log_core_cooperates core example_channel_open
        _ _ _ _ example_proofs(1) upgrade _ blocks, where n = 2 and y = "example_sync 2" and checks = True and
          ms = "[(id, Synchronize (example_sync 2)), (id, Data (example_upgrade 0 2)),
            (id, Data (example_block 0)), (id, Data (example_block 1))]"] gentle
    by (simp add: example_sync_def example_sys_def mem_new_def two)
qed

text \<open>
  C32. A request is answered with the proof the core made for it: the answer names the request, is
  decoded by the peer as it was sent, and what the peer's core is asked to verify is that proof; where
  that core refuses it, the task ends with the error of the core and nothing is sent.
\<close>

theorem proof_travels:
  fixes K :: "('c, 'e) hypercore"
  assumes "compact_ok C" and "queue_takes E sent" and "\<not> closed ch (peer_sys t)"
    and "of_nat (ch_local_id ch) \<noteq> (0 :: u64)"
    and "hc_create_proof K (req_block m) (req_hash m) (req_seek m) (req_upgrade m) (peer_core t) =
      (Inr (Some proof), c)"
    and "proof_fork proof = info_fork (hc_info K c)"
  shows "\<exists>d s' answer. answer = ChannelMessage_new (of_nat (ch_local_id ch)) (Data d) \<and>
    on_request E K ch m t = (Ok (), t\<lparr>peer_core := c, peer_sys := s'\<rparr>) \<and>
    sent (world s') = sent (world (peer_sys t)) @ [[answer]] \<and> data_request d = req_id m \<and>
    (Data_ok d \<longrightarrow> (\<exists>buf. encode_messages C [answer] = Ok buf \<and> vec_decode C buf = Some (Ok ([answer], [])))) \<and>
    (\<forall>checks (E' :: 'w env) (K' :: ('c, 'e) hypercore) ch' t' e c'.
       hc_verify_and_apply_proof K' proof (peer_core t') = (Inl e, c') \<longrightarrow>
       on_data checks E' K' ch' d t' = (Err (AppCore e), t'\<lparr>peer_core := c'\<rparr>))"
proof -
  have lib: "compact_lib C" by (rule compact_lib.intro [OF assms(1)])
  have replica: "replica E sent K (\<lambda>_. False) {}"
    by (intro replica.intro assms) (simp add: core_cooperates_def)
  obtain d s' where run: "on_request E K ch m t = (Ok (), t\<lparr>peer_core := c, peer_sys := s'\<rparr>)"
    "sent (world s') = sent (world (peer_sys t)) @ [[ChannelMessage_new (of_nat (ch_local_id ch)) (Data d)]]"
    and d: "into_proof d = proof" "data_request d = req_id m"
    by (rule replica.on_request_run [OF replica assms(3,5,6)])
  have "faithful_frame C [ChannelMessage_new (of_nat (ch_local_id ch)) (Data d)]" if "Data_ok d"
    using that assms(4) by (simp add: faithful_frame_def ChannelMessage_new_def)
  then have wire: "\<exists>buf. encode_messages C [ChannelMessage_new (of_nat (ch_local_id ch)) (Data d)] = Ok buf \<and>
      vec_decode C buf = Some (Ok ([ChannelMessage_new (of_nat (ch_local_id ch)) (Data d)], []))" if "Data_ok d"
    using that compact_lib.to_encoded_bytes_frame [OF lib faithful_frame_ok]
      compact_lib.vec_decode_frame [OF lib] by (simp add: encode_messages_def del: frame.simps)
  show ?thesis
    by (rule exI [of _ d], rule exI [of _ s'], rule exI, intro conjI, rule refl, rule run(1), rule run(2), rule d(2))
      (simp_all add: wire on_data_refused d(1))
qed

theorem proof_travels_witness:
  "\<exists>d s'. on_request mem_env log_core example_channel
      \<lparr>req_id = 2, req_fork = 0, req_block = Some \<lparr>rb_index = 1, rb_nodes = 0\<rparr>, req_hash = None,
       req_seek = None, req_upgrade = None, req_manifest = False, req_priority = 0\<rparr>
      \<lparr>peer_state = PeerState_default, peer_core = example_log [[104], [111]], peer_sys = example_sys\<rparr> =
      (Ok (), \<lparr>peer_state = PeerState_default, peer_core = example_log [[104], [111]], peer_sys = s'\<rparr>) \<and>
     mem_outbound (world s') = [[ChannelMessage_new 1 (Data d)]] \<and> data_request d = 2"
proof -
  let ?m = "\<lparr>req_id = 2, req_fork = 0, req_block = Some \<lparr>rb_index = 1, rb_nodes = 0\<rparr>, req_hash = None,
       req_seek = None, req_upgrade = None, req_manifest = False, req_priority = 0\<rparr>"
  let ?t = "\<lparr>peer_state = PeerState_default, peer_core = example_log [[104], [111]], peer_sys = example_sys\<rparr>"
  obtain pf where "hc_create_proof log_core (req_block ?m) (req_hash ?m) (req_seek ?m) (req_upgrade ?m)
      (peer_core ?t) = (Inr (Some pf), example_log [[104], [111]])"
    "proof_fork pf = info_fork (hc_info log_core (example_log [[104], [111]]))"
    by (simp add: log_core_def log_proof_def log_info_def)
  from proof_travels [OF ref_compact_ok mem_queue_takes _ _ this] example_channel_open
  show ?thesis
    by (force simp: example_channel_def Channel_new_def example_sys_def mem_new_def)
qed

text \<open>
  C33. A connection serves exactly the cores of its store. Without an error of the stream, and with
  sends of commands that resolve, \<open>onconnection\<close> runs to the end of the events; it opens only keys of the store, all of them after the handshake of an
  initiator, and one with the announced discovery key for each \<open>DiscoveryKey\<close> event that it can serve;
  it starts one task for each channel event whose core it has, in order, with the core whose key has
  the discovery key of the channel.
\<close>

theorem connection_serves_store:
  assumes "crypto_ok H" and "store_of H K store" and "commands_take E given"
    and "\<forall>other \<in> fst ` set evs. \<forall>s. given (world (other s)) = given (world s)"
    and "map snd evs = map Inr es"
  shows "\<exists>ts s' keys. onconnection_loop H E is_initiator store evs s = (Ok (), ts, s') \<and>
    given (world s') = given (world s) @ map Command_Open keys \<and>
    set keys \<subseteq> hw_key ` snd ` set store \<and>
    (is_initiator \<and> (\<exists>k. Event_Handshake k \<in> set es) \<longrightarrow> set keys = hw_key ` snd ` set store) \<and>
    (\<forall>dk. Event_DiscoveryKey dk \<in> set es \<and> served store dk \<longrightarrow>
       (\<exists>key \<in> set keys. discovery_key H key = Ok dk)) \<and>
    map snd ts = filter (\<lambda>ch. served store (ch_discovery_key ch)) (concat (map event_channels es)) \<and>
    (\<forall>(w, ch) \<in> set ts. w \<in> snd ` set store \<and> discovery_key H (hw_key w) = Ok (ch_discovery_key ch))"
proof -
  have inj: "inj (hex_encode H)" using assms(1) by (simp add: crypto_ok_def)
  note inv = store_of_inv [OF assms(2)]
  let ?ts = "concat (map (event_spawns H store) es)"
  let ?keys = "concat (map (event_opens H is_initiator store) es)"
  obtain s' where "onconnection_loop H E is_initiator store evs s = (Ok (), ?ts, s')"
    "given (world s') = given (world s) @ map Command_Open ?keys"
    using onconnection_run [OF assms(3-5)] by blast
  moreover have stored: "set ?keys \<subseteq> hw_key ` snd ` set store" using event_opens_stored [OF inj inv] by force
  moreover have "set ?keys = hw_key ` snd ` set store" if "is_initiator" "Event_Handshake k \<in> set es" for k
    using stored that by (force simp: event_opens_def)
  moreover have "\<exists>key \<in> set ?keys. discovery_key H key = Ok dk"
    if "Event_DiscoveryKey dk \<in> set es" "served store dk" for dk
    using event_opens_announced [OF inj inv that(2), of is_initiator] that(1) by auto
  moreover have "map snd ?ts = filter (\<lambda>ch. served store (ch_discovery_key ch)) (concat (map event_channels es))"
    by (induction es) (simp_all add: event_spawns_served [OF inj inv])
  moreover have "\<forall>(w, ch) \<in> set ?ts. w \<in> snd ` set store \<and> discovery_key H (hw_key w) = Ok (ch_discovery_key ch)"
    using event_spawns_stored [OF inj inv] by auto
  ultimately show ?thesis by blast
qed

theorem connection_serves_store_witness:
  "\<exists>s' w. onconnection_loop ref_crypto mem_env False
       (HypercoreStore_add ref_crypto example_wrapper HypercoreStore_new)
       [(id, Inr (Event_DiscoveryKey example_dk)), (id, Inr (Event_Channel example_channel))] example_sys =
       (Ok (), [(w, example_channel)], s') \<and>
     (\<exists>key. Command_Open key \<in> set (mem_commands (world s')) \<and> discovery_key ref_crypto key = Ok example_dk)"
proof -
  let ?store = "HypercoreStore_add ref_crypto example_wrapper HypercoreStore_new"
  have served: "served ?store example_dk"
    by (simp add: served_def HypercoreStore_add_def HypercoreStore_new_def example_wrapper_def)
  have ch: "ch_discovery_key example_channel = example_dk"
    by (simp add: example_channel_def Channel_new_def)
  from connection_serves_store [OF ref_crypto_ok example_store mem_commands_take,
      of "[(id, Inr (Event_DiscoveryKey example_dk)), (id, Inr (Event_Channel example_channel))]"
        "[Event_DiscoveryKey example_dk, Event_Channel example_channel]" False example_sys]
  show ?thesis by (fastforce simp: served ch event_channels_def)
qed

section \<open>The boxed stream\<close>

text \<open>
  C34. Boxing a stream changes nothing a client can see: every sequence of calls on the boxed stream gets
  the answers that the methods of the wrapped stream give, with its errors converted, and leaves the
  boxed form of the state they lead to. Boxing a boxed stream again gives the same object.
\<close>

theorem boxed_stream_transparent:
  "drive boxed ops (BoxedStream_new S s) =
     (fst (drive S ops s), BoxedStream_new S (snd (drive S ops s))) \<and>
   BoxedStream_new boxed b = b"
  by (simp add: drive_boxed rebox map_prod_def split_beta)

section \<open>Where the code does not do what it means to\<close>

text \<open>
  C35. An \<open>Open\<close> with a channel number beyond the largest possible table panics in the receiver: the
  number is chosen by the remote and used as the length of a vector.
\<close>

theorem on_open_huge_id_panics:
  assumes "length (open_discovery_key x) = 32" and "vec_max_len \<le> unat ch"
    and "length (remote_id (p_channels p)) \<le> vec_max_len"
  shows "fst (on_open H E ch x (p, s)) = Panic"
  by (rule on_open_overflow [OF assms])

theorem on_open_huge_id_panics_witness:
  "fst (on_open ref_crypto session_env (- 1) (example_open None) example_new) = Panic"
proof -
  have "vec_max_len \<le> unat (- 1 :: u64)" by (simp add: vec_max_len_def unsigned_minus_1_eq_mask mask_eq_exp_minus_1)
  from on_open_huge_id_panics [OF _ this, of "example_open None" "fst example_new" ref_crypto session_env "snd example_new"]
  show ?thesis
    by (simp add: example_open_def example_dk_length example_new_def Protocol_new_def ChannelMap_new_def)
qed

text \<open>
  C36. Opening a key twice leaks a local id: after the channel is removed, the first id still names its
  key, and is not allocated again.
\<close>

theorem double_open_leaks_id:
  assumes "crypto_ok H" and "cm_inv H (m, s)"
    and "attach_local H key m s = Ok (h1, m1, s1)" and "attach_local H key m1 s1 = Ok (h2, m2, s2)"
    and "discovery_key H key = Ok dk" and "remove H dk m2 s2 = Ok (m3, s3)"
  shows "\<exists>i. handle_local_id h1 = Some i \<and> channels m3 (hex_encode H dk) = None \<and>
    vec_get (local_id m3) i = Some (Some (hex_encode H dk)) \<and> fst (alloc_local m3) \<noteq> i"
  by (rule double_open_leaks [OF assms(2) _ assms(3-6)]) (use assms(1) in \<open>simp add: crypto_ok_def\<close>)

lemma attach_local_new:
  assumes "local_id m \<noteq> []"
  obtains h m' s' where "attach_local ref_crypto example_key m s = Ok (h, m', s')"
  using attach_local_run [OF assms example_dk, of _ _ s] by (metis prod.collapse)

theorem double_open_leaks_id_witness:
  "\<exists>h1 m1 s1 h2 m2 s2 m3 s3 i.
     attach_local ref_crypto example_key ChannelMap_new (mem_sys mem_new) = Ok (h1, m1, s1) \<and>
     attach_local ref_crypto example_key m1 s1 = Ok (h2, m2, s2) \<and>
     remove ref_crypto example_dk m2 s2 = Ok (m3, s3) \<and>
     vec_get (local_id m3) i = Some (Some (hex_encode ref_crypto example_dk)) \<and>
     channels m3 (hex_encode ref_crypto example_dk) = None"
proof -
  note hex = ref_lib.hex_inj and inv = cm_inv_new [of ref_crypto "mem_sys mem_new"]
  obtain h1 m1 s1 where a1: "attach_local ref_crypto example_key ChannelMap_new (mem_sys mem_new) = Ok (h1, m1, s1)"
    by (rule attach_local_new [OF cm_inv_local_ids [OF inv]])
  note inv1 = cm_inv_attach_local [OF hex inv a1]
  obtain h2 m2 s2 where a2: "attach_local ref_crypto example_key m1 s1 = Ok (h2, m2, s2)"
    by (rule attach_local_new [OF cm_inv_local_ids [OF inv1]])
  note inv2 = cm_inv_attach_local [OF hex inv1 a2]
  obtain m3 s3 where rm: "remove ref_crypto example_dk m2 s2 = Ok (m3, s3)"
    using remove_run [OF inv2, of example_dk] remove_absent [of m2 ref_crypto example_dk s2]
    by (cases "channels m2 (hex_encode ref_crypto example_dk)") auto
  from double_open_leaks_id [OF ref_crypto_ok inv a1 a2 example_dk rm] a1 a2 rm show ?thesis by blast
qed

text \<open>
  C37. If the remote announces two channels under one id, messages for the id go to the second, and
  removing the first cuts the second off: its id resolves to nothing while the channel is still there.
\<close>

theorem shared_remote_id_cut_off:
  assumes "crypto_ok H" and "cm_inv H (m, s)" and "length dk1 = 32" and "length dk2 = 32"
    and "dk1 \<noteq> dk2" and "attach_remote H dk1 i c1 m s = Ok (h1, m1, s1)"
    and "attach_remote H dk2 i c2 m1 s1 = Ok (h2, m2, s2)" and "remove H dk1 m2 s2 = Ok (m3, s3)"
  shows "get_remote i m2 = Some h2 \<and> get_remote i m3 = None \<and>
    channels m3 (hex_encode H dk2) = Some h2"
  by (rule shared_remote_id [OF assms(2) _ assms(3-8)]) (use assms(1) in \<open>simp add: crypto_ok_def\<close>)

theorem shared_remote_id_cut_off_witness:
  "\<exists>h1 m1 s1 h2 m2 s2 m3 s3.
     attach_remote ref_crypto (replicate 32 1) 5 None ChannelMap_new (mem_sys mem_new) = Ok (h1, m1, s1) \<and>
     attach_remote ref_crypto (replicate 32 2) 5 None m1 s1 = Ok (h2, m2, s2) \<and>
     remove ref_crypto (replicate 32 1) m2 s2 = Ok (m3, s3) \<and>
     get_remote 5 m2 = Some h2 \<and> get_remote 5 m3 = None \<and>
     channels m3 (hex_encode ref_crypto (replicate 32 2)) = Some h2"
proof -
  note hex = ref_lib.hex_inj and inv = cm_inv_new [of ref_crypto "mem_sys mem_new"]
  let ?dk1 = "replicate 32 1 :: bytes" and ?dk2 = "replicate 32 2 :: bytes"
  have small: "5 + 1 \<le> vec_max_len \<or> 5 < length (remote_id m)" for m by (simp add: vec_max_len_def)
  obtain h1 m1 s1 where a1: "attach_remote ref_crypto ?dk1 5 None ChannelMap_new (mem_sys mem_new) = Ok (h1, m1, s1)"
    using attach_remote_run [OF small, of ref_crypto ?dk1 None] by blast
  note inv1 = cm_inv_attach_remote [OF hex inv _ a1]
  obtain h2 m2 s2 where a2: "attach_remote ref_crypto ?dk2 5 None m1 s1 = Ok (h2, m2, s2)"
    using attach_remote_run [OF small, of ref_crypto ?dk2 None] by blast
  have inv2: "cm_inv ref_crypto (m2, s2)" by (rule cm_inv_attach_remote [OF hex inv1 _ a2]) simp_all
  obtain m3 s3 where rm: "remove ref_crypto ?dk1 m2 s2 = Ok (m3, s3)"
    using remove_run [OF inv2, of ?dk1] remove_absent [of m2 ref_crypto ?dk1 s2]
    by (cases "channels m2 (hex_encode ref_crypto ?dk1)") auto
  have "?dk1 \<noteq> ?dk2" by simp
  from shared_remote_id_cut_off [OF ref_crypto_ok inv _ _ this a1 a2 rm] a1 a2 rm show ?thesis by auto
qed

text \<open>
  C38. A \<open>Data\<close> message with a block that arrives before any \<open>Synchronize\<close> panics the task of the channel
  where arithmetic is checked: it computes the remote's length, which is still 0, minus 1.
\<close>

theorem data_before_sync_panics:
  assumes "hc_verify_and_apply_proof K (into_proof d) (peer_core t) = (Inr b, c)"
    and "peer_state t = PeerState_default" and "data_upgrade d = None" and "data_block d = Some blk"
  shows "fst (on_data True E K ch d t) = Panic"
  by (rule on_data_underflow [OF assms(1) _ assms(3,4)]) (simp add: assms(2) PeerState_default_def)

theorem data_before_sync_panics_witness:
  "fst (on_data True mem_env log_core example_channel (example_block 0)
     \<lparr>peer_state = PeerState_default, peer_core = example_log [], peer_sys = example_sys\<rparr>) = Panic"
  by (rule data_before_sync_panics)
    (simp_all add: log_core_def log_apply_def into_proof_def example_block_def)

text \<open>
  C39. An upgrade that adds at most as many blocks as the core has already is not followed up: the length
  of the upgrade is compared with the length of the core, so no block is requested, and the length of
  the upgrade is announced as the length of the core.
\<close>

theorem short_upgrade_stalls:
  assumes "queue_takes E sent" and "core_cooperates K Q P" and "alive Q ch t" and "into_proof d \<in> P"
    and "data_upgrade d = Some u" and "du_length u \<le> info_length (hc_info K (peer_core t))"
  shows "\<exists>t' y. on_data checks E K ch d t = (Ok (), t') \<and>
    sent (world (peer_sys t')) = sent (world (peer_sys t)) @
      [[ChannelMessage_new (of_nat (ch_local_id ch)) (Synchronize y)]] \<and> sync_length y = du_length u"
  using replica.on_data_short_upgrade [OF replica.intro [OF assms(1,2)] assms(3-6)] by metis

theorem short_upgrade_stalls_witness:
  "\<exists>t' y. on_data True mem_env log_core example_channel (example_upgrade 4 1)
      \<lparr>peer_state = PeerState_default, peer_core = example_log [[104], [111], [104], [109]],
       peer_sys = example_sys\<rparr> = (Ok (), t') \<and>
     mem_outbound (world (peer_sys t')) = [[ChannelMessage_new 1 (Synchronize y)]] \<and> sync_length y = 1"
proof -
  let ?t = "\<lparr>peer_state = PeerState_default, peer_core = example_log [[104], [111], [104], [109]],
       peer_sys = example_sys\<rparr>"
  have alive: "alive log_ok example_channel ?t"
    using example_channel_open by (simp add: alive_def log_ok_def example_log_def utf8_bytes.simps)
  have upgrade: "data_upgrade (example_upgrade 4 1) = Some \<lparr>du_start = 4, du_length = 1, du_nodes = [],
       du_additional_nodes = [], du_signature = []\<rparr>"
    by (simp add: example_upgrade_def)
  have "du_length \<lparr>du_start = 4, du_length = 1, du_nodes = [], du_additional_nodes = [], du_signature = []\<rparr> \<le>
      info_length (hc_info log_core (peer_core ?t))"
    by (simp add: log_core_def log_info_def example_log_def)
  from short_upgrade_stalls [OF mem_queue_takes log_core_cooperates alive example_proofs(2) upgrade this]
  show ?thesis by (simp add: example_sys_def mem_new_def example_channel_def Channel_new_def)
qed

text \<open>
  C40. The handshake event is not always the first: a responder whose cipher does not know the remote's
  key yet hands out queued events before it.
\<close>

theorem events_before_handshake:
  assumes "\<not> p_is_initiator p" and "remote_public_key E (p, s) = None" and "queued_events p = ev # evs"
  shows "poll_next C H E (p, s) = Some (Ok (Ready ev), p\<lparr>queued_events := evs\<rparr>, s)"
  using assms by (simp add: poll_next_def poll_established_def pop_event_def)

theorem events_before_handshake_witness:
  "\<exists>p' s'. poll_next ref_compact ref_crypto mem_env
     ((Protocol_new mem_env (mem_new\<lparr>mem_initiator := False\<rparr>))
        \<lparr>queued_events := [Event_LocalSignal ''go'' []]\<rparr>,
      mem_sys (mem_new\<lparr>mem_initiator := False, mem_remote_key := None\<rparr>)) =
     Some (Ok (Ready (Event_LocalSignal ''go'' [])), p', s') \<and> \<not> handshake_emitted p'"
  by (rule exI, rule exI, rule conjI, rule events_before_handshake)
    (simp_all add: Protocol_new_def mem_env_def mem_new_def remote_public_key_def mem_sys_def)

end
